(* ===== verification/GoPrelude.thy ===== *)
theory GoPrelude
  imports Main "HOL-Library.Word" "HOL-Library.Monad_Syntax" "HOL-Library.Signed_Division"
begin

text \<open>
  The part of the Go language that every component of healthd relies on: 64-bit two's
  complement \<open>int\<close> arithmetic, slices with checked indexing, the truncating remainder,
  and loops over slices that may panic. A run-time panic is the value \<^term>\<open>None\<close>. The
  second half holds the list lemmas shared by the two circular buffers of
  \<open>internal/monitor\<close> (\<open>Window\<close> and \<open>ring\<close>) and the interface both implement.
\<close>

named_theorems go_simps \<open>equations of the Go primitives inside their defined range\<close>

section \<open>Machine integers\<close>

type_synonym goint = int

definition wrap64 :: "int \<Rightarrow> int" where
  "wrap64 x = (x + 2 ^ 63) mod 2 ^ 64 - 2 ^ 63"

definition in_int64 :: "int \<Rightarrow> bool" where
  "in_int64 x \<longleftrightarrow> - (2 ^ 63) \<le> x \<and> x < 2 ^ 63"

definition go_add :: "goint \<Rightarrow> goint \<Rightarrow> goint" where
  "go_add a b = wrap64 (a + b)"

definition go_sub :: "goint \<Rightarrow> goint \<Rightarrow> goint" where
  "go_sub a b = wrap64 (a - b)"

definition go_mul :: "goint \<Rightarrow> goint \<Rightarrow> goint" where
  "go_mul a b = wrap64 (a * b)"

text \<open>The remainder operator truncates towards zero and panics on a zero divisor.\<close>

definition go_rem :: "goint \<Rightarrow> goint \<Rightarrow> goint option" where
  "go_rem a b = (if b = 0 then None else Some (a smod b))"

lemma wrap64_in_int64 [simp]: "in_int64 (wrap64 x)"
proof -
  have "0 \<le> (x + 2 ^ 63) mod 2 ^ 64" and "(x + 2 ^ 63) mod 2 ^ 64 < 2 ^ 64"
    by simp_all
  then show ?thesis by (simp add: in_int64_def wrap64_def)
qed

lemma wrap64_id [go_simps]: "in_int64 x \<Longrightarrow> wrap64 x = x"
  by (simp add: in_int64_def wrap64_def)

lemma in_int64_upto: "0 \<le> x \<Longrightarrow> x \<le> b \<Longrightarrow> b < 2 ^ 63 \<Longrightarrow> in_int64 x"
  using order.trans [of "- (2 ^ 63)" 0 x] by (simp add: in_int64_def)

lemma wrap64_idem [simp]: "wrap64 (wrap64 x) = wrap64 x"
  by (rule wrap64_id) simp

lemma wrap64_sint: "wrap64 x = sint (word_of_int x :: 64 word)"
  by (simp add: wrap64_def sint_uint uint_word_of_int signed_take_bit_eq_take_bit_shift
      take_bit_eq_mod mod_simps)

lemma go_add_in [go_simps]: "in_int64 (a + b) \<Longrightarrow> go_add a b = a + b"
  and go_sub_in [go_simps]: "in_int64 (a - b) \<Longrightarrow> go_sub a b = a - b"
  and go_mul_in [go_simps]: "in_int64 (a * b) \<Longrightarrow> go_mul a b = a * b"
  by (simp_all add: go_add_def go_sub_def go_mul_def wrap64_id)

lemma go_arith_in_int64 [simp]:
  "in_int64 (go_add a b)" "in_int64 (go_sub a b)" "in_int64 (go_mul a b)"
  by (simp_all add: go_add_def go_sub_def go_mul_def)

lemma smod_nonneg: "0 \<le> a \<Longrightarrow> 0 < b \<Longrightarrow> a smod b = a mod (b::int)"
  by (cases "a = 0") (simp_all add: signed_modulo_int_def signed_divide_int_def sgn_if)

lemma go_rem_nonneg [go_simps]:
  "0 \<le> a \<Longrightarrow> 0 < b \<Longrightarrow> go_rem a b = Some (a mod b)"
  by (simp add: go_rem_def smod_nonneg)

section \<open>Slices\<close>

definition go_len :: "'a list \<Rightarrow> goint" where
  "go_len xs = int (length xs)"

definition go_index :: "'a list \<Rightarrow> goint \<Rightarrow> 'a option" where
  "go_index xs i = (if 0 \<le> i \<and> i < int (length xs) then Some (xs ! nat i) else None)"

definition go_store :: "'a list \<Rightarrow> goint \<Rightarrow> 'a \<Rightarrow> 'a list option" where
  "go_store xs i v = (if 0 \<le> i \<and> i < int (length xs) then Some (xs[nat i := v]) else None)"

definition go_make :: "'a \<Rightarrow> goint \<Rightarrow> 'a list option" where
  "go_make zero n = (if n < 0 then None else Some (replicate (nat n) zero))"

lemma go_index_in [go_simps]: "0 \<le> i \<Longrightarrow> i < int (length xs) \<Longrightarrow> go_index xs i = Some (xs ! nat i)"
  and go_store_in [go_simps]:
    "0 \<le> i \<Longrightarrow> i < int (length xs) \<Longrightarrow> go_store xs i v = Some (xs[nat i := v])"
  by (simp_all add: go_index_def go_store_def)

text \<open>A loop over a slice whose body updates a state and may panic.\<close>

primrec go_range :: "('s \<Rightarrow> 'a \<Rightarrow> 's option) \<Rightarrow> 's \<Rightarrow> 'a list \<Rightarrow> 's option" where
  "go_range f s [] = Some s"
| "go_range f s (x # xs) = Option.bind (f s x) (\<lambda>s'. go_range f s' xs)"

lemma go_range_append:
  "go_range f s (xs @ ys) = Option.bind (go_range f s xs) (\<lambda>s'. go_range f s' ys)"
  by (induction xs arbitrary: s) (simp_all split: option.splits bind_splits)

lemma go_range_total:
  assumes "\<And>s x. I s \<Longrightarrow> \<exists>s'. f s x = Some s' \<and> I s'"
  shows "I s \<Longrightarrow> \<exists>s'. go_range f s xs = Some s' \<and> I s'"
proof (induction xs arbitrary: s)
  case (Cons x xs)
  from assms [OF Cons.prems] obtain t where "f s x = Some t" and "I t" by blast
  with Cons.IH show ?case by simp
qed simp

section \<open>Time\<close>

text \<open>
  A \<open>time.Time\<close> is the number of nanoseconds since 1 January of year 1, UTC, so that the
  zero value of the Go type is 0; a \<open>time.Duration\<close> is an \<open>int64\<close> number of nanoseconds.
  \<open>time.Now()\<close> is an argument of the operations that read the clock.
\<close>

type_synonym time = int
type_synonym duration = goint

definition IsZero :: "time \<Rightarrow> bool" where
  "IsZero t \<longleftrightarrow> t = 0"

definition unixEpoch :: time where
  "unixEpoch = 62135596800 * 10 ^ 9"

definition UnixMilli :: "time \<Rightarrow> goint" where
  "UnixMilli t = wrap64 ((t - unixEpoch) div 10 ^ 6)"

definition Millisecond :: duration where
  "Millisecond = 10 ^ 6"

definition Second :: duration where
  "Second = 10 ^ 9"

section \<open>The last elements of a list\<close>

definition lastn :: "nat \<Rightarrow> 'a list \<Rightarrow> 'a list" where
  "lastn n xs = drop (length xs - n) xs"

lemma length_lastn [simp]: "length (lastn n xs) = min n (length xs)"
  by (simp add: lastn_def)

lemma lastn_short: "length xs \<le> n \<Longrightarrow> lastn n xs = xs"
  by (simp add: lastn_def)

lemma lastn_Nil [simp]: "lastn n [] = []"
  by (simp add: lastn_def)

lemma lastn_append: "lastn n (xs @ ys) = lastn (n - length ys) xs @ lastn n ys"
proof -
  have "length xs + length ys - n = length xs - (n - length ys)" if "length ys \<le> n"
    using that by simp
  then show ?thesis by (cases "length ys \<le> n") (simp_all add: lastn_def)
qed

lemma lastn_lastn: "lastn n (lastn m xs) = lastn (min n m) xs"
proof -
  have "length xs - m + (length xs - (n + (length xs - m))) = length xs - min n m" by arith
  then show ?thesis by (simp add: lastn_def add.commute)
qed

lemma lastn_lastn_append: "lastn n (lastn n xs @ ys) = lastn n (xs @ ys)"
  by (simp add: lastn_append lastn_lastn)

lemma set_lastn: "set (lastn n xs) \<subseteq> set xs"
  by (simp add: lastn_def set_drop_subset)

lemma last_lastn: "xs \<noteq> [] \<Longrightarrow> 0 < n \<Longrightarrow> last (lastn n xs) = last xs"
  by (simp add: lastn_def)

section \<open>Circular buffers\<close>

text \<open>
  The elements of a circular buffer \<open>buf\<close> with write position \<open>h\<close> that currently
  holds \<open>l\<close> elements, oldest first, and the effect of one write.
\<close>

definition circ :: "'a list \<Rightarrow> nat \<Rightarrow> nat \<Rightarrow> 'a list" where
  "circ buf h l = map (\<lambda>i. buf ! ((h + length buf - l + i) mod length buf)) [0..<l]"

lemma length_circ [simp]: "length (circ buf h l) = l"
  by (simp add: circ_def)

lemma nth_circ: "i < l \<Longrightarrow> circ buf h l ! i = buf ! ((h + length buf - l + i) mod length buf)"
  by (simp add: circ_def)

lemma circ_full_hd:
  assumes "h < length buf"
  shows "circ buf h (length buf) = buf ! h # tl (circ buf h (length buf))"
proof -
  from assms have ne: "circ buf h (length buf) \<noteq> []" by (auto simp: circ_def)
  then have "hd (circ buf h (length buf)) = circ buf h (length buf) ! 0"
    by (simp add: hd_conv_nth)
  also have "\<dots> = buf ! h" using assms by (subst nth_circ) auto
  finally show ?thesis using ne by (metis list.collapse)
qed

lemma circ_write_grow:
  assumes h: "h < length buf" and l: "l < length buf"
  shows "circ (buf[h := v]) ((h + 1) mod length buf) (Suc l) = circ buf h l @ [v]"
proof (rule nth_equalityI)
  fix i assume "i < length (circ (buf[h := v]) ((h + 1) mod length buf) (Suc l))"
  then have i: "i \<le> l" by simp
  let ?n = "length buf"
  have idx: "((h + 1) mod ?n + ?n - Suc l + i) mod ?n = (h + ?n - l + i) mod ?n"
  proof (cases "h + 1 = ?n")
    case True
    with l have "(h + 1) mod ?n + ?n - Suc l + i + ?n = h + ?n - l + i" by simp
    then show ?thesis by (metis mod_add_self2)
  qed (use h l in simp)
  show "circ (buf[h := v]) ((h + 1) mod ?n) (Suc l) ! i = (circ buf h l @ [v]) ! i"
  proof (cases "i = l")
    case True
    with l h have "(h + ?n - l + i) mod ?n = h" by simp
    with True h idx show ?thesis by (simp add: nth_circ nth_append)
  next
    case False
    with i have il: "i < l" by simp
    have "(h + ?n - l + i) mod ?n \<noteq> h"
    proof (cases "l \<le> h + i")
      case True
      have "h + ?n - l + i = (h + i - l) + ?n" using True l by simp
      then have "(h + ?n - l + i) mod ?n = (h + i - l) mod ?n" by simp
      also have "\<dots> = h + i - l" using True il h by (intro mod_less) simp
      finally show ?thesis using True il by simp
    next
      case False
      then have "(h + ?n - l + i) mod ?n = h + ?n - l + i" using l by (intro mod_less) simp
      with False il l show ?thesis by simp
    qed
    with il i idx show ?thesis by (simp add: nth_circ nth_append)
  qed
qed simp

lemma circ_write_full:
  assumes h: "h < length buf"
  shows "circ (buf[h := v]) ((h + 1) mod length buf) (length buf)
    = tl (circ buf h (length buf)) @ [v]"
proof (rule nth_equalityI)
  let ?n = "length buf"
  show "length (circ (buf[h := v]) ((h + 1) mod ?n) ?n) = length (tl (circ buf h ?n) @ [v])"
    using h by simp
  fix i assume "i < length (circ (buf[h := v]) ((h + 1) mod ?n) ?n)"
  then have i: "i < ?n" by simp
  have idx: "((h + 1) mod ?n + ?n - ?n + i) mod ?n = (h + Suc i) mod ?n"
    by (simp add: mod_add_left_eq)
  show "circ (buf[h := v]) ((h + 1) mod ?n) ?n ! i = (tl (circ buf h ?n) @ [v]) ! i"
  proof (cases "Suc i = ?n")
    case True
    with h i idx have "circ (buf[h := v]) ((h + 1) mod ?n) ?n ! i = v"
      by (simp add: nth_circ)
    moreover from True have "i = length (tl (circ buf h ?n))" by simp
    then have "(tl (circ buf h ?n) @ [v]) ! i = v" by (simp only: nth_append_length)
    ultimately show ?thesis by simp
  next
    case False
    with i have si: "Suc i < ?n" by simp
    have "(h + Suc i) mod ?n \<noteq> h"
    proof (cases "h + Suc i < ?n")
      case True
      then show ?thesis by simp
    next
      case False
      then have "(h + Suc i) mod ?n = h + Suc i - ?n"
        using h si by (simp add: mod_if)
      with False si show ?thesis by simp
    qed
    then have "circ (buf[h := v]) ((h + 1) mod ?n) ?n ! i = buf ! ((h + Suc i) mod ?n)"
      using i idx by (simp add: nth_circ)
    also have "\<dots> = circ buf h ?n ! Suc i"
      using si by (simp add: nth_circ)
    finally have "circ (buf[h := v]) ((h + 1) mod ?n) ?n ! i = circ buf h ?n ! Suc i" .
    moreover from si have "i < ?n - 1" by simp
    ultimately show ?thesis by (simp add: nth_append nth_tl)
  qed
qed

text \<open>One write keeps the most recent \<open>length buf\<close> elements.\<close>

lemma circ_write:
  assumes "h < length buf" and "l \<le> length buf"
  shows "circ (buf[h := v]) ((h + 1) mod length buf) (min (length buf) (Suc l))
    = lastn (length buf) (circ buf h l @ [v])"
proof (cases "l = length buf")
  case True
  have "Suc 0 - length buf = 0" using assms(1) by simp
  with True circ_write_full [OF assms(1), of v] show ?thesis
    by (simp add: lastn_def drop_Suc)
next
  case False
  with assms(2) have l: "l < length buf" by simp
  then have "min (length buf) (Suc l) = Suc l" by simp
  with l circ_write_grow [OF assms(1) l, of v] show ?thesis
    by (simp add: lastn_short)
qed

section \<open>Interface of a bounded log\<close>

text \<open>
  What the clients of the two circular buffers rely on: an addition never panics, keeps
  the invariant and the capacity, and leaves the most recent \<open>cap\<close> elements in order.
\<close>

locale bounded_log =
  fixes add :: "'s \<Rightarrow> 'a \<Rightarrow> 's option"
    and contents :: "'s \<Rightarrow> 'a list"
    and cap :: "'s \<Rightarrow> nat"
    and invar :: "'s \<Rightarrow> bool"
  assumes add_ok: "invar s \<Longrightarrow> \<exists>s'. add s x = Some s' \<and> invar s' \<and> cap s' = cap s
      \<and> contents s' = lastn (cap s) (contents s @ [x])"
    and contents_bound: "invar s \<Longrightarrow> length (contents s) \<le> cap s"
begin

lemma adds_ok:
  "invar s \<Longrightarrow> \<exists>s'. go_range add s xs = Some s' \<and> invar s' \<and> cap s' = cap s
      \<and> contents s' = lastn (cap s) (contents s @ xs)"
proof (induction xs arbitrary: s)
  case Nil
  then show ?case by (simp add: lastn_short contents_bound)
next
  case (Cons x xs)
  from add_ok [OF Cons.prems] obtain t where t: "add s x = Some t" "invar t" "cap t = cap s"
    "contents t = lastn (cap s) (contents s @ [x])" by blast
  from Cons.IH [OF t(2)] obtain u where u: "go_range add t xs = Some u" "invar u" "cap u = cap t"
    "contents u = lastn (cap t) (contents t @ xs)" by blast
  have "contents u = lastn (cap s) (contents s @ x # xs)"
    using u(4) t(3,4) lastn_lastn_append [of "cap s" "contents s @ [x]" xs] by simp
  with t u show ?case by simp
qed

lemma adds_from_empty:
  assumes "invar s" and "contents s = []"
  shows "\<exists>s'. go_range add s xs = Some s' \<and> contents s' = lastn (cap s) xs"
  using adds_ok [OF assms(1), of xs] assms(2) by auto

end

end
