(* ===== verification/Float64.thy ===== *)
theory Float64
  imports Complex_Main GoPrelude
begin

text \<open>
  Go's \<open>float64\<close>: IEEE-754 binary64 with round-to-nearest-even. A finite value is the
  rational number it denotes; the two infinities and NaN are separate constructors, and the
  two zeros are one value (no operation of healthd tells them apart). Every operation rounds
  the exact rational result, so availability percentages and throughputs carry the rounding
  error the program has. The lemmas give monotonicity of rounding and exactness on
  representable values, which is what the availability bounds of the other theories use.
\<close>

named_theorems fl_simps \<open>evaluation of floating-point operations\<close>

section \<open>Rounding to an integer\<close>

definition rnd_int :: "rat \<Rightarrow> int" where
  "rnd_int q = (let f = \<lfloor>q\<rfloor>; r = q - of_int f in
     if r < 1 / 2 then f else if 1 / 2 < r then f + 1 else if even f then f else f + 1)"

lemma rnd_int_near:
  "of_int (rnd_int q) \<le> q + 1 / 2" "q \<le> of_int (rnd_int q) + 1 / 2"
proof -
  have fl: "of_int \<lfloor>q\<rfloor> \<le> q" "q < of_int \<lfloor>q\<rfloor> + 1" by linarith+
  have "of_int (rnd_int q) \<le> q + 1 / 2 \<and> q \<le> of_int (rnd_int q) + 1 / 2"
  proof (cases "q - of_int \<lfloor>q\<rfloor> < 1 / 2")
    case True
    then have r: "rnd_int q = \<lfloor>q\<rfloor>" by (simp add: rnd_int_def)
    show ?thesis unfolding r using True fl by (intro conjI) linarith+
  next
    case ge: False
    show ?thesis
    proof (cases "1 / 2 < q - of_int \<lfloor>q\<rfloor>")
      case True
      with ge have r: "rnd_int q = \<lfloor>q\<rfloor> + 1" by (simp add: rnd_int_def)
      show ?thesis unfolding r of_int_add of_int_1 using True fl by (intro conjI) linarith+
    next
      case False
      with ge have "q = of_int \<lfloor>q\<rfloor> + 1 / 2" and "rnd_int q = \<lfloor>q\<rfloor> \<or> rnd_int q = \<lfloor>q\<rfloor> + 1"
        by (auto simp: rnd_int_def Let_def)
      then show ?thesis by auto
    qed
  qed
  then show "of_int (rnd_int q) \<le> q + 1 / 2" "q \<le> of_int (rnd_int q) + 1 / 2" by simp_all
qed

lemma rnd_int_of_int [simp]: "rnd_int (of_int n) = n"
  by (simp add: rnd_int_def)

lemma rnd_int_mono: "x \<le> y \<Longrightarrow> rnd_int x \<le> rnd_int y"
proof (rule ccontr)
  assume le: "x \<le> y" and "\<not> rnd_int x \<le> rnd_int y"
  then have lt: "rnd_int y + 1 \<le> rnd_int x" and "x \<noteq> y" by auto
  from lt have "of_int (rnd_int y) + 1 \<le> (of_int (rnd_int x) :: rat)"
    by (metis of_int_1 of_int_add of_int_le_iff)
  with rnd_int_near(1) [of x] rnd_int_near(2) [of y] have "y \<le> x" by linarith
  with le \<open>x \<noteq> y\<close> show False by simp
qed

lemma rnd_int_ge: "of_int n \<le> x \<Longrightarrow> n \<le> rnd_int x"
  using rnd_int_mono [of "of_int n" x] by simp

lemma rnd_int_le: "x \<le> of_int n \<Longrightarrow> rnd_int x \<le> n"
  using rnd_int_mono [of x "of_int n"] by simp

lemma rnd_int_eqI:
  assumes "of_int n - 1 / 2 < x" and "x < of_int n + 1 / 2"
  shows "rnd_int x = n"
proof -
  have "of_int (rnd_int x) < (of_int n + 1 :: rat)" "(of_int n :: rat) < of_int (rnd_int x) + 1"
    using rnd_int_near [of x] assms by linarith+
  then have "of_int (rnd_int x) < (of_int (n + 1) :: rat)" "(of_int n :: rat) < of_int (rnd_int x + 1)"
    by simp_all
  then show ?thesis by (simp only: of_int_less_iff)
qed

section \<open>Binary exponents\<close>

function bitlen :: "int \<Rightarrow> int" where
  "bitlen n = (if n \<le> 0 then 0 else 1 + bitlen (n div 2))"
  by pat_completeness auto
termination
  by (relation "measure nat") auto

declare bitlen.simps [simp del]

lemma bitlen_bounds:
  "0 < n \<Longrightarrow> 2 powi (bitlen n - 1) \<le> (of_int n :: rat) \<and> of_int n < (2 powi bitlen n :: rat)"
proof (induction n rule: bitlen.induct)
  case (1 n)
  have bl: "bitlen n = 1 + bitlen (n div 2)"
    using "1.prems" by (simp add: bitlen.simps [of n])
  show ?case
  proof (cases "n div 2 \<le> 0")
    case True
    with "1.prems" have "n = 1" by simp
    then show ?thesis by (simp add: bitlen.simps)
  next
    case False
    with "1.IH" "1.prems" have IH: "2 powi (bitlen (n div 2) - 1) \<le> (of_int (n div 2) :: rat)"
      "of_int (n div 2) < (2 powi bitlen (n div 2) :: rat)" by auto
    have nd: "n < 2 * (n div 2 + 1)" "2 * (n div 2) \<le> n" by simp_all
    then have "(of_int n :: rat) < of_int (2 * (n div 2 + 1))" "(of_int (2 * (n div 2)) :: rat) \<le> of_int n"
      by (simp_all only: of_int_less_iff of_int_le_iff)
    moreover have "of_int (n div 2 + 1) \<le> (2 powi bitlen (n div 2) :: rat)"
    proof -
      have "0 \<le> bitlen (n div 2)"
      proof (rule ccontr)
        assume "\<not> 0 \<le> bitlen (n div 2)"
        then have "(2 powi bitlen (n div 2) :: rat) < 2 powi 0"
          by (intro power_int_strict_increasing) simp_all
        with IH(2) have "(of_int (n div 2) :: rat) < of_int 1" by simp
        with False show False by (simp only: of_int_less_iff)
      qed
      then have p: "(2 powi bitlen (n div 2) :: rat) = of_int (2 ^ nat (bitlen (n div 2)))"
        by (simp add: power_int_def)
      from IH(2) have "n div 2 < 2 ^ nat (bitlen (n div 2))"
        unfolding p by (simp only: of_int_less_iff)
      then show ?thesis unfolding p by (simp only: of_int_le_iff)
    qed
    ultimately show ?thesis using IH(1) by (simp add: bl power_int_add power_int_diff)
  qed
qed

text \<open>The binary exponent \<open>e\<close> of a positive rational, \<open>2\<^sup>e \<le> x < 2\<^sup>e\<^sup>+\<^sup>1\<close>.\<close>

definition ilog2 :: "rat \<Rightarrow> int" where
  "ilog2 x = (let (n, d) = quotient_of x;
                  k = bitlen n - bitlen d
              in if 2 powi k \<le> x then k else k - 1)"

lemma powi2_pos [simp]: "0 < (2 powi k :: rat)"
  by simp

lemma powi2_less: "(2 powi a :: rat) < 2 powi b \<longleftrightarrow> a < b"
  and powi2_le: "(2 powi a :: rat) \<le> 2 powi b \<longleftrightarrow> a \<le> b"
proof -
  have mono: "(2 powi a :: rat) < 2 powi b" if "a < b" for a b :: int
    using that by (simp add: power_int_strict_increasing)
  show "(2 powi a :: rat) < 2 powi b \<longleftrightarrow> a < b" "(2 powi a :: rat) \<le> 2 powi b \<longleftrightarrow> a \<le> b"
    using mono [of a b] mono [of b a] by (cases a b rule: linorder_cases; simp)+
qed

lemma powi2_add: "(2 powi (a + b) :: rat) = 2 powi a * 2 powi b"
  by (simp add: power_int_add)

lemma ilog2_bounds:
  assumes "0 < x"
  shows "2 powi (ilog2 x) \<le> x \<and> x < 2 powi (ilog2 x + 1)"
proof -
  obtain n d where nd: "quotient_of x = (n, d)" by fastforce
  then have d: "0 < d" and x: "x = of_int n / of_int d"
    by (auto dest: quotient_of_denom_pos quotient_of_div)
  with assms have n: "0 < n" by (simp add: zero_less_divide_iff)
  define a b where "a = bitlen n" and "b = bitlen d"
  from bitlen_bounds [OF n] bitlen_bounds [OF d]
  have nb: "2 powi a \<le> (2 * of_int n :: rat)" "of_int n < (2 powi a :: rat)"
    and db: "2 powi b \<le> (2 * of_int d :: rat)" "of_int d < (2 powi b :: rat)"
    by (simp_all add: a_def b_def power_int_diff)
  then have "2 powi a * of_int d < (2 * of_int n * 2 powi b :: rat)"
    "of_int n * 2 powi b < (2 powi a * (2 * of_int d) :: rat)"
    using n d
    by (simp_all only: mult_le_less_imp_less mult_less_le_imp_less of_int_0_less_iff powi2_pos
        zero_less_numeral mult_pos_pos less_imp_le)
  then have up: "x * 2 powi b < 2 * 2 powi a" and lo: "2 powi a < 2 * x * 2 powi b"
    using d unfolding x by (auto simp: field_simps)
  have k: "(2 powi (a - b) :: rat) = 2 powi a / 2 powi b"
    by (simp add: power_int_diff)
  have "x < 2 * 2 powi (a - b)" and "2 powi (a - b) < 2 * x"
    using up lo by (simp_all add: k field_simps)
  then show ?thesis
    by (simp add: mult.commute ilog2_def nd a_def [symmetric] b_def [symmetric]
        Let_def power_int_add power_int_diff)
qed

lemma ilog2_eqI: "2 powi k \<le> x \<Longrightarrow> x < 2 powi (k + 1) \<Longrightarrow> ilog2 x = k"
proof -
  assume k: "2 powi k \<le> x" "x < 2 powi (k + 1)"
  then have "0 < x" by (meson less_le_trans powi2_pos)
  with k ilog2_bounds [of x] have "(2 powi k :: rat) < 2 powi (ilog2 x + 1)"
    "(2 powi ilog2 x :: rat) < 2 powi (k + 1)" by linarith+
  then show ?thesis by (simp add: powi2_less)
qed

lemma ilog2_mono: "0 < x \<Longrightarrow> x \<le> y \<Longrightarrow> ilog2 x \<le> ilog2 y"
proof -
  assume "0 < x" "x \<le> y"
  with ilog2_bounds [of x] ilog2_bounds [of y] have "(2 powi ilog2 x :: rat) < 2 powi (ilog2 y + 1)"
    by linarith
  then show ?thesis by (simp add: powi2_less)
qed

section \<open>Rounding to binary64\<close>

text \<open>
  The exponent of the last place of a nonzero value: 53 significant bits, and the fixed
  exponent of the subnormal numbers below.
\<close>

definition ulp_exp :: "rat \<Rightarrow> int" where
  "ulp_exp x = max (ilog2 \<bar>x\<bar> - 52) (- 1074)"

definition rnd :: "rat \<Rightarrow> rat" where
  "rnd x = (if x = 0 then 0
            else of_int (rnd_int (x / 2 powi ulp_exp x)) * 2 powi ulp_exp x)"

datatype float64 = Fin rat | PInf | NInf | NaN

definition fl :: "rat \<Rightarrow> float64" where
  "fl x = (let r = rnd x in
     if 2 ^ 1024 \<le> r then PInf else if r \<le> - (2 ^ 1024) then NInf else Fin r)"

lemma rnd_0 [simp]: "rnd 0 = 0"
  by (simp add: rnd_def)

lemma powi2_nonneg_int: "0 \<le> k \<Longrightarrow> (2 powi k :: rat) = of_int (2 ^ nat k)"
  by (simp add: power_int_def)

lemma rnd_nonneg: "0 \<le> x \<Longrightarrow> 0 \<le> rnd x"
  using rnd_int_ge [of 0 "x / 2 powi ulp_exp x"]
  by (simp add: rnd_def)

lemma rnd_exact:
  assumes "x = of_int m * 2 powi e" and m: "\<bar>m\<bar> \<le> 2 ^ 53" and e: "- 1074 \<le> e"
  shows "rnd x = x"
proof (cases "m = 0")
  case False
  with assms(1) have x0: "x \<noteq> 0" by simp
  have "\<exists>n. x / 2 powi ulp_exp x = of_int n"
  proof (cases "ulp_exp x \<le> e")
    case True
    have "x / 2 powi ulp_exp x = of_int m * 2 powi (e - ulp_exp x)"
      by (simp add: assms(1) power_int_diff)
    also have "\<dots> = of_int (m * 2 ^ nat (e - ulp_exp x))"
      using True by (simp add: powi2_nonneg_int)
    finally show ?thesis by blast
  next
    case big: False
    with e have u: "ulp_exp x = ilog2 \<bar>x\<bar> - 52" by (simp add: ulp_exp_def)
    have "2 powi (ulp_exp x + 52) \<le> \<bar>x\<bar>" using ilog2_bounds [of "\<bar>x\<bar>"] x0 u by simp
    moreover have "\<bar>x\<bar> = of_int \<bar>m\<bar> * 2 powi e" by (simp add: assms(1) abs_mult)
    moreover have "(of_int \<bar>m\<bar> :: rat) \<le> of_int (2 ^ 53)" using m by (simp only: of_int_le_iff)
    then have "of_int \<bar>m\<bar> * 2 powi e \<le> (2 powi (53 + e) :: rat)"
      by (simp add: power_int_add powi2_nonneg_int)
    ultimately have le: "(2 powi (ulp_exp x + 52) :: rat) \<le> 2 powi (53 + e)" and
      xle: "\<bar>x\<bar> \<le> 2 powi (53 + e)" by linarith+
    from le big have ue: "ulp_exp x = e + 1" by (simp add: powi2_le)
    with xle \<open>2 powi (ulp_exp x + 52) \<le> \<bar>x\<bar>\<close> have "\<bar>x\<bar> = 2 powi (53 + e)"
      by (simp add: algebra_simps)
    also have "\<dots> = of_int (2 ^ 52) * 2 powi ulp_exp x"
      by (simp add: ue power_int_add)
    finally have "\<bar>x\<bar> / 2 powi ulp_exp x = of_int (2 ^ 52)" by simp
    then have "x / 2 powi ulp_exp x = of_int (2 ^ 52) \<or> x / 2 powi ulp_exp x = of_int (- (2 ^ 52))"
      by (auto simp: abs_if split: if_splits)
    then show ?thesis by blast
  qed
  then obtain n where "x / 2 powi ulp_exp x = of_int n" ..
  then have "rnd x = of_int n * 2 powi ulp_exp x" using x0 by (simp add: rnd_def)
  moreover from \<open>x / 2 powi ulp_exp x = of_int n\<close> have "x = of_int n * 2 powi ulp_exp x"
    by (simp add: nonzero_divide_eq_eq)
  ultimately show ?thesis by simp
qed (simp add: assms(1))

lemma rnd_of_int: "\<bar>m\<bar> \<le> 2 ^ 53 \<Longrightarrow> rnd (of_int m) = of_int m"
  by (rule rnd_exact [where e = 0 and m = m]) simp_all

lemma rnd_mono_pos:
  assumes x: "0 < x" and xy: "x \<le> y"
  shows "rnd x \<le> rnd y"
proof -
  have y: "0 < y" using x xy by simp
  have nz: "x \<noteq> 0" "y \<noteq> 0" and ab: "\<bar>x\<bar> = x" "\<bar>y\<bar> = y" using x y by auto
  have le: "ulp_exp x \<le> ulp_exp y"
    using ilog2_mono [OF x xy] by (auto simp: ulp_exp_def ab)
  show ?thesis
  proof (cases "ulp_exp x = ulp_exp y")
    case True
    have "x / 2 powi ulp_exp y \<le> y / 2 powi ulp_exp y"
      using xy by (simp add: divide_right_mono)
    from rnd_int_mono [OF this] show ?thesis
      using nz by (simp add: rnd_def True)
  next
    case False
    define k where "k = ilog2 y"
    from le False have uy: "ulp_exp y = k - 52" and ux: "ulp_exp x < k - 52"
      and xk: "ilog2 x < k" by (auto simp: ulp_exp_def ab k_def split: if_splits)
    have "x < 2 powi (ilog2 x + 1)" using ilog2_bounds [OF x] by simp
    also have "\<dots> \<le> 2 powi k" using xk by (simp add: powi2_le)
    finally have "x / 2 powi ulp_exp x \<le> 2 powi (k - ulp_exp x)"
      by (simp add: power_int_diff divide_right_mono)
    also have "\<dots> = of_int (2 ^ nat (k - ulp_exp x))"
      using ux by (intro powi2_nonneg_int) simp
    finally have "rnd_int (x / 2 powi ulp_exp x) \<le> 2 ^ nat (k - ulp_exp x)"
      by (rule rnd_int_le)
    then have "(of_int (rnd_int (x / 2 powi ulp_exp x)) :: rat) \<le> of_int (2 ^ nat (k - ulp_exp x))"
      by (simp only: of_int_le_iff)
    also have "\<dots> = 2 powi (k - ulp_exp x)"
      using ux by (intro powi2_nonneg_int [symmetric]) simp
    finally have 1: "rnd x \<le> 2 powi k"
      using nz by (simp add: rnd_def power_int_diff field_simps)
    have "2 powi k \<le> y" using ilog2_bounds [OF y] by (simp add: k_def)
    then have "of_int (2 ^ 52) \<le> y / 2 powi (k - 52)"
      by (simp add: power_int_diff field_simps)
    then have "2 ^ 52 \<le> rnd_int (y / 2 powi (k - 52))" by (rule rnd_int_ge)
    then have "(of_int (2 ^ 52) :: rat) \<le> of_int (rnd_int (y / 2 powi (k - 52)))"
      by (simp only: of_int_le_iff)
    then have 2: "2 powi k \<le> rnd y"
      using nz by (simp add: rnd_def uy power_int_diff field_simps)
    from 1 2 show ?thesis by simp
  qed
qed

lemma rnd_mono: "0 \<le> x \<Longrightarrow> x \<le> y \<Longrightarrow> rnd x \<le> rnd y"
  using rnd_mono_pos [of x y] rnd_nonneg [of y] by (cases "x = 0") auto

section \<open>Arithmetic and comparison\<close>

definition fl_of_int :: "goint \<Rightarrow> float64" where
  "fl_of_int n = fl (of_int n)"

primrec fl_sgn :: "float64 \<Rightarrow> int" where
  "fl_sgn (Fin x) = (if 0 < x then 1 else if x < 0 then - 1 else 0)"
| "fl_sgn PInf = 1"
| "fl_sgn NInf = - 1"
| "fl_sgn NaN = 0"

definition fl_inf :: "int \<Rightarrow> float64" where
  "fl_inf s = (if 0 < s then PInf else if s < 0 then NInf else NaN)"

fun fl_add :: "float64 \<Rightarrow> float64 \<Rightarrow> float64" where
  "fl_add (Fin x) (Fin y) = fl (x + y)"
| "fl_add NaN _ = NaN"
| "fl_add _ NaN = NaN"
| "fl_add (Fin _) y = y"
| "fl_add x (Fin _) = x"
| "fl_add PInf PInf = PInf"
| "fl_add NInf NInf = NInf"
| "fl_add _ _ = NaN"

fun fl_mul :: "float64 \<Rightarrow> float64 \<Rightarrow> float64" where
  "fl_mul (Fin x) (Fin y) = fl (x * y)"
| "fl_mul NaN _ = NaN"
| "fl_mul _ NaN = NaN"
| "fl_mul x y = fl_inf (fl_sgn x * fl_sgn y)"

fun fl_div :: "float64 \<Rightarrow> float64 \<Rightarrow> float64" where
  "fl_div (Fin x) (Fin y) = (if y = 0 then fl_inf (fl_sgn (Fin x)) else fl (x / y))"
| "fl_div NaN _ = NaN"
| "fl_div _ NaN = NaN"
| "fl_div (Fin _) _ = Fin 0"
| "fl_div x (Fin y) = fl_inf (fl_sgn x * (if y < 0 then - 1 else 1))"
| "fl_div _ _ = NaN"

fun fl_less :: "float64 \<Rightarrow> float64 \<Rightarrow> bool" where
  "fl_less (Fin x) (Fin y) \<longleftrightarrow> x < y"
| "fl_less NaN _ \<longleftrightarrow> False"
| "fl_less _ NaN \<longleftrightarrow> False"
| "fl_less _ NInf \<longleftrightarrow> False"
| "fl_less PInf _ \<longleftrightarrow> False"
| "fl_less _ _ \<longleftrightarrow> True"

definition fl_eq :: "float64 \<Rightarrow> float64 \<Rightarrow> bool" where
  "fl_eq x y \<longleftrightarrow> x \<noteq> NaN \<and> x = y"

definition fl_le :: "float64 \<Rightarrow> float64 \<Rightarrow> bool" where
  "fl_le x y \<longleftrightarrow> fl_less x y \<or> fl_eq x y"

lemma fl_le_Fin [simp]: "fl_le (Fin x) (Fin y) \<longleftrightarrow> x \<le> y"
  by (auto simp: fl_le_def fl_eq_def)

lemma fl_less_irrefl [simp]: "\<not> fl_less x x"
  by (cases x) simp_all

lemma fl_le_refl: "x \<noteq> NaN \<Longrightarrow> fl_le x x"
  by (simp add: fl_le_def fl_eq_def)

lemma fl_less_trans: "fl_less x y \<Longrightarrow> fl_less y z \<Longrightarrow> fl_less x z"
  by (cases x; cases y; cases z) simp_all

lemma fl_le_trans: "fl_le x y \<Longrightarrow> fl_le y z \<Longrightarrow> fl_le x z"
  by (auto simp: fl_le_def fl_eq_def dest: fl_less_trans)

lemma fl_not_less: "x \<noteq> NaN \<Longrightarrow> y \<noteq> NaN \<Longrightarrow> \<not> fl_less x y \<longleftrightarrow> fl_le y x"
  by (cases x; cases y) (auto simp: fl_le_def fl_eq_def)

lemma fl_not_NaN: "fl_less x y \<Longrightarrow> x \<noteq> NaN \<and> y \<noteq> NaN"
  by (cases x; cases y) simp_all

section \<open>Ratios as percentages\<close>

text \<open>
  \<open>float64(a) / float64(b) * 100\<close>, the expression behind every availability figure of
  the monitor package.
\<close>

definition pct :: "goint \<Rightarrow> goint \<Rightarrow> float64" where
  "pct a b = fl_mul (fl_div (fl_of_int a) (fl_of_int b)) (Fin 100)"

definition pct_rat :: "goint \<Rightarrow> goint \<Rightarrow> rat" where
  "pct_rat a b = rnd (rnd (rnd (of_int a) / rnd (of_int b)) * 100)"

lemma fl_small: "0 \<le> rnd x \<Longrightarrow> rnd x < 2 ^ 1024 \<Longrightarrow> fl x = Fin (rnd x)"
  by (simp add: fl_def Let_def not_le)

lemma rnd_int64_bounds:
  assumes "0 \<le> n" and "n < 2 ^ 63"
  shows "0 \<le> rnd (of_int n)" and "rnd (of_int n) \<le> 2 ^ 63" and "1 \<le> n \<Longrightarrow> 1 \<le> rnd (of_int n)"
proof -
  show "0 \<le> rnd (of_int n)" using assms(1) by (simp add: rnd_nonneg)
  have "rnd (of_int n) \<le> rnd (2 ^ 63)"
    using assms by (intro rnd_mono) (simp_all add: of_int_less_iff [symmetric] del: of_int_less_iff)
  also have "\<dots> = 2 ^ 63"
    by (rule rnd_exact [where m = 1 and e = 63]) (simp_all add: power_int_def)
  finally show "rnd (of_int n) \<le> 2 ^ 63" .
  assume "1 \<le> n"
  then have "rnd (of_int 1) \<le> rnd (of_int n)" by (intro rnd_mono) simp_all
  then show "1 \<le> rnd (of_int n)" using rnd_of_int [of 1] by simp
qed

lemma pct_ratio_bounds:
  assumes "0 \<le> a" "a \<le> b" "1 \<le> b" "b < 2 ^ 63"
  shows "0 \<le> rnd (of_int a) / rnd (of_int b)" and "rnd (of_int a) / rnd (of_int b) \<le> 1"
    and "0 \<le> rnd (rnd (of_int a) / rnd (of_int b))"
    and "rnd (rnd (of_int a) / rnd (of_int b)) \<le> 1"
proof -
  have b1: "1 \<le> rnd (of_int b)" and a0: "0 \<le> rnd (of_int a)"
    using assms rnd_int64_bounds(3) [of b] rnd_int64_bounds(1) [of a] by simp_all
  have "rnd (of_int a) \<le> rnd (of_int b)"
    using assms by (intro rnd_mono) simp_all
  then show q: "0 \<le> rnd (of_int a) / rnd (of_int b)" "rnd (of_int a) / rnd (of_int b) \<le> 1"
    using a0 b1 by (simp_all add: divide_le_eq)
  then show "0 \<le> rnd (rnd (of_int a) / rnd (of_int b))" by (intro rnd_nonneg)
  have "rnd (rnd (of_int a) / rnd (of_int b)) \<le> rnd (of_int 1)"
    using q by (intro rnd_mono) simp_all
  then show "rnd (rnd (of_int a) / rnd (of_int b)) \<le> 1" using rnd_of_int [of 1] by simp
qed

lemma pct_rat_bounds:
  assumes "0 \<le> a" "a \<le> b" "1 \<le> b" "b < 2 ^ 63"
  shows "0 \<le> pct_rat a b" and "pct_rat a b \<le> 100"
proof -
  let ?q = "rnd (rnd (of_int a) / rnd (of_int b))"
  have q: "0 \<le> ?q" "?q \<le> 1" using pct_ratio_bounds [OF assms] by simp_all
  then show "0 \<le> pct_rat a b" by (simp add: pct_rat_def rnd_nonneg)
  have "rnd (?q * 100) \<le> rnd (of_int 100)" using q by (intro rnd_mono) simp_all
  then show "pct_rat a b \<le> 100" using rnd_of_int [of 100] by (simp add: pct_rat_def)
qed

lemma pct_Fin:
  assumes "0 \<le> a" "a \<le> b" "1 \<le> b" "b < 2 ^ 63"
  shows "pct a b = Fin (pct_rat a b)"
proof -
  have big: "(2::rat) ^ 63 < 2 ^ 1024" "(1::rat) < 2 ^ 1024" "(100::rat) < 2 ^ 1024"
    by simp_all
  have fi: "fl_of_int a = Fin (rnd (of_int a))" "fl_of_int b = Fin (rnd (of_int b))"
    using rnd_int64_bounds(1,2) [of a] rnd_int64_bounds(1,2) [of b] assms big(1)
    by (auto simp: fl_of_int_def intro!: fl_small elim: order_le_less_trans)
  have b0: "rnd (of_int b) \<noteq> 0" using rnd_int64_bounds(3) [of b] assms by auto
  have "fl_div (fl_of_int a) (fl_of_int b) = Fin (rnd (rnd (of_int a) / rnd (of_int b)))"
    using pct_ratio_bounds [OF assms] b0 big(2) by (auto simp: fi intro!: fl_small)
  then show ?thesis
    using pct_rat_bounds [OF assms] big(3)
    by (auto simp: pct_def pct_rat_def intro!: fl_small)
qed

lemma pct_rat_mono:
  assumes "0 \<le> a" "a \<le> a'" "a' \<le> b" "1 \<le> b" "b < 2 ^ 63"
  shows "pct_rat a b \<le> pct_rat a' b"
proof -
  have "rnd (of_int a) \<le> rnd (of_int a')" using assms by (intro rnd_mono) simp_all
  moreover have "1 \<le> rnd (of_int b)" using assms rnd_int64_bounds(3) [of b] by simp
  ultimately have "rnd (of_int a) / rnd (of_int b) \<le> rnd (of_int a') / rnd (of_int b)"
    by (simp add: divide_right_mono)
  then have "rnd (rnd (of_int a) / rnd (of_int b)) \<le> rnd (rnd (of_int a') / rnd (of_int b))"
    using pct_ratio_bounds(1) [of a b] assms by (intro rnd_mono) simp_all
  then show ?thesis
    using pct_ratio_bounds(3) [of a b] assms unfolding pct_rat_def
    by (intro rnd_mono) simp_all
qed

lemma pct_rat_full: "1 \<le> b \<Longrightarrow> b < 2 ^ 63 \<Longrightarrow> pct_rat b b = 100"
  using rnd_int64_bounds(3) [of b] rnd_of_int [of 1] rnd_of_int [of 100]
  by (simp add: pct_rat_def)

lemma pct_rat_zero: "pct_rat 0 b = 0"
  by (simp add: pct_rat_def)

text \<open>
  Up to \<open>2\<^sup>5\<^sup>3\<close> samples the rounding never hides a failure: anything short of all
  successes is strictly below 100.
\<close>

lemma rnd_just_below_one: "rnd (1 - 1 / 2 ^ 53) = 1 - 1 / 2 ^ 53"
  by (rule rnd_exact [where m = "2 ^ 53 - 1" and e = "- 53"])
    (simp_all add: power_int_def field_simps)

lemma rnd_just_below_hundred: "rnd ((1 - 1 / 2 ^ 53) * 100) = 100 - 1 / 2 ^ 46"
proof -
  let ?x = "(1 - 1 / 2 ^ 53) * 100 :: rat"
  have "ilog2 ?x = 6" by (rule ilog2_eqI) (simp_all add: power_int_def)
  then have u: "ulp_exp ?x = - 46" by (simp add: ulp_exp_def)
  have "rnd_int (?x / 2 powi (- 46)) = 100 * 2 ^ 46 - 1"
    by (rule rnd_int_eqI) (simp_all add: power_int_def power_divide)
  then show ?thesis unfolding rnd_def u by (simp add: power_int_def power_divide)
qed

lemma pct_rat_below_hundred:
  assumes "0 \<le> a" "a < b" "b \<le> 2 ^ 53"
  shows "pct_rat a b < 100"
proof -
  have ra: "rnd (of_int a) = of_int a" "rnd (of_int b) = of_int b"
    using assms by (auto intro!: rnd_of_int)
  have b: "0 < (of_int b :: rat)" "(of_int b :: rat) \<le> 2 ^ 53"
    using assms by (simp_all add: of_int_le_iff [symmetric] del: of_int_le_iff)
  have "(of_int a :: rat) \<le> of_int (b - 1)" using assms by (simp only: of_int_le_iff)
  then have "of_int a / of_int b \<le> (of_int b - 1) / (of_int b :: rat)"
    using b by (simp add: divide_right_mono)
  also have "\<dots> = 1 - 1 / of_int b" using b by (simp add: diff_divide_distrib)
  also have "\<dots> \<le> 1 - 1 / 2 ^ 53" using b by (simp add: frac_le)
  finally have "rnd (of_int a / of_int b) \<le> rnd (1 - 1 / 2 ^ 53)"
    using assms by (intro rnd_mono) simp_all
  then have "rnd (of_int a / of_int b) * 100 \<le> (1 - 1 / 2 ^ 53) * 100"
    unfolding rnd_just_below_one by (rule mult_right_mono) simp
  then have "pct_rat a b \<le> rnd ((1 - 1 / 2 ^ 53) * 100)"
    using assms unfolding pct_rat_def ra by (intro rnd_mono) (simp_all add: rnd_nonneg)
  then show ?thesis unfolding rnd_just_below_hundred by (simp add: less_le_not_le)
qed

end
