(* ===== verification/GoError.thy ===== *)
theory GoError
  imports GoPrelude
begin

text \<open>
  Go's error results. A function that returns only an \<^verbatim>\<open>error\<close> is an option (\<^term>\<open>None\<close> is the
  nil error); a function that returns a value and an error is a sum, \<^term>\<open>Inl\<close> the error. The
  theory holds the two shapes in which the sources chain such calls: an early return, and a loop
  that returns the first error.
\<close>

named_theorems err_simps \<open>facts about early returns and error loops\<close>

definition err_then :: "'e option \<Rightarrow> 'e option \<Rightarrow> 'e option" where
  "err_then a b = (case a of Some e \<Rightarrow> Some e | None \<Rightarrow> b)"

definition or_fail :: "'e + 'a \<Rightarrow> ('a \<Rightarrow> 'e + 'b) \<Rightarrow> 'e + 'b" where
  "or_fail r k = (case r of Inl e \<Rightarrow> Inl e | Inr x \<Rightarrow> k x)"

primrec first_error :: "('a \<Rightarrow> 'e option) \<Rightarrow> 'a list \<Rightarrow> 'e option" where
  "first_error f [] = None"
| "first_error f (x # xs) = (case f x of Some e \<Rightarrow> Some e | None \<Rightarrow> first_error f xs)"

text \<open>A loop that replaces each element and stops at the first error.\<close>

primrec map_err :: "('a \<Rightarrow> 'e + 'b) \<Rightarrow> 'a list \<Rightarrow> 'e + 'b list" where
  "map_err f [] = Inr []"
| "map_err f (x # xs) = (case f x of Inl e \<Rightarrow> Inl e
     | Inr y \<Rightarrow> (case map_err f xs of Inl e \<Rightarrow> Inl e | Inr ys \<Rightarrow> Inr (y # ys)))"

lemma err_then_None [simp, err_simps]: "err_then a b = None \<longleftrightarrow> a = None \<and> b = None"
  by (auto simp: err_then_def split: option.splits)

lemma err_then_simps [simp]: "err_then None b = b" "err_then (Some e) b = Some e"
  by (simp_all add: err_then_def)

lemma or_fail_simps [simp]: "or_fail (Inl e) k = Inl e" "or_fail (Inr x) k = k x"
  by (simp_all add: or_fail_def)

lemma or_fail_Inr [err_simps]: "or_fail r k = Inr y \<longleftrightarrow> (\<exists>x. r = Inr x \<and> k x = Inr y)"
  by (cases r) auto

lemma or_fail_Inl [err_simps]: "or_fail r k = Inl e \<longleftrightarrow> r = Inl e \<or> (\<exists>x. r = Inr x \<and> k x = Inl e)"
  by (cases r) auto

lemma first_error_None [simp, err_simps]: "first_error f xs = None \<longleftrightarrow> (\<forall>x \<in> set xs. f x = None)"
  by (induction xs) (auto split: option.splits)

lemma first_error_SomeD:
  "first_error f xs = Some e \<Longrightarrow> \<exists>x \<in> set xs. f x = Some e"
  by (induction xs) (auto split: option.splits)

lemma first_error_split:
  "first_error f xs = Some e \<longleftrightarrow>
    (\<exists>ys x zs. xs = ys @ x # zs \<and> (\<forall>y \<in> set ys. f y = None) \<and> f x = Some e)"
proof (induction xs)
  case (Cons x xs)
  show ?case
  proof (cases "f x")
    case None
    have "(\<exists>ys y zs. x # xs = ys @ y # zs \<and> (\<forall>z \<in> set ys. f z = None) \<and> f y = Some e) \<longleftrightarrow>
      (\<exists>ys y zs. xs = ys @ y # zs \<and> (\<forall>z \<in> set ys. f z = None) \<and> f y = Some e)" (is "?l \<longleftrightarrow> ?r")
    proof
      assume ?l
      then obtain ys y zs where "x # xs = ys @ y # zs" "\<forall>z \<in> set ys. f z = None" "f y = Some e" by blast
      with None show ?r by (cases ys) auto
    next
      assume ?r
      then obtain ys y zs where "xs = ys @ y # zs" "\<forall>z \<in> set ys. f z = None" "f y = Some e" by blast
      with None show ?l by (intro exI [of _ "x # ys"] exI [of _ y] exI [of _ zs]) simp
    qed
    with None Cons.IH show ?thesis by simp
  next
    case (Some e')
    then show ?thesis
      by (auto simp: Cons_eq_append_conv intro: exI [of _ "[]"])
  qed
qed simp

lemma map_err_Inr [err_simps]: "map_err f xs = Inr ys \<longleftrightarrow> list_all2 (\<lambda>x y. f x = Inr y) xs ys"
proof (induction xs arbitrary: ys)
  case (Cons x xs)
  have "map_err f (x # xs) = Inr ys \<longleftrightarrow> (\<exists>y zs. ys = y # zs \<and> f x = Inr y \<and> map_err f xs = Inr zs)"
    by (auto split: sum.splits)
  then show ?case by (simp only: Cons.IH list_all2_Cons1)
qed auto

lemma map_err_total: "(\<And>x. x \<in> set xs \<Longrightarrow> f x = Inr (g x)) \<Longrightarrow> map_err f xs = Inr (map g xs)"
  by (induction xs) auto

lemma map_err_length: "map_err f xs = Inr ys \<Longrightarrow> length ys = length xs"
  by (simp add: map_err_Inr list_all2_lengthD)

lemma map_err_is_Inr: "(\<exists>ys. map_err f xs = Inr ys) \<longleftrightarrow> (\<forall>x \<in> set xs. \<exists>y. f x = Inr y)"
  by (induction xs) (auto split: sum.splits)

end
