(* ===== verification/GoStrings.thy ===== *)
theory GoStrings
  imports GoPrelude
begin

text \<open>
  The string functions of Go's \<^verbatim>\<open>fmt\<close> and \<^verbatim>\<open>strings\<close> packages that the sources use: decimal
  numbers (\<^verbatim>\<open>%d\<close>), joining, trimming, and lines ended by CR LF.
\<close>

subsection \<open>Decimal numbers\<close>

definition digit :: "nat \<Rightarrow> char" where
  "digit n = char_of (48 + n)"

fun nat_text :: "nat \<Rightarrow> string" where
  "nat_text n = (if n < 10 then [digit n] else nat_text (n div 10) @ [digit (n mod 10)])"

declare nat_text.simps [simp del]

definition itoa :: "goint \<Rightarrow> string" where
  "itoa i = (if i < 0 then ''-'' @ nat_text (nat (- i)) else nat_text (nat i))"

definition is_digit :: "char \<Rightarrow> bool" where
  "is_digit c \<longleftrightarrow> 48 \<le> (of_char c :: nat) \<and> (of_char c :: nat) \<le> 57"

definition digit_val :: "char \<Rightarrow> nat" where
  "digit_val c = of_char c - 48"

lemma digit_ok: "n < 10 \<Longrightarrow> is_digit (digit n) \<and> digit_val (digit n) = n"
  by (simp add: is_digit_def digit_val_def digit_def)

lemma nat_text_digits: "c \<in> set (nat_text n) \<Longrightarrow> is_digit c"
proof (induction n rule: nat_text.induct)
  case (1 n)
  then show ?case by (subst (asm) (2) nat_text.simps) (auto simp: digit_ok split: if_splits)
qed

lemma itoa_chars: "c \<in> set (itoa i) \<Longrightarrow> is_digit c \<or> c = CHR ''-''"
  by (auto simp: itoa_def dest: nat_text_digits split: if_splits)

definition digits_val :: "string \<Rightarrow> nat" where
  "digits_val s = foldl (\<lambda>n c. 10 * n + digit_val c) 0 s"

lemma digits_val_nat_text [simp]: "digits_val (nat_text n) = n"
proof (induction n rule: nat_text.induct)
  case (1 n)
  then show ?case
    by (subst nat_text.simps) (auto simp: digits_val_def digit_ok)
qed

lemma nat_text_inj: "nat_text m = nat_text n \<longleftrightarrow> m = n"
  by (metis digits_val_nat_text)

lemma nat_text_not_Nil [simp]: "nat_text n \<noteq> []"
  by (subst nat_text.simps) auto

lemma nat_text_hd: "is_digit (hd (nat_text n))"
  by (metis list.set_sel(1) nat_text_digits nat_text_not_Nil)

lemma nat_text_length: "n < 10 ^ k \<Longrightarrow> 0 < k \<Longrightarrow> length (nat_text n) \<le> k"
proof (induction n arbitrary: k rule: nat_text.induct)
  case (1 n)
  show ?case
  proof (cases "n < 10")
    case True
    with "1.prems" show ?thesis by (subst nat_text.simps) simp
  next
    case False
    then have "k \<noteq> 1" using "1.prems" by auto
    with "1.prems" have "1 < k" by simp
    moreover from this "1.prems" have "n div 10 < 10 ^ (k - 1)"
      by (cases k) (simp_all add: less_mult_imp_div_less mult.commute)
    ultimately show ?thesis using "1.IH" [of "k - 1"] False by (subst nat_text.simps) simp
  qed
qed

lemma itoa_inj: "itoa i = itoa j \<longleftrightarrow> i = j"
proof
  have minus: "\<not> is_digit CHR ''-''" by (simp add: is_digit_def)
  assume "itoa i = itoa j"
  then show "i = j"
    using minus nat_text_hd [of "nat i"] nat_text_hd [of "nat j"]
    by (auto simp: itoa_def nat_text_inj split: if_splits dest: arg_cong [where f = hd])
qed simp

text \<open>A number padded with zeros.\<close>

definition pad :: "nat \<Rightarrow> nat \<Rightarrow> string" where
  "pad width n = replicate (width - length (nat_text n)) CHR ''0'' @ nat_text n"

subsection \<open>Joining and trimming\<close>

fun strings_Join :: "string list \<Rightarrow> string \<Rightarrow> string" where
  "strings_Join [] sep = ''''"
| "strings_Join [s] sep = s"
| "strings_Join (s # ss) sep = s @ sep @ strings_Join ss sep"

lemma strings_Join_chars: "c \<in> set (strings_Join ss sep) \<Longrightarrow> c \<in> set sep \<or> (\<exists>s \<in> set ss. c \<in> set s)"
  by (induction ss sep rule: strings_Join.induct) auto

text \<open>\<^verbatim>\<open>strings.TrimRight\<close> with a cutset of one character.\<close>

definition strings_TrimRight :: "string \<Rightarrow> char \<Rightarrow> string" where
  "strings_TrimRight s c = rev (dropWhile (\<lambda>x. x = c) (rev s))"

lemma TrimRight_suffix: "\<exists>n. s = strings_TrimRight s c @ replicate n c"
proof -
  have "takeWhile (\<lambda>x. x = c) (rev s) = replicate (length (takeWhile (\<lambda>x. x = c) (rev s))) c"
    by (intro replicate_eqI) (auto dest: set_takeWhileD)
  moreover have "s = rev (dropWhile (\<lambda>x. x = c) (rev s)) @ rev (takeWhile (\<lambda>x. x = c) (rev s))"
    by (metis rev_append rev_rev_ident takeWhile_dropWhile_id)
  ultimately show ?thesis unfolding strings_TrimRight_def by (metis rev_replicate)
qed

lemma TrimRight_last: "strings_TrimRight s c \<noteq> [] \<Longrightarrow> last (strings_TrimRight s c) \<noteq> c"
  by (metis (mono_tags, lifting) hd_dropWhile last_rev rev_is_Nil_conv strings_TrimRight_def)

subsection \<open>Lines\<close>

definition crlf :: string where
  "crlf = [CHR 0x0D, CHR 0x0A]"

text \<open>A text that cannot break a line.\<close>

definition one_line :: "string \<Rightarrow> bool" where
  "one_line s \<longleftrightarrow> CHR 0x0D \<notin> set s \<and> CHR 0x0A \<notin> set s"

lemma one_line_simps [simp]: "one_line []" "one_line (s @ t) \<longleftrightarrow> one_line s \<and> one_line t"
  "one_line (c # s) \<longleftrightarrow> c \<noteq> CHR 0x0D \<and> c \<noteq> CHR 0x0A \<and> one_line s"
  by (auto simp: one_line_def)

lemma one_line_itoa [simp]: "one_line (itoa i)"
  unfolding one_line_def by (auto dest!: itoa_chars simp: is_digit_def)

lemma one_line_Join: "one_line sep \<Longrightarrow> (\<And>s. s \<in> set ss \<Longrightarrow> one_line s) \<Longrightarrow> one_line (strings_Join ss sep)"
  unfolding one_line_def using strings_Join_chars by blast

text \<open>Splitting at CR LF: the reader's view of a message.\<close>

fun split_lines :: "string \<Rightarrow> string \<Rightarrow> string list" where
  "split_lines acc [] = [rev acc]"
| "split_lines acc [c] = [rev (c # acc)]"
| "split_lines acc (c # c' # s) =
     (if c = CHR 0x0D \<and> c' = CHR 0x0A then rev acc # split_lines [] s else split_lines (c # acc) (c' # s))"

definition lines_of :: "string \<Rightarrow> string list" where
  "lines_of s = split_lines [] s"

lemma split_lines_one: "one_line l \<Longrightarrow> split_lines acc (l @ crlf @ s) = (rev acc @ l) # split_lines [] s"
proof (induction l arbitrary: acc)
  case (Cons c l)
  then show ?case by (cases l) (auto simp: crlf_def)
qed (simp add: crlf_def)

lemma lines_of_line: "one_line l \<Longrightarrow> lines_of (l @ crlf @ s) = l # lines_of s"
  by (simp add: lines_of_def split_lines_one)

end
