(* ===== verification/Utf8.thy ===== *)
theory Utf8
  imports GoPrelude
begin

text \<open>
  Go strings are bytes; \<^verbatim>\<open>unicode/utf8\<close> reads them as runes. A string splits into chunks, each a
  well-formed UTF-8 sequence or one byte that begins none. Replacing the latter by the encoding of
  U+FFFD makes a string well-formed; this is what \<^verbatim>\<open>encoding/json\<close> does in both directions.
\<close>

definition byte :: "char \<Rightarrow> nat" where
  "byte c = of_char c"

lemma byte_less: "byte c < 256"
  by (simp add: byte_def)

lemma byte_char_of [simp]: "n < 256 \<Longrightarrow> byte (char_of n) = n"
  by (simp add: byte_def)

lemma byte_eq [simp]: "byte c = byte d \<longleftrightarrow> c = d"
  by (simp add: byte_def)

text \<open>The byte at a position lies within bounds.\<close>

definition byte_in :: "string \<Rightarrow> nat \<Rightarrow> nat \<Rightarrow> nat \<Rightarrow> bool" where
  "byte_in s i lo hi \<longleftrightarrow> i < length s \<and> lo \<le> byte (s ! i) \<and> byte (s ! i) \<le> hi"

text \<open>
  The length of the well-formed sequence a string begins with, zero if there is none: overlong
  forms, surrogates and code points above U+10FFFF are not well-formed.
\<close>

definition rune1 :: "string \<Rightarrow> bool" where
  "rune1 s \<longleftrightarrow> byte_in s 0 0 0x7F"

definition rune2 :: "string \<Rightarrow> bool" where
  "rune2 s \<longleftrightarrow> byte_in s 0 0xC2 0xDF \<and> byte_in s 1 0x80 0xBF"

definition rune3 :: "string \<Rightarrow> bool" where
  "rune3 s \<longleftrightarrow> (byte_in s 0 0xE0 0xE0 \<and> byte_in s 1 0xA0 0xBF \<or> byte_in s 0 0xE1 0xEC \<and> byte_in s 1 0x80 0xBF
      \<or> byte_in s 0 0xED 0xED \<and> byte_in s 1 0x80 0x9F \<or> byte_in s 0 0xEE 0xEF \<and> byte_in s 1 0x80 0xBF)
     \<and> byte_in s 2 0x80 0xBF"

definition rune4 :: "string \<Rightarrow> bool" where
  "rune4 s \<longleftrightarrow> (byte_in s 0 0xF0 0xF0 \<and> byte_in s 1 0x90 0xBF \<or> byte_in s 0 0xF1 0xF3 \<and> byte_in s 1 0x80 0xBF
      \<or> byte_in s 0 0xF4 0xF4 \<and> byte_in s 1 0x80 0x8F)
     \<and> byte_in s 2 0x80 0xBF \<and> byte_in s 3 0x80 0xBF"

definition rune_len :: "string \<Rightarrow> nat" where
  "rune_len s = (if rune1 s then 1 else if rune2 s then 2 else if rune3 s then 3 else if rune4 s then 4 else 0)"

lemma byte_in_take: "i < n \<Longrightarrow> n \<le> length s \<Longrightarrow> byte_in (take n s @ t) i lo hi = byte_in s i lo hi"
  by (auto simp: byte_in_def nth_append)

lemma rune_lengths: "rune1 s \<Longrightarrow> 1 \<le> length s" "rune2 s \<Longrightarrow> 2 \<le> length s" "rune3 s \<Longrightarrow> 3 \<le> length s"
  "rune4 s \<Longrightarrow> 4 \<le> length s"
  by (simp_all add: rune1_def rune2_def rune3_def rune4_def byte_in_def Suc_le_eq)

lemma rune_len_length: "rune_len s \<le> length s"
  using rune_lengths [of s] by (simp add: rune_len_def)

lemma rune_len_Nil [simp]: "rune_len [] = 0"
  by (simp add: rune_len_def rune1_def rune2_def rune3_def rune4_def byte_in_def)

lemma rune_take:
  assumes "n \<le> length s"
  shows "1 \<le> n \<Longrightarrow> rune1 (take n s @ t) = rune1 s" "2 \<le> n \<Longrightarrow> rune2 (take n s @ t) = rune2 s"
    "3 \<le> n \<Longrightarrow> rune3 (take n s @ t) = rune3 s" "4 \<le> n \<Longrightarrow> rune4 (take n s @ t) = rune4 s"
  by (simp_all add: rune1_def rune2_def rune3_def rune4_def byte_in_take [OF _ assms])

lemma rune_len_take:
  assumes "0 < rune_len s"
  shows "rune_len (take (rune_len s) s @ t) = rune_len s"
  using assms rune_take [OF rune_len_length, of s t]
  unfolding rune_len_def [of "take (rune_len s) s @ t"]
  by (auto simp: rune_len_def [of s] split: if_splits)

lemma rune_len_ascii: "byte c < 0x80 \<Longrightarrow> rune_len (c # s) = 1"
  by (simp add: rune_len_def rune1_def byte_in_def)

lemma rune_len_one: "0x80 \<le> byte c \<Longrightarrow> rune_len [c] = 0"
  by (simp add: rune_len_def rune1_def rune2_def rune3_def rune4_def byte_in_def)

lemma rune_len_not_ascii: "rune_len (c # s) \<noteq> 1 \<Longrightarrow> 0x80 \<le> byte c"
  using rune_len_ascii [of c s] by linarith

function chunks :: "string \<Rightarrow> string list" where
  "chunks [] = []"
| "chunks (c # s) = (let n = max 1 (rune_len (c # s)) in take n (c # s) # chunks (drop n (c # s)))"
  by pat_completeness auto
termination
  by (relation "measure length") auto

lemma concat_chunks [simp]: "concat (chunks s) = s"
  by (induction s rule: chunks.induct) (simp_all add: Let_def del: take_Suc_Cons drop_Suc_Cons)

text \<open>The encoding of U+FFFD, and of any other rune.\<close>

definition replacement :: string where
  "replacement = [CHR 0xEF, CHR 0xBF, CHR 0xBD]"

definition encode_rune :: "nat \<Rightarrow> string" where
  "encode_rune n = (
     if n < 0x80 then [char_of n]
     else if n < 0x800 then [char_of (0xC0 + n div 0x40), char_of (0x80 + n mod 0x40)]
     else if n < 0x10000 then
       [char_of (0xE0 + n div 0x1000), char_of (0x80 + n div 0x40 mod 0x40), char_of (0x80 + n mod 0x40)]
     else [char_of (0xF0 + n div 0x40000), char_of (0x80 + n div 0x1000 mod 0x40),
       char_of (0x80 + n div 0x40 mod 0x40), char_of (0x80 + n mod 0x40)])"

definition to_valid :: "string \<Rightarrow> string" where
  "to_valid s = concat (map (\<lambda>c. if rune_len c = 0 then replacement else c) (chunks s))"

definition valid_utf8 :: "string \<Rightarrow> bool" where
  "valid_utf8 s \<longleftrightarrow> list_all (\<lambda>c. rune_len c \<noteq> 0) (chunks s)"

lemma to_valid_id: "valid_utf8 s \<Longrightarrow> to_valid s = s"
proof -
  assume "valid_utf8 s"
  then have "map (\<lambda>c. if rune_len c = 0 then replacement else c) (chunks s) = chunks s"
    by (intro map_idI) (auto simp: valid_utf8_def list_all_iff)
  then show ?thesis by (simp add: to_valid_def)
qed

lemma chunks_rune:
  assumes "0 < rune_len s"
  shows "chunks s = take (rune_len s) s # chunks (drop (rune_len s) s)"
  using assms by (cases s) (simp_all add: Let_def max_def del: take_Suc_Cons drop_Suc_Cons)

lemma chunks_append_rune:
  assumes "rune_len c = length c" and "c \<noteq> []"
  shows "chunks (c @ s) = c # chunks s"
proof -
  have "rune_len (c @ s) = length c" using rune_len_take [of c s] assms by simp
  then show ?thesis using chunks_rune [of "c @ s"] assms by simp
qed

lemma valid_utf8_simps [simp]: "valid_utf8 []"
  "rune_len c = length c \<Longrightarrow> c \<noteq> [] \<Longrightarrow> valid_utf8 (c @ s) \<longleftrightarrow> valid_utf8 s"
  by (simp_all add: valid_utf8_def chunks_append_rune)

text \<open>What a chunk can be: one byte that begins no sequence, or a whole sequence.\<close>

lemma chunks_chunk:
  assumes "c \<in> set (chunks s)"
  shows "rune_len c = 0 \<and> (\<exists>b. c = [b] \<and> 0x80 \<le> byte b) \<or> 0 < rune_len c \<and> rune_len c = length c"
  using assms
proof (induction s rule: chunks.induct)
  case (2 b s)
  let ?n = "rune_len (b # s)"
  show ?case
  proof (cases "c = take (max 1 ?n) (b # s)")
    case True
    show ?thesis
    proof (cases "?n = 0")
      case n: True
      with True have c: "c = [b]" by simp
      from n have "0x80 \<le> byte b" by (intro rune_len_not_ascii [of b s]) simp
      with rune_len_one c show ?thesis by simp
    next
      case False
      with True have c: "c = take ?n (b # s)" by (simp add: max_def)
      have "rune_len c = ?n" using rune_len_take [of "b # s" "[]"] False c by simp
      moreover have "length c = ?n" using c rune_len_length [of "b # s"] by (simp add: min_def)
      ultimately show ?thesis using False by simp
    qed
  next
    case False
    with 2 show ?thesis by (simp add: Let_def del: take_Suc_Cons drop_Suc_Cons)
  qed
qed simp

lemma valid_ascii: "(\<And>c. c \<in> set s \<Longrightarrow> byte c < 0x80) \<Longrightarrow> valid_utf8 s"
proof (induction s)
  case (Cons c s)
  then have "rune_len [c] = 1" by (intro rune_len_ascii) simp
  with valid_utf8_simps(2) [of "[c]" s] Cons show ?case by simp
qed simp

end
