(* ===== verification/GoURL.thy ===== *)
theory GoURL
  imports GoStrings GoError Utf8
begin

text \<open>
  The parts of \<^verbatim>\<open>net/url\<close> and \<^verbatim>\<open>net\<close> that the sources rely on: \<^verbatim>\<open>url.Parse\<close>, as far as its error, the
  scheme and the host of its result go (user, path, query and fragment are checked and dropped), and
  \<^verbatim>\<open>net.SplitHostPort\<close>. They are written after the library of Go 1.21, the version in \<^verbatim>\<open>go.mod\<close>.
\<close>

subsection \<open>Characters and cutting\<close>

definition is_alpha :: "char \<Rightarrow> bool" where
  "is_alpha c \<longleftrightarrow> 97 \<le> byte c \<and> byte c \<le> 122 \<or> 65 \<le> byte c \<and> byte c \<le> 90"

definition ascii_lower :: "char \<Rightarrow> char" where
  "ascii_lower c = (if 65 \<le> byte c \<and> byte c \<le> 90 then char_of (byte c + 32) else c)"

definition is_hex :: "char \<Rightarrow> bool" where
  "is_hex c \<longleftrightarrow> is_digit c \<or> 97 \<le> byte c \<and> byte c \<le> 102 \<or> 65 \<le> byte c \<and> byte c \<le> 70"

definition unhex :: "char \<Rightarrow> nat" where
  "unhex c = (if is_digit c then digit_val c else if 97 \<le> byte c then byte c - 97 + 10 else byte c - 65 + 10)"

text \<open>\<^verbatim>\<open>strings.Cut\<close> at a character, and at its last occurrence, which the text has to contain.\<close>

definition strings_Cut :: "char \<Rightarrow> string \<Rightarrow> string \<times> string" where
  "strings_Cut c s = (takeWhile (\<lambda>x. x \<noteq> c) s, drop 1 (dropWhile (\<lambda>x. x \<noteq> c) s))"

definition cut_last :: "char \<Rightarrow> string \<Rightarrow> string \<times> string" where
  "cut_last c s = (case strings_Cut c (rev s) of (after, before) \<Rightarrow> (rev before, rev after))"

text \<open>Where a text first contains another.\<close>

fun find_sub :: "string \<Rightarrow> string \<Rightarrow> (string \<times> string) option" where
  "find_sub p [] = (if p = [] then Some ([], []) else None)"
| "find_sub p (c # s) = (if take (length p) (c # s) = p then Some ([], c # s)
     else map_option (\<lambda>(a, b). (c # a, b)) (find_sub p s))"

subsection \<open>Escapes\<close>

datatype url_error =
    ControlCharacter
  | MissingScheme
  | ColonInFirstSegment
  | MissingBracket
  | InvalidPort string
  | EscapeError string
  | InvalidHostError char
  | InvalidUserinfo

datatype encoding = encodePath | encodeHost | encodeZone | encodeUserPassword | encodeFragment

text \<open>\<^verbatim>\<open>shouldEscape\<close>; only the two host modes ask it here.\<close>

definition shouldEscape :: "char \<Rightarrow> encoding \<Rightarrow> bool" where
  "shouldEscape c mode = (
     if is_alpha c \<or> is_digit c then False
     else if (mode = encodeHost \<or> mode = encodeZone) \<and> (c \<in> set ''!$&()*+,;=:[]<>'' \<or> c = CHR 0x27 \<or> c = CHR 0x22) then False
     else if c \<in> set ''-_.~'' then False
     else True)"

definition escape_allowed :: "encoding \<Rightarrow> char \<Rightarrow> char \<Rightarrow> bool" where
  "escape_allowed mode a b \<longleftrightarrow> is_hex a \<and> is_hex b
     \<and> (mode = encodeHost \<and> unhex a < 8 \<longrightarrow> [a, b] = ''25'')
     \<and> (mode = encodeZone \<longrightarrow> [a, b] = ''25'' \<or> 16 * unhex a + unhex b = 32
          \<or> \<not> shouldEscape (char_of (16 * unhex a + unhex b)) encodeHost)"

fun url_unescape :: "encoding \<Rightarrow> string \<Rightarrow> url_error + string" where
  "url_unescape mode [] = Inr []"
| "url_unescape mode (c # s) = (
     if c = CHR ''%'' then (case s of
         a # b # r \<Rightarrow> if escape_allowed mode a b
           then or_fail (url_unescape mode r) (\<lambda>t. Inr (char_of (16 * unhex a + unhex b) # t))
           else Inl (EscapeError [c, a, b])
       | _ \<Rightarrow> Inl (EscapeError (c # s)))
     else if (mode = encodeHost \<or> mode = encodeZone) \<and> byte c < 128 \<and> shouldEscape c mode
     then Inl (InvalidHostError c)
     else or_fail (url_unescape mode s) (\<lambda>t. Inr (c # t)))"

subsection \<open>Parse\<close>

fun getScheme_loop :: "string \<Rightarrow> string \<Rightarrow> string \<Rightarrow> url_error + string \<times> string" where
  "getScheme_loop raw seen [] = Inr ('''', raw)"
| "getScheme_loop raw seen (c # s) = (
     if is_alpha c then getScheme_loop raw (seen @ [c]) s
     else if is_digit c \<or> c \<in> set ''+-.'' then
       (if seen = [] then Inr ('''', raw) else getScheme_loop raw (seen @ [c]) s)
     else if c = CHR '':'' then
       (if seen = [] then Inl MissingScheme else Inr (seen, s))
     else Inr ('''', raw))"

definition getScheme :: "string \<Rightarrow> url_error + string \<times> string" where
  "getScheme raw = getScheme_loop raw [] raw"

definition validOptionalPort :: "string \<Rightarrow> bool" where
  "validOptionalPort port \<longleftrightarrow> (case port of [] \<Rightarrow> True | c # ds \<Rightarrow> c = CHR '':'' \<and> list_all is_digit ds)"

definition parseHost :: "string \<Rightarrow> url_error + string" where
  "parseHost host = (
     if take 1 host = ''['' then
       (if CHR '']'' \<notin> set host then Inl MissingBracket
        else (case cut_last CHR '']'' host of (inner, colonPort) \<Rightarrow>
          if \<not> validOptionalPort colonPort then Inl (InvalidPort colonPort)
          else (case find_sub ''%25'' inner of
              Some (addr, zone) \<Rightarrow>
                or_fail (url_unescape encodeHost addr) (\<lambda>h1.
                or_fail (url_unescape encodeZone zone) (\<lambda>h2.
                or_fail (url_unescape encodeHost ('']'' @ colonPort)) (\<lambda>h3. Inr (h1 @ h2 @ h3))))
            | None \<Rightarrow> url_unescape encodeHost host)))
     else if CHR '':'' \<in> set host then
       (case cut_last CHR '':'' host of (_, port) \<Rightarrow>
          if \<not> validOptionalPort ('':'' @ port) then Inl (InvalidPort ('':'' @ port)) else url_unescape encodeHost host)
     else url_unescape encodeHost host)"

definition validUserinfo :: "string \<Rightarrow> bool" where
  "validUserinfo s \<longleftrightarrow> list_all (\<lambda>c. is_alpha c \<or> is_digit c \<or> c \<in> set ''-._:~!$&()*+,;=%@'' \<or> c = CHR 0x27) s"

text \<open>The host of an authority; the user information is only checked.\<close>

definition parseAuthority :: "string \<Rightarrow> url_error + string" where
  "parseAuthority authority = (
     if CHR ''@'' \<notin> set authority then parseHost authority
     else (case cut_last CHR ''@'' authority of (userinfo, host) \<Rightarrow>
       or_fail (parseHost host) (\<lambda>h.
         if \<not> validUserinfo userinfo then Inl InvalidUserinfo
         else (case strings_Cut CHR '':'' userinfo of (username, password) \<Rightarrow>
           or_fail (url_unescape encodeUserPassword username) (\<lambda>_.
           or_fail (url_unescape encodeUserPassword password) (\<lambda>_. Inr h))))))"

record URL =
  u_Scheme :: string
  u_Host :: string

definition is_control :: "char \<Rightarrow> bool" where
  "is_control c \<longleftrightarrow> byte c < 32 \<or> byte c = 127"

definition setPath :: "string \<Rightarrow> URL \<Rightarrow> url_error + URL" where
  "setPath p u = or_fail (url_unescape encodePath p) (\<lambda>_. Inr u)"

definition url_parse :: "string \<Rightarrow> url_error + URL" where
  "url_parse raw = (
     if list_ex is_control raw then Inl ControlCharacter
     else if raw = ''*'' then Inr \<lparr>u_Scheme = '''', u_Host = ''''\<rparr>
     else or_fail (getScheme raw) (\<lambda>(sch, rest).
       let scheme = map ascii_lower sch;
           rest = fst (strings_Cut CHR ''?'' rest)
       in if take 1 rest \<noteq> ''/'' \<and> scheme \<noteq> '''' then Inr \<lparr>u_Scheme = scheme, u_Host = ''''\<rparr>
          else if take 1 rest \<noteq> ''/'' \<and> CHR '':'' \<in> set (fst (strings_Cut CHR ''/'' rest)) then Inl ColonInFirstSegment
          else if (scheme \<noteq> '''' \<or> take 3 rest \<noteq> ''///'') \<and> take 2 rest = ''//'' then
            (let authority = takeWhile (\<lambda>c. c \<noteq> CHR ''/'') (drop 2 rest);
                 path = dropWhile (\<lambda>c. c \<noteq> CHR ''/'') (drop 2 rest)
             in or_fail (parseAuthority authority) (\<lambda>host. setPath path \<lparr>u_Scheme = scheme, u_Host = host\<rparr>))
          else setPath rest \<lparr>u_Scheme = scheme, u_Host = ''''\<rparr>))"

definition url_Parse :: "string \<Rightarrow> url_error + URL" where
  "url_Parse raw = (case strings_Cut CHR ''#'' raw of (u, frag) \<Rightarrow>
     or_fail (url_parse u) (\<lambda>url.
       if frag = '''' then Inr url else or_fail (url_unescape encodeFragment frag) (\<lambda>_. Inr url)))"

subsection \<open>SplitHostPort\<close>

definition SplitHostPort :: "string \<Rightarrow> string + string \<times> string" where
  "SplitHostPort hostport = (
     let fail = (\<lambda>why. Inl (''address '' @ hostport @ '': '' @ why));
         missingPort = ''missing port in address'';
         tooManyColons = ''too many colons in address''
     in if CHR '':'' \<notin> set hostport then fail missingPort
        else (case cut_last CHR '':'' hostport of (before, port) \<Rightarrow>
          if take 1 hostport = ''['' then
            (if CHR '']'' \<notin> set hostport then fail ''missing ']' in address''
             else (case strings_Cut CHR '']'' hostport of (inner, after) \<Rightarrow>
               if after = [] then fail missingPort
               else if inner @ '']'' \<noteq> before
               then (if take 1 after = '':'' then fail tooManyColons else fail missingPort)
               else if CHR ''['' \<in> set (drop 1 hostport) then fail ''unexpected '[' in address''
               else if CHR '']'' \<in> set after then fail ''unexpected ']' in address''
               else Inr (drop 1 inner, port)))
          else if CHR '':'' \<in> set before then fail tooManyColons
          else if CHR ''['' \<in> set hostport then fail ''unexpected '[' in address''
          else if CHR '']'' \<in> set hostport then fail ''unexpected ']' in address''
          else Inr (before, port)))"

section \<open>What the parser accepts\<close>

subsection \<open>Cutting\<close>

lemma strings_Cut_absent: "c \<notin> set s \<Longrightarrow> strings_Cut c s = (s, [])"
  by (induction s) (auto simp: strings_Cut_def)

lemma cut_last_append: "c \<notin> set t \<Longrightarrow> cut_last c (s @ c # t) = (s, t)"
proof -
  assume "c \<notin> set t"
  then have "takeWhile (\<lambda>x. x \<noteq> c) (rev t @ c # rev s) = rev t" "dropWhile (\<lambda>x. x \<noteq> c) (rev t @ c # rev s) = c # rev s"
    by (subst takeWhile_append2 dropWhile_append2; auto)+
  then show ?thesis by (simp add: cut_last_def strings_Cut_def)
qed

lemma fst_Cut_prefix: "s = fst (strings_Cut c s) @ dropWhile (\<lambda>x. x \<noteq> c) s"
  by (simp add: strings_Cut_def)

lemma Cut_not_in: "c \<notin> set (fst (strings_Cut c s))"
  by (auto simp: strings_Cut_def dest: set_takeWhileD)

subsection \<open>Parts of a URL\<close>

lemma unescape_plain:
  "list_all (\<lambda>c. c \<noteq> CHR ''%'' \<and> \<not> ((mode = encodeHost \<or> mode = encodeZone) \<and> byte c < 128 \<and> shouldEscape c mode)) s
    \<Longrightarrow> url_unescape mode s = Inr s"
  by (induction s) auto

lemma unescape_Nil_iff: "url_unescape mode s = Inr [] \<longleftrightarrow> s = []"
  by (cases s) (auto simp: or_fail_Inr split: if_splits list.splits)

lemma getScheme_loop_alpha:
  "list_all is_alpha sch \<Longrightarrow> seen @ sch \<noteq> [] \<Longrightarrow> getScheme_loop raw seen (sch @ CHR '':'' # rest) = Inr (seen @ sch, rest)"
proof (induction sch arbitrary: seen)
  case Nil
  have "\<not> is_alpha CHR '':''" "\<not> is_digit CHR '':''" by (simp_all add: is_alpha_def is_digit_def byte_def)
  with Nil show ?case by simp
qed auto

lemma getScheme_loop_shape:
  "getScheme_loop raw seen s = Inr (sch, rest) \<Longrightarrow> sch \<noteq> [] \<Longrightarrow> seen @ s = sch @ CHR '':'' # rest"
proof (induction s arbitrary: seen)
  case (Cons c s)
  from Cons.IH [of "seen @ [c]"] Cons.prems show ?case by (auto split: if_splits)
qed simp

text \<open>Characters of host names and ports, and of paths without escapes.\<close>

definition host_char :: "char \<Rightarrow> bool" where
  "host_char c \<longleftrightarrow> is_alpha c \<or> is_digit c \<or> c \<in> set ''-_.~''"

definition path_char :: "char \<Rightarrow> bool" where
  "path_char c \<longleftrightarrow> \<not> is_control c \<and> c \<notin> set ''%?#''"

definition port_text :: "nat option \<Rightarrow> string" where
  "port_text port = (case port of None \<Rightarrow> '''' | Some n \<Rightarrow> '':'' @ nat_text n)"

lemma host_char_not: "host_char c \<Longrightarrow> c \<notin> set ''/?#%[]:@'' \<and> \<not> is_control c"
  by (auto simp: host_char_def is_alpha_def is_digit_def byte_def is_control_def)

lemma digit_host_char: "is_digit c \<Longrightarrow> host_char c"
  by (simp add: host_char_def)

lemma authority_chars:
  assumes "list_all host_char host" and "c \<in> set (host @ port_text port)"
  shows "host_char c \<or> c = CHR '':''"
  using assms nat_text_digits digit_host_char by (auto simp: port_text_def list_all_iff split: option.splits)

lemma parseHost_plain:
  assumes "list_all host_char host"
  shows "parseHost (host @ port_text port) = Inr (host @ port_text port)"
proof -
  let ?h = "host @ port_text port"
  have c: "c \<in> set ?h \<Longrightarrow> host_char c \<or> c = CHR '':''" for c using authority_chars [OF assms] .
  have esc: "\<not> shouldEscape c encodeHost" if "host_char c \<or> c = CHR '':''" for c
    using that by (auto simp: host_char_def shouldEscape_def)
  have un: "url_unescape encodeHost ?h = Inr ?h"
    using c esc host_char_not by (intro unescape_plain) (fastforce simp: list_all_iff)
  have "take 1 ?h \<noteq> ''[''"
  proof (cases ?h)
    case (Cons d t)
    then have "host_char d \<or> d = CHR '':''" by (intro c) simp
    then show ?thesis using Cons host_char_not [of d] by auto
  qed simp
  then have start: "take 1 ?h = ''['' \<longleftrightarrow> False" by simp
  have host: "CHR '':'' \<notin> set host" using assms host_char_not by (auto simp: list_all_iff)
  show ?thesis
  proof (cases port)
    case None
    then show ?thesis unfolding parseHost_def start using un host by (simp add: port_text_def)
  next
    case (Some n)
    then have h: "?h = host @ CHR '':'' # nat_text n" by (simp add: port_text_def)
    have "CHR '':'' \<notin> set (nat_text n)" using nat_text_digits [of "CHR '':''" n] by (auto simp: is_digit_def)
    from cut_last_append [OF this, of host] have "cut_last CHR '':'' ?h = (host, nat_text n)" unfolding h .
    moreover have "validOptionalPort ('':'' @ nat_text n)"
      using nat_text_digits by (auto simp: validOptionalPort_def list_all_iff)
    moreover have "CHR '':'' \<in> set ?h" unfolding h by simp
    ultimately show ?thesis unfolding parseHost_def start by (simp only: if_True if_False prod.case un simp_thms)
  qed
qed

text \<open>An ordinary URL is parsed into its scheme and its host with the port.\<close>

lemma url_Parse_plain:
  assumes "list_all is_alpha sch" and "sch \<noteq> []" and "list_all host_char host"
    and "path = [] \<or> hd path = CHR ''/''" and "list_all path_char path"
  shows "url_Parse (sch @ ''://'' @ host @ port_text port @ path)
    = Inr \<lparr>u_Scheme = map ascii_lower sch, u_Host = host @ port_text port\<rparr>"
proof -
  let ?auth = "host @ port_text port" and ?rest = "''//'' @ host @ port_text port @ path"
  let ?raw = "sch @ CHR '':'' # ?rest"
  have sep: "\<not> is_control CHR '':''" "\<not> is_control CHR ''/''" by (simp_all add: is_control_def byte_def)
  have auth: "c \<notin> set ''/?#@'' \<and> \<not> is_control c" if "c \<in> set ?auth" for c
    using authority_chars [OF assms(3) that]
  proof
    assume "host_char c"
    from host_char_not [OF this] show ?thesis by simp
  next
    assume "c = CHR '':''"
    with sep(1) show ?thesis by simp
  qed
  have pth: "c \<in> set path \<Longrightarrow> c \<notin> set ''?#%'' \<and> \<not> is_control c" for c
    using assms(5) by (auto simp: list_all_iff path_char_def)
  have sc: "c \<in> set sch \<Longrightarrow> c \<notin> set ''?#%'' \<and> \<not> is_control c" for c
    using assms(1) by (auto simp: list_all_iff is_alpha_def is_control_def byte_def)
  have raw1: "CHR ''#'' \<notin> set ?raw" "CHR ''?'' \<notin> set ?rest"
    using auth [of "CHR ''#''"] auth [of "CHR ''?''"] pth [of "CHR ''#''"] pth [of "CHR ''?''"] sc [of "CHR ''#''"]
    by auto
  have "\<not> is_control c" if "c \<in> set ?raw" for c using that auth [of c] pth [of c] sc [of c] sep by auto
  then have raw2: "\<not> list_ex is_control ?raw" by (auto simp only: list_ex_iff)
  have raw3: "?raw \<noteq> ''*''" by (cases sch) auto
  note raw = raw1(1) raw2 raw3 raw1(2)
  have gs: "getScheme ?raw = Inr (sch, ?rest)"
    using getScheme_loop_alpha [of sch "[]" ?raw ?rest] assms(1,2) by (simp add: getScheme_def)
  have split: "takeWhile (\<lambda>c. c \<noteq> CHR ''/'') (?auth @ path) = ?auth" "dropWhile (\<lambda>c. c \<noteq> CHR ''/'') (?auth @ path) = path"
    using auth assms(4) by (cases path; auto simp: takeWhile_append2 dropWhile_append2 takeWhile_eq_all_conv)+
  have pa: "parseAuthority ?auth = Inr ?auth" using auth parseHost_plain [OF assms(3)] by (auto simp: parseAuthority_def)
  have sp: "setPath path u = Inr u" for u
    using unescape_plain [of encodePath path] pth by (auto simp: setPath_def list_all_iff)
  have "url_parse ?raw = Inr \<lparr>u_Scheme = map ascii_lower sch, u_Host = ?auth\<rparr>"
    unfolding url_parse_def gs or_fail_simps prod.case strings_Cut_absent [OF raw(4)] fst_conv Let_def
    using raw(2,3) assms(2) split pa sp by simp
  then show ?thesis using strings_Cut_absent [OF raw(1)] by (simp add: url_Parse_def)
qed

text \<open>A URL with a host has a scheme, two slashes and an authority.\<close>

lemma url_parse_shape:
  assumes "url_parse raw = Inr u" and "u_Scheme u \<noteq> []" and "u_Host u \<noteq> []"
  shows "\<exists>sch c rest. raw = sch @ ''://'' @ c # rest \<and> map ascii_lower sch = u_Scheme u \<and> c \<notin> {CHR ''/'', CHR ''?''}"
proof -
  obtain sch rest where gs: "getScheme raw = Inr (sch, rest)"
    using assms by (auto simp: url_parse_def or_fail_Inr split: if_splits)
  define r where "r = fst (strings_Cut CHR ''?'' rest)"
  define a where "a = takeWhile (\<lambda>c. c \<noteq> CHR ''/'') (drop 2 r)"
  have pa: "take 2 r = ''//''" "parseAuthority a = Inr (u_Host u)" "map ascii_lower sch = u_Scheme u"
    using assms gs unfolding url_parse_def
    by (auto simp: r_def [symmetric] a_def [symmetric] or_fail_Inr setPath_def Let_def split: if_splits)
  have "parseAuthority [] = Inr []" by (simp add: parseAuthority_def parseHost_def)
  with pa(2) assms(3) have "a \<noteq> []" by auto
  then obtain c where c: "hd (drop 2 r) = c" "drop 2 r \<noteq> []" "c \<noteq> CHR ''/''"
    by (cases "drop 2 r") (auto simp: a_def split: if_splits)
  then have r: "r = ''//'' @ c # tl (drop 2 r)" using pa(1) append_take_drop_id [of 2 r] by (metis list.collapse)
  moreover have "c \<noteq> CHR ''?''" using Cut_not_in [of "CHR ''?''" rest] r unfolding r_def by (metis in_set_conv_decomp)
  moreover obtain t where "rest = r @ t" using fst_Cut_prefix [of rest "CHR ''?''"] unfolding r_def by blast
  moreover have "raw = sch @ CHR '':'' # rest"
    using getScheme_loop_shape [of raw "[]" raw sch rest] gs assms(2) pa(3) by (cases "sch = []") (simp_all add: getScheme_def)
  ultimately show ?thesis using c(3) pa(3) by (intro exI [of _ sch] exI [of _ c] exI [of _ "tl (drop 2 r) @ t"]) simp
qed

lemma url_Parse_shape:
  assumes "url_Parse raw = Inr u" and "u_Scheme u \<noteq> []" and "u_Host u \<noteq> []"
  shows "\<exists>sch c rest. raw = sch @ ''://'' @ c # rest \<and> map ascii_lower sch = u_Scheme u \<and> c \<notin> {CHR ''/'', CHR ''?'', CHR ''#''}"
proof -
  define p where "p = fst (strings_Cut CHR ''#'' raw)"
  have "url_parse p = Inr u" using assms(1) by (auto simp: url_Parse_def p_def or_fail_Inr split: prod.splits if_splits)
  from url_parse_shape [OF this assms(2,3)] obtain sch c rest where
    sh: "p = sch @ ''://'' @ c # rest" "map ascii_lower sch = u_Scheme u" "c \<notin> {CHR ''/'', CHR ''?''}" by blast
  moreover have "c \<noteq> CHR ''#''" using Cut_not_in [of "CHR ''#''" raw] sh(1) by (auto simp: p_def [symmetric])
  moreover obtain t where "raw = p @ t" using fst_Cut_prefix [of raw "CHR ''#''"] unfolding p_def by blast
  ultimately show ?thesis by (intro exI [of _ sch] exI [of _ c] exI [of _ "rest @ t"]) simp
qed

end
