(* ===== verification/Config.thy ===== *)
theory Config
  imports Float64 GoError GoURL
begin

text \<open>
  \<^verbatim>\<open>internal/config/config.go\<close>: the configuration records with their fields, profile inheritance,
  defaults, validation and the loader, in the order of the file. A JSON object with string keys
  is a map; a \<^verbatim>\<open>range\<close> loop over it takes the visiting order as an argument, because Go leaves
  that order open. Validation errors are values of \<open>ConfigError\<close>, one constructor for each message
  of the source. \<^verbatim>\<open>url.Parse\<close> is \<open>GoURL\<close>; decoding the file is \<open>ConfigJson\<close>.
\<close>

subsection \<open>Schema\<close>

definition ChannelConsole :: string where "ChannelConsole = ''console''"
definition ChannelWebhook :: string where "ChannelWebhook = ''webhook''"
definition ChannelEmail :: string where "ChannelEmail = ''email''"
definition ChannelSMSGate :: string where "ChannelSMSGate = ''smsgate''"

definition cfgTriggerConsecutive :: string where "cfgTriggerConsecutive = ''consecutive''"
definition cfgTriggerAvailability :: string where "cfgTriggerAvailability = ''availability''"

definition defaultWindowSize :: goint where "defaultWindowSize = 20"
definition defaultSummaryIntervalS :: goint where "defaultSummaryIntervalS = 900"

lemmas cfg_consts = ChannelConsole_def ChannelWebhook_def ChannelEmail_def ChannelSMSGate_def
  cfgTriggerConsecutive_def cfgTriggerAvailability_def defaultWindowSize_def defaultSummaryIntervalS_def

record Retry =
  rt_MaxAttempts :: goint
  rt_BaseDelayMS :: goint

record Channel =
  ch_Type :: string
  ch_URL :: string
  ch_SMTPHost :: string
  ch_Port :: goint
  ch_From :: string
  ch_To :: "string list"
  ch_BaseURL :: string
  ch_Recipients :: "string list"
  ch_Username :: string
  ch_PasswordEnv :: string
  ch_TimeoutMS :: goint

record PongServer =
  ps_Enabled :: bool
  ps_Listen :: string
  ps_ReadTimeoutMS :: goint

record MonitorParams =
  mp_IntervalS :: goint
  mp_TimeoutMS :: goint
  mp_FailureThreshold :: goint
  mp_Trigger :: string
  mp_WindowSize :: goint
  mp_MinAvailability :: float64
  mp_Notify :: "string list"
  mp_InsecureSkipVerify :: bool

text \<open>The parameters of a target that sets none.\<close>

definition zeroParams :: MonitorParams where
  "zeroParams = \<lparr>mp_IntervalS = 0, mp_TimeoutMS = 0, mp_FailureThreshold = 0, mp_Trigger = '''',
     mp_WindowSize = 0, mp_MinAvailability = Fin 0, mp_Notify = [], mp_InsecureSkipVerify = False\<rparr>"

record Profile =
  pf_MonitorParams :: MonitorParams

record PingTarget =
  pt_Target :: string
  pt_Profile :: string
  pt_MonitorParams :: MonitorParams

record PingMonitor =
  pm_Enabled :: bool
  pm_DefaultProfile :: string
  pm_Targets :: "PingTarget list"

record URLTarget =
  ut_URL :: string
  ut_Profile :: string
  ut_MonitorParams :: MonitorParams

record URLMonitor =
  um_Enabled :: bool
  um_DefaultProfile :: string
  um_Targets :: "URLTarget list"

record InternetCheck =
  ic_Enabled :: bool
  ic_Sites :: "string list"
  ic_IntervalS :: goint
  ic_TimeoutMS :: goint
  ic_FailureThreshold :: goint
  ic_Trigger :: string
  ic_WindowSize :: goint
  ic_MinAvailability :: float64
  ic_Notify :: "string list"
  ic_InsecureSkipVerify :: bool

record SpeedCheck =
  sc_Enabled :: bool
  sc_IntervalS :: goint
  sc_ThresholdMbps :: float64
  sc_Binary :: string
  sc_FailureThreshold :: goint
  sc_Trigger :: string
  sc_WindowSize :: goint
  sc_MinAvailability :: float64
  sc_Notify :: "string list"

record Roles =
  ro_PongServer :: PongServer
  ro_PingMonitor :: PingMonitor
  ro_URLMonitor :: URLMonitor
  ro_InternetCheck :: InternetCheck
  ro_SpeedCheck :: SpeedCheck

record Config =
  c_Retry :: Retry
  c_SummaryIntervalS :: goint
  c_Profiles :: "string \<rightharpoonup> Profile"
  c_Channels :: "string \<rightharpoonup> Channel"
  c_Roles :: Roles

subsection \<open>Errors\<close>

text \<open>The \<open>who\<close> of a message: a role, or a target of a role by index and address.\<close>

datatype Where = Role string | Target string nat string

datatype URLFault = InvalidURL url_error | BadScheme string | NoHost

datatype Fault =
    Required string            \<comment> \<open>field is required\<close>
  | NonEmpty string            \<comment> \<open>field must be non-empty\<close>
  | Positive string            \<comment> \<open>field must be > 0\<close>
  | AtLeastOne string          \<comment> \<open>field must be >= 1\<close>
  | NonNegative string         \<comment> \<open>field must be >= 0\<close>
  | InRange string             \<comment> \<open>field must be in (0, 100]\<close>
  | UnknownValue string string \<comment> \<open>unknown type or trigger\<close>
  | UndefinedChannel string
  | BadURL URLFault

datatype ConfigError =
    ReadConfig string
  | ParseConfig string
  | TopLevel Fault
  | ChannelFault string string Fault \<comment> \<open>channel name, its type in the message, fault\<close>
  | RoleFault Where Fault
  | UndefinedDefaultProfile string string
  | UndefinedProfile Where string

subsection \<open>Profile inheritance\<close>

definition inheritFrom :: "MonitorParams \<Rightarrow> MonitorParams \<Rightarrow> MonitorParams" where
  "inheritFrom p src = (
     let p = (if mp_IntervalS p = 0 then p\<lparr>mp_IntervalS := mp_IntervalS src\<rparr> else p);
         p = (if mp_TimeoutMS p = 0 then p\<lparr>mp_TimeoutMS := mp_TimeoutMS src\<rparr> else p);
         p = (if mp_FailureThreshold p = 0 then p\<lparr>mp_FailureThreshold := mp_FailureThreshold src\<rparr> else p);
         p = (if mp_Trigger p = '''' then p\<lparr>mp_Trigger := mp_Trigger src\<rparr> else p);
         p = (if mp_WindowSize p = 0 then p\<lparr>mp_WindowSize := mp_WindowSize src\<rparr> else p);
         p = (if fl_eq (mp_MinAvailability p) (Fin 0)
              then p\<lparr>mp_MinAvailability := mp_MinAvailability src\<rparr> else p);
         p = (if go_len (mp_Notify p) = 0 then p\<lparr>mp_Notify := mp_Notify src\<rparr> else p)
     in p\<lparr>mp_InsecureSkipVerify := mp_InsecureSkipVerify p \<or> mp_InsecureSkipVerify src\<rparr>)"

text \<open>
  \<open>profileRef\<close> holds a pointer to the target's parameters; here it holds the parameters, and the
  resolved list is written back to the targets by the caller.
\<close>

record profileRef =
  pr_who :: Where
  pr_profile :: string
  pr_params :: MonitorParams

definition resolveProfileRef :: "(string \<rightharpoonup> Profile) \<Rightarrow> string \<Rightarrow> profileRef \<Rightarrow> ConfigError + MonitorParams" where
  "resolveProfileRef profiles defaultProfile r = (
     let name = (if pr_profile r = '''' then defaultProfile else pr_profile r)
     in if name = '''' then Inr (pr_params r)
        else case profiles name of
            None \<Rightarrow> Inl (UndefinedProfile (pr_who r) name)
          | Some p \<Rightarrow> Inr (inheritFrom (pr_params r) (pf_MonitorParams p)))"

definition resolveProfileRefs ::
  "(string \<rightharpoonup> Profile) \<Rightarrow> string \<Rightarrow> string \<Rightarrow> profileRef list \<Rightarrow> ConfigError + MonitorParams list" where
  "resolveProfileRefs profiles role defaultProfile refs = (
     if defaultProfile \<noteq> '''' \<and> profiles defaultProfile = None
     then Inl (UndefinedDefaultProfile role defaultProfile)
     else map_err (resolveProfileRef profiles defaultProfile) refs)"

definition ping_refs :: "PingTarget list \<Rightarrow> profileRef list" where
  "ping_refs ts = map (\<lambda>(i, t). \<lparr>pr_who = Target ''ping_monitor'' i (pt_Target t),
     pr_profile = pt_Profile t, pr_params = pt_MonitorParams t\<rparr>) (enumerate 0 ts)"

definition url_refs :: "URLTarget list \<Rightarrow> profileRef list" where
  "url_refs ts = map (\<lambda>(i, t). \<lparr>pr_who = Target ''url_monitor'' i (ut_URL t),
     pr_profile = ut_Profile t, pr_params = ut_MonitorParams t\<rparr>) (enumerate 0 ts)"

definition resolvePing :: "(string \<rightharpoonup> Profile) \<Rightarrow> PingMonitor \<Rightarrow> ConfigError + PingMonitor" where
  "resolvePing profiles pm = (
     if pm_Enabled pm
     then or_fail (resolveProfileRefs profiles ''ping_monitor'' (pm_DefaultProfile pm) (ping_refs (pm_Targets pm)))
       (\<lambda>ps. Inr (pm\<lparr>pm_Targets := map2 (\<lambda>t p. t\<lparr>pt_MonitorParams := p\<rparr>) (pm_Targets pm) ps\<rparr>))
     else Inr pm)"

definition resolveURL :: "(string \<rightharpoonup> Profile) \<Rightarrow> URLMonitor \<Rightarrow> ConfigError + URLMonitor" where
  "resolveURL profiles um = (
     if um_Enabled um
     then or_fail (resolveProfileRefs profiles ''url_monitor'' (um_DefaultProfile um) (url_refs (um_Targets um)))
       (\<lambda>ps. Inr (um\<lparr>um_Targets := map2 (\<lambda>t p. t\<lparr>ut_MonitorParams := p\<rparr>) (um_Targets um) ps\<rparr>))
     else Inr um)"

definition resolveProfiles :: "Config \<Rightarrow> ConfigError + Config" where
  "resolveProfiles c =
     or_fail (resolvePing (c_Profiles c) (ro_PingMonitor (c_Roles c))) (\<lambda>pm.
     or_fail (resolveURL (c_Profiles c) (ro_URLMonitor (c_Roles c))) (\<lambda>um.
     Inr (c\<lparr>c_Roles := (c_Roles c)\<lparr>ro_PingMonitor := pm, ro_URLMonitor := um\<rparr>\<rparr>)))"

subsection \<open>Defaults\<close>

definition applyTriggerDefaults :: "string \<Rightarrow> goint \<Rightarrow> string \<times> goint" where
  "applyTriggerDefaults trigger windowSize =
     (if trigger = '''' then cfgTriggerConsecutive else trigger,
      if windowSize = 0 then defaultWindowSize else windowSize)"

definition applyParamDefaults :: "MonitorParams \<Rightarrow> MonitorParams" where
  "applyParamDefaults p = (
     let p = (if mp_FailureThreshold p = 0 then p\<lparr>mp_FailureThreshold := 1\<rparr> else p);
         (tr, ws) = applyTriggerDefaults (mp_Trigger p) (mp_WindowSize p)
     in p\<lparr>mp_Trigger := tr, mp_WindowSize := ws\<rparr>)"

definition channelDefault :: "string \<Rightarrow> (string \<rightharpoonup> Channel) \<Rightarrow> (string \<rightharpoonup> Channel)" where
  "channelDefault name chs = (case chs name of None \<Rightarrow> chs
    | Some ch \<Rightarrow>
        if (ch_Type ch = ChannelWebhook \<or> ch_Type ch = ChannelSMSGate) \<and> ch_TimeoutMS ch = 0
        then chs(name \<mapsto> ch\<lparr>ch_TimeoutMS := 5000\<rparr>) else chs)"

definition internetDefaults :: "InternetCheck \<Rightarrow> InternetCheck" where
  "internetDefaults r = (
     let r = (if ic_FailureThreshold r = 0 then r\<lparr>ic_FailureThreshold := 1\<rparr> else r);
         (tr, ws) = applyTriggerDefaults (ic_Trigger r) (ic_WindowSize r)
     in r\<lparr>ic_Trigger := tr, ic_WindowSize := ws\<rparr>)"

definition speedDefaults :: "SpeedCheck \<Rightarrow> SpeedCheck" where
  "speedDefaults r = (
     let r = (if sc_Binary r = '''' then r\<lparr>sc_Binary := ''speedtest''\<rparr> else r);
         r = (if sc_FailureThreshold r = 0 then r\<lparr>sc_FailureThreshold := 1\<rparr> else r);
         (tr, ws) = applyTriggerDefaults (sc_Trigger r) (sc_WindowSize r)
     in r\<lparr>sc_Trigger := tr, sc_WindowSize := ws\<rparr>)"

text \<open>\<open>ord\<close> is the order in which the range loop visits the channel names.\<close>

definition applyDefaults :: "string list \<Rightarrow> Config \<Rightarrow> Config" where
  "applyDefaults ord c = (
     let rt = c_Retry c;
         rt = (if rt_MaxAttempts rt = 0 then rt\<lparr>rt_MaxAttempts := 3\<rparr> else rt);
         rt = (if rt_BaseDelayMS rt = 0 then rt\<lparr>rt_BaseDelayMS := 500\<rparr> else rt);
         ro = c_Roles c;
         pm = ro_PingMonitor ro;
         um = ro_URLMonitor ro
     in c\<lparr>c_Retry := rt,
          c_SummaryIntervalS := (if c_SummaryIntervalS c = 0 then defaultSummaryIntervalS else c_SummaryIntervalS c),
          c_Channels := fold channelDefault ord (c_Channels c),
          c_Roles := ro\<lparr>
            ro_PingMonitor := pm\<lparr>pm_Targets :=
              map (\<lambda>t. t\<lparr>pt_MonitorParams := applyParamDefaults (pt_MonitorParams t)\<rparr>) (pm_Targets pm)\<rparr>,
            ro_URLMonitor := um\<lparr>um_Targets :=
              map (\<lambda>t. t\<lparr>ut_MonitorParams := applyParamDefaults (ut_MonitorParams t)\<rparr>) (um_Targets um)\<rparr>,
            ro_InternetCheck := internetDefaults (ro_InternetCheck ro),
            ro_SpeedCheck := speedDefaults (ro_SpeedCheck ro)\<rparr>\<rparr>)"

subsection \<open>Validation\<close>

definition validateHTTPURL :: "string \<Rightarrow> URLFault option" where
  "validateHTTPURL raw = (case url_Parse raw of
      Inl err \<Rightarrow> Some (InvalidURL err)
    | Inr u \<Rightarrow>
        if u_Scheme u \<noteq> ''http'' \<and> u_Scheme u \<noteq> ''https'' then Some (BadScheme (u_Scheme u))
        else if u_Host u = '''' then Some NoHost
        else None)"

definition validateTrigger :: "Where \<Rightarrow> string \<Rightarrow> goint \<Rightarrow> float64 \<Rightarrow> ConfigError option" where
  "validateTrigger role trigger windowSize minAvailability = (
     if trigger = '''' \<or> trigger = cfgTriggerConsecutive then
       (if windowSize < 0 then Some (RoleFault role (NonNegative ''window_size'')) else None)
     else if trigger = cfgTriggerAvailability then
       (if windowSize \<le> 0 then Some (RoleFault role (Positive ''window_size''))
        else if fl_le minAvailability (Fin 0) \<or> fl_less (Fin 100) minAvailability
        then Some (RoleFault role (InRange ''min_availability''))
        else None)
     else Some (RoleFault role (UnknownValue ''trigger'' trigger)))"

definition checkNotify :: "(string \<rightharpoonup> Channel) \<Rightarrow> Where \<Rightarrow> string list \<Rightarrow> ConfigError option" where
  "checkNotify channels role notify =
     first_error (\<lambda>name. if channels name = None then Some (RoleFault role (UndefinedChannel name)) else None) notify"

definition validateChannel :: "string \<Rightarrow> Channel \<Rightarrow> ConfigError option" where
  "validateChannel name ch = (
     if ch_Type ch = ChannelConsole then None
     else if ch_Type ch = ChannelWebhook then
       (if ch_URL ch = '''' then Some (ChannelFault name ChannelWebhook (Required ''url''))
        else if ch_TimeoutMS ch \<le> 0 then Some (ChannelFault name ChannelWebhook (Positive ''timeout_ms''))
        else None)
     else if ch_Type ch = ChannelEmail then
       (if ch_SMTPHost ch = '''' then Some (ChannelFault name ChannelEmail (Required ''smtp_host''))
        else if ch_Port ch \<le> 0 then Some (ChannelFault name ChannelEmail (Positive ''port''))
        else if ch_From ch = '''' then Some (ChannelFault name ChannelEmail (Required ''from''))
        else if go_len (ch_To ch) = 0 then Some (ChannelFault name ChannelEmail (NonEmpty ''to''))
        else if ch_PasswordEnv ch = '''' then Some (ChannelFault name ChannelEmail (Required ''password_env''))
        else None)
     else if ch_Type ch = ChannelSMSGate then
       (if ch_BaseURL ch = '''' then Some (ChannelFault name ChannelSMSGate (Required ''base_url''))
        else if ch_Username ch = '''' then Some (ChannelFault name ChannelSMSGate (Required ''username''))
        else if ch_PasswordEnv ch = '''' then Some (ChannelFault name ChannelSMSGate (Required ''password_env''))
        else if go_len (ch_Recipients ch) = 0 then Some (ChannelFault name ChannelSMSGate (NonEmpty ''recipients''))
        else if ch_TimeoutMS ch \<le> 0 then Some (ChannelFault name ChannelSMSGate (Positive ''timeout_ms''))
        else None)
     else if ch_Type ch = '''' then Some (ChannelFault name '''' (Required ''type''))
     else Some (ChannelFault name '''' (UnknownValue ''type'' (ch_Type ch))))"

text \<open>The loop over the map: \<open>ord\<close> is the visiting order of this run.\<close>

definition validateChannels :: "string list \<Rightarrow> Config \<Rightarrow> ConfigError option" where
  "validateChannels ord c = first_error (\<lambda>name. case c_Channels c name of
      None \<Rightarrow> None | Some ch \<Rightarrow> validateChannel name ch) ord"

text \<open>The checks of one target that the two target loops have in common.\<close>

definition validateParams :: "(string \<rightharpoonup> Channel) \<Rightarrow> Where \<Rightarrow> MonitorParams \<Rightarrow> ConfigError option" where
  "validateParams channels who p = (
     if mp_IntervalS p \<le> 0 then Some (RoleFault who (Positive ''interval_s''))
     else if mp_TimeoutMS p \<le> 0 then Some (RoleFault who (Positive ''timeout_ms''))
     else if mp_FailureThreshold p < 1 then Some (RoleFault who (AtLeastOne ''failure_threshold''))
     else err_then (validateTrigger who (mp_Trigger p) (mp_WindowSize p) (mp_MinAvailability p))
       (checkNotify channels who (mp_Notify p)))"

definition validatePong :: "PongServer \<Rightarrow> ConfigError option" where
  "validatePong r = (
     if \<not> ps_Enabled r then None
     else if ps_Listen r = '''' then Some (RoleFault (Role ''pong_server'') (Required ''listen''))
     else if ps_ReadTimeoutMS r \<le> 0 then Some (RoleFault (Role ''pong_server'') (Positive ''read_timeout_ms''))
     else None)"

definition validatePing :: "(string \<rightharpoonup> Channel) \<Rightarrow> PingMonitor \<Rightarrow> ConfigError option" where
  "validatePing channels r = (
     if \<not> pm_Enabled r then None
     else if go_len (pm_Targets r) = 0 then Some (RoleFault (Role ''ping_monitor'') (NonEmpty ''targets''))
     else first_error (\<lambda>(i, tgt).
       let who = Target ''ping_monitor'' i (pt_Target tgt)
       in if pt_Target tgt = '''' then Some (RoleFault who (Required ''target''))
          else validateParams channels who (pt_MonitorParams tgt)) (enumerate 0 (pm_Targets r)))"

definition validateURL :: "(string \<rightharpoonup> Channel) \<Rightarrow> URLMonitor \<Rightarrow> ConfigError option" where
  "validateURL channels r = (
     if \<not> um_Enabled r then None
     else if go_len (um_Targets r) = 0 then Some (RoleFault (Role ''url_monitor'') (NonEmpty ''targets''))
     else first_error (\<lambda>(i, tgt).
       let who = Target ''url_monitor'' i (ut_URL tgt)
       in if ut_URL tgt = '''' then Some (RoleFault who (Required ''url''))
          else case validateHTTPURL (ut_URL tgt) of
              Some f \<Rightarrow> Some (RoleFault who (BadURL f))
            | None \<Rightarrow> validateParams channels who (ut_MonitorParams tgt)) (enumerate 0 (um_Targets r)))"

definition validateInternet :: "(string \<rightharpoonup> Channel) \<Rightarrow> InternetCheck \<Rightarrow> ConfigError option" where
  "validateInternet channels r = (
     let who = Role ''internet_check'' in
     if \<not> ic_Enabled r then None
     else if go_len (ic_Sites r) = 0 then Some (RoleFault who (NonEmpty ''sites''))
     else if ic_IntervalS r \<le> 0 then Some (RoleFault who (Positive ''interval_s''))
     else if ic_TimeoutMS r \<le> 0 then Some (RoleFault who (Positive ''timeout_ms''))
     else if ic_FailureThreshold r < 1 then Some (RoleFault who (AtLeastOne ''failure_threshold''))
     else err_then (validateTrigger who (ic_Trigger r) (ic_WindowSize r) (ic_MinAvailability r))
       (checkNotify channels who (ic_Notify r)))"

definition validateSpeed :: "(string \<rightharpoonup> Channel) \<Rightarrow> SpeedCheck \<Rightarrow> ConfigError option" where
  "validateSpeed channels r = (
     let who = Role ''speed_check'' in
     if \<not> sc_Enabled r then None
     else if fl_le (sc_ThresholdMbps r) (Fin 0) then Some (RoleFault who (Positive ''threshold_mbps''))
     else if sc_IntervalS r \<le> 0 then Some (RoleFault who (Positive ''interval_s''))
     else if sc_FailureThreshold r < 1 then Some (RoleFault who (AtLeastOne ''failure_threshold''))
     else err_then (validateTrigger who (sc_Trigger r) (sc_WindowSize r) (sc_MinAvailability r))
       (checkNotify channels who (sc_Notify r)))"

definition validateRoles :: "Config \<Rightarrow> ConfigError option" where
  "validateRoles c = (
     let ro = c_Roles c; chs = c_Channels c in
     err_then (validatePong (ro_PongServer ro))
    (err_then (validatePing chs (ro_PingMonitor ro))
    (err_then (validateURL chs (ro_URLMonitor ro))
    (err_then (validateInternet chs (ro_InternetCheck ro))
      (validateSpeed chs (ro_SpeedCheck ro))))))"

definition Validate :: "string list \<Rightarrow> Config \<Rightarrow> ConfigError option" where
  "Validate ord c = (
     if rt_MaxAttempts (c_Retry c) < 1 then Some (TopLevel (AtLeastOne ''retry.max_attempts''))
     else if rt_BaseDelayMS (c_Retry c) < 0 then Some (TopLevel (NonNegative ''retry.base_delay_ms''))
     else if c_SummaryIntervalS c \<le> 0 then Some (TopLevel (Positive ''summary_interval_s''))
     else err_then (validateChannels ord c) (validateRoles c))"

text \<open>The steps of the loader after decoding: profiles, defaults, validation.\<close>

definition Load_decoded ::
  "string list \<Rightarrow> string list \<Rightarrow> Config \<Rightarrow> ConfigError + Config" where
  "Load_decoded ord ord' c = or_fail (resolveProfiles c) (\<lambda>c.
     let c = applyDefaults ord c
     in case Validate ord' c of Some err \<Rightarrow> Inl err | None \<Rightarrow> Inr c)"

end
