(* ===== verification/JsonString.thy ===== *)
theory JsonString
  imports Utf8
begin

text \<open>
  JSON string literals as \<^verbatim>\<open>encoding/json\<close> writes them (control characters, the quote, the
  backslash and the characters special to HTML and JavaScript escaped) and as it reads them.
\<close>

definition dquote :: char where "dquote = CHR 0x22"
definition backslash :: char where "backslash = CHR 0x5C"

lemmas str_consts = dquote_def backslash_def

lemma consts_distinct [simp]: "backslash \<noteq> dquote" "dquote \<noteq> backslash"
  by (simp_all add: str_consts)

subsection \<open>Hexadecimal digits\<close>

definition hex_digit :: "nat \<Rightarrow> char" where
  "hex_digit n = (if n < 10 then char_of (48 + n) else char_of (87 + n))"

definition hex_val :: "char \<Rightarrow> nat option" where
  "hex_val c = (let b = byte c in
     if 48 \<le> b \<and> b \<le> 57 then Some (b - 48)
     else if 97 \<le> b \<and> b \<le> 102 then Some (b - 87)
     else if 65 \<le> b \<and> b \<le> 70 then Some (b - 55)
     else None)"

lemma hex_val_digit [simp]: "n < 16 \<Longrightarrow> hex_val (hex_digit n) = Some n"
  by (auto simp: hex_val_def hex_digit_def Let_def)

fun hex4 :: "string \<Rightarrow> (nat \<times> string) option" where
  "hex4 (a # b # c # d # s) = (case (hex_val a, hex_val b, hex_val c, hex_val d) of
     (Some a, Some b, Some c, Some d) \<Rightarrow> Some (((a * 16 + b) * 16 + c) * 16 + d, s)
   | _ \<Rightarrow> None)"
| "hex4 _ = None"

lemma hex4_shorter [termination_simp]: "hex4 s = Some (v, r) \<Longrightarrow> length r < length s"
  by (cases s rule: hex4.cases) (auto split: option.splits)

definition u_escape :: "nat \<Rightarrow> string" where
  "u_escape n = [backslash, CHR ''u'', hex_digit (n div 4096), hex_digit (n div 256 mod 16),
     hex_digit (n div 16 mod 16), hex_digit (n mod 16)]"

lemma hex4_digits:
  assumes "n < 65536"
  shows "hex4 (hex_digit (n div 4096) # hex_digit (n div 256 mod 16) # hex_digit (n div 16 mod 16) # hex_digit (n mod 16) # s)
    = Some (n, s)"
proof -
  have "n div 4096 = n div 256 div 16" "n div 256 = n div 16 div 16" by (simp_all add: div_mult2_eq [symmetric])
  then have "((n div 4096 * 16 + n div 256 mod 16) * 16 + n div 16 mod 16) * 16 + n mod 16 = n" by (simp only: div_mult_mod_eq)
  moreover have "n div 4096 < 16" using assms by simp
  ultimately show ?thesis by simp
qed

subsection \<open>Writing\<close>

definition escape_ascii :: "char \<Rightarrow> string" where
  "escape_ascii c = (
     if c = dquote \<or> c = backslash then [backslash, c]
     else if c = CHR 0x0A then [backslash, CHR ''n'']
     else if c = CHR 0x0D then [backslash, CHR ''r'']
     else if c = CHR 0x09 then [backslash, CHR ''t'']
     else if byte c < 0x20 \<or> c = CHR ''<'' \<or> c = CHR ''>'' \<or> c = CHR ''&'' then u_escape (byte c)
     else [c])"

definition line_separator :: string where
  "line_separator = [CHR 0xE2, CHR 0x80, CHR 0xA8]"

definition paragraph_separator :: string where
  "paragraph_separator = [CHR 0xE2, CHR 0x80, CHR 0xA9]"

definition escape_chunk :: "string \<Rightarrow> string" where
  "escape_chunk c = (
     if rune_len c = 0 then u_escape 0xFFFD
     else if length c = 1 then escape_ascii (hd c)
     else if c = line_separator then u_escape 0x2028
     else if c = paragraph_separator then u_escape 0x2029
     else c)"

definition escape :: "string \<Rightarrow> string" where
  "escape s = concat (map escape_chunk (chunks s))"

definition quote_string :: "string \<Rightarrow> string" where
  "quote_string s = [dquote] @ escape s @ [dquote]"

subsection \<open>Reading\<close>

definition is_surrogate :: "nat \<Rightarrow> bool" where
  "is_surrogate n \<longleftrightarrow> 0xD800 \<le> n \<and> n < 0xE000"

definition second_escape :: "string \<Rightarrow> (nat \<times> string) option" where
  "second_escape s = (case s of a # b # r \<Rightarrow> if a = backslash \<and> b = CHR ''u'' then hex4 r else None | _ \<Rightarrow> None)"

text \<open>
  The rune of an escape \<open>v\<close> before the rest \<open>s\<close>: a surrogate pair is one rune, a lone surrogate is
  replaced.
\<close>

definition escaped_rune :: "nat \<Rightarrow> string \<Rightarrow> string \<times> string" where
  "escaped_rune v s = (
     if \<not> is_surrogate v then (encode_rune v, s)
     else (case second_escape s of
         Some (w, r) \<Rightarrow>
           if v < 0xDC00 \<and> 0xDC00 \<le> w \<and> w < 0xE000
           then (encode_rune (0x10000 + (v - 0xD800) * 0x400 + (w - 0xDC00)), r)
           else (replacement, s)
       | None \<Rightarrow> (replacement, s)))"

definition simple_escape :: "char \<Rightarrow> char option" where
  "simple_escape c = (
     if c = dquote \<or> c = backslash \<or> c = CHR ''/'' then Some c
     else if c = CHR ''b'' then Some (CHR 0x08)
     else if c = CHR ''f'' then Some (CHR 0x0C)
     else if c = CHR ''n'' then Some (CHR 0x0A)
     else if c = CHR ''r'' then Some (CHR 0x0D)
     else if c = CHR ''t'' then Some (CHR 0x09)
     else None)"

definition emit :: "string \<Rightarrow> (string \<times> string) option \<Rightarrow> (string \<times> string) option" where
  "emit pre r = map_option (\<lambda>(t, rest). (pre @ t, rest)) r"

lemma emit_simps [simp]: "emit pre None = None" "emit pre (Some (t, rest)) = Some (pre @ t, rest)"
  by (simp_all add: emit_def)

lemma escaped_rune_shorter [termination_simp]: "escaped_rune v s = (t, r) \<Longrightarrow> length r \<le> length s"
  by (auto simp: escaped_rune_def second_escape_def split: if_splits option.splits list.splits dest!: hex4_shorter)

text \<open>What follows the opening quote: the string up to its closing quote, and the rest.\<close>

function unquote :: "string \<Rightarrow> (string \<times> string) option" where
  "unquote [] = None"
| "unquote (c # s) = (
     if c = dquote then Some ([], s)
     else if c = backslash then (case s of
         [] \<Rightarrow> None
       | e # r \<Rightarrow>
           if e = CHR ''u'' then (case hex4 r of
               None \<Rightarrow> None
             | Some (v, r') \<Rightarrow> (case escaped_rune v r' of (t, r'') \<Rightarrow> emit t (unquote r'')))
           else (case simple_escape e of None \<Rightarrow> None | Some x \<Rightarrow> emit [x] (unquote r)))
     else if byte c < 0x20 then None
     else if rune_len (c # s) = 0 then emit replacement (unquote s)
     else emit (take (rune_len (c # s)) (c # s)) (unquote (drop (rune_len (c # s)) (c # s))))"
  by pat_completeness auto
termination
  by (relation "measure length") (auto dest!: hex4_shorter dest: escaped_rune_shorter [OF sym])

declare unquote.simps [simp del]
lemmas unquote_Nil [simp] = unquote.simps(1)

lemma emit_SomeD: "emit p x = Some (t, r) \<Longrightarrow> \<exists>t'. x = Some (t', r)"
  by (auto simp: emit_def)

lemma unquote_shorter: "unquote s = Some (t, r) \<Longrightarrow> length r < length s"
proof (induction s arbitrary: t rule: unquote.induct)
  case (2 c s)
  consider "c = dquote" | "c = backslash" | "c \<noteq> dquote" "c \<noteq> backslash" by blast
  then show ?case
  proof cases
    case 1
    with "2.prems" show ?thesis by (simp add: unquote.simps)
  next
    case 2
    note esc = this
    then obtain e s' where s: "s = e # s'" using "2.prems" by (cases s) (simp_all add: unquote.simps)
    show ?thesis
    proof (cases "e = CHR ''u''")
      case True
      then obtain v r' t' r'' where "hex4 s' = Some (v, r')" "escaped_rune v r' = (t', r'')" "emit t' (unquote r'') = Some (t, r)"
        using "2.prems" esc s by (auto simp: unquote.simps(2) split: option.splits prod.splits)
      with "2.IH"(1) [OF _ esc s True] emit_SomeD [of t' "unquote r''" t r] hex4_shorter [of s' v r'] escaped_rune_shorter [of v r' t' r''] esc s
      show ?thesis by fastforce
    next
      case False
      then obtain x where "simple_escape e = Some x" "emit [x] (unquote s') = Some (t, r)"
        using "2.prems" esc s by (auto simp: unquote.simps(2) split: option.splits)
      with "2.IH"(2) [OF _ esc s False] emit_SomeD [of "[x]" "unquote s'" t r] esc s show ?thesis by fastforce
    qed
  next
    case 3
    then have c: "\<not> byte c < 32" using "2.prems" by (auto simp: unquote.simps(2))
    show ?thesis
    proof (cases "rune_len (c # s) = 0")
      case True
      with 3 c "2.prems" have "emit replacement (unquote s) = Some (t, r)" by (simp add: unquote.simps(2))
      with "2.IH"(3) [OF 3 c True] emit_SomeD show ?thesis by fastforce
    next
      case False
      let ?d = "drop (rune_len (c # s)) (c # s)"
      have "emit (take (rune_len (c # s)) (c # s)) (unquote ?d) = Some (t, r)"
        using 3 c False "2.prems" by (simp only: unquote.simps(2) if_False)
      with emit_SomeD obtain t' where "unquote ?d = Some (t', r)" by blast
      with "2.IH"(4) [OF 3 c False] have "length r < length ?d" by blast
      then show ?thesis by simp
    qed
  qed
qed simp

subsection \<open>Reading back what was written\<close>

lemma unquote_end [simp]: "unquote (dquote # s) = Some ([], s)"
  by (simp add: unquote.simps)

lemma unquote_u_escape:
  assumes "n < 65536" and "\<not> is_surrogate n"
  shows "unquote (u_escape n @ s) = emit (encode_rune n) (unquote s)"
  using hex4_digits [OF assms(1), of s] assms(2)
  by (simp add: u_escape_def unquote.simps(2) [of backslash] escaped_rune_def del: hex4.simps)

lemma unquote_simple:
  assumes "simple_escape e = Some x"
  shows "unquote (backslash # e # s) = emit [x] (unquote s)"
proof -
  have "e \<noteq> CHR ''u''" using assms by (auto simp: simple_escape_def str_consts)
  with assms show ?thesis by (simp add: unquote.simps(2) [of backslash])
qed

lemma unquote_rune:
  assumes "0 < rune_len c" and "rune_len c = length c" and "c = b # bs" and "b \<noteq> dquote" "b \<noteq> backslash" "0x20 \<le> byte b"
  shows "unquote (c @ s) = emit c (unquote s)"
proof -
  have len: "rune_len (b # bs @ s) = length c" using rune_len_take [of c s] assms by simp
  have "take (length c) (b # bs @ s) = c" "drop (length c) (b # bs @ s) = s" using assms(3) by simp_all
  with len assms show ?thesis by (simp add: unquote.simps(2) [of b])
qed

lemma unquote_escape_ascii:
  assumes "byte c < 0x80"
  shows "unquote (escape_ascii c @ s) = emit [c] (unquote s)"
proof -
  have u: "unquote (u_escape (byte c) @ s) = emit [c] (unquote s)"
    using unquote_u_escape [of "byte c" s] assms by (simp add: is_surrogate_def encode_rune_def) (simp add: byte_def)
  consider "c = dquote \<or> c = backslash" | "c = CHR 0x0A" | "c = CHR 0x0D" | "c = CHR 0x09"
    | "escape_ascii c = u_escape (byte c)" | "escape_ascii c = [c]" "c \<noteq> dquote" "c \<noteq> backslash" "0x20 \<le> byte c"
  proof -
    have "c = dquote \<or> c = backslash \<or> c = CHR 0x0A \<or> c = CHR 0x0D \<or> c = CHR 0x09
      \<or> escape_ascii c = u_escape (byte c) \<or> escape_ascii c = [c] \<and> c \<noteq> dquote \<and> c \<noteq> backslash \<and> 0x20 \<le> byte c"
      by (simp add: escape_ascii_def)
    then show thesis using that by blast
  qed
  then show ?thesis
  proof cases
    case 1
    then have "simple_escape c = Some c" by (auto simp: simple_escape_def)
    with 1 unquote_simple [of c c s] show ?thesis by (auto simp: escape_ascii_def)
  next
    case 2
    with unquote_simple [of "CHR ''n''" "CHR 0x0A" s] show ?thesis
      by (simp add: escape_ascii_def simple_escape_def str_consts)
  next
    case 3
    with unquote_simple [of "CHR ''r''" "CHR 0x0D" s] show ?thesis
      by (simp add: escape_ascii_def simple_escape_def str_consts)
  next
    case 4
    with unquote_simple [of "CHR ''t''" "CHR 0x09" s] show ?thesis
      by (simp add: escape_ascii_def simple_escape_def str_consts)
  next
    case 5
    then show ?thesis using u by simp
  next
    case 6
    with unquote_rune [of "[c]" c "[]" s] rune_len_ascii [OF assms, of "[]"] show ?thesis by simp
  qed
qed

lemma unquote_escape_chunk:
  assumes "c \<in> set (chunks t)"
  shows "unquote (escape_chunk c @ s) = emit (if rune_len c = 0 then replacement else c) (unquote s)"
proof -
  have rep: "encode_rune 0xFFFD = replacement" "encode_rune 0x2028 = line_separator" "encode_rune 0x2029 = paragraph_separator"
    by (simp_all add: encode_rune_def replacement_def line_separator_def paragraph_separator_def char_of_def bit_0)
  consider "rune_len c = 0" | "0 < rune_len c" "rune_len c = length c" using chunks_chunk [OF assms] by auto
  then show ?thesis
  proof cases
    case 1
    with unquote_u_escape [of "0xFFFD" s] rep(1) show ?thesis by (simp add: escape_chunk_def is_surrogate_def)
  next
    case 2
    then obtain b bs where c: "c = b # bs" by (cases c) auto
    show ?thesis
    proof (cases "length c = 1")
      case True
      with c have "c = [b]" by simp
      moreover from this 2 have "byte b < 0x80" using rune_len_one [of b] by (cases "byte b < 0x80") simp_all
      ultimately show ?thesis using 2 unquote_escape_ascii [of b s] by (simp add: escape_chunk_def)
    next
      case False
      with c 2 have "0x80 \<le> byte b" by (intro rune_len_not_ascii [of b bs]) simp
      then have b: "b \<noteq> dquote" "b \<noteq> backslash" "0x20 \<le> byte b" by (auto simp: str_consts byte_def)
      show ?thesis
        using False 2 unquote_rune [OF 2 c b, of s] unquote_u_escape [of "0x2028" s] unquote_u_escape [of "0x2029" s] rep
        by (simp add: escape_chunk_def is_surrogate_def)
    qed
  qed
qed

lemma unquote_chunks:
  assumes "set cs \<subseteq> set (chunks t)"
  shows "unquote (concat (map escape_chunk cs) @ dquote # s)
    = Some (concat (map (\<lambda>c. if rune_len c = 0 then replacement else c) cs), s)"
  using assms by (induction cs) (simp_all add: unquote_escape_chunk [of _ t])

lemma unquote_quote: "unquote (escape t @ dquote # s) = Some (to_valid t, s)"
  unfolding escape_def to_valid_def by (rule unquote_chunks [of _ t]) simp

subsection \<open>Escaped text has no control characters\<close>

lemma hex_digit_plain: "n < 16 \<Longrightarrow> 0x20 \<le> byte (hex_digit n)"
  by (auto simp: hex_digit_def)

lemma u_escape_plain: "n < 65536 \<Longrightarrow> x \<in> set (u_escape n) \<Longrightarrow> 0x20 \<le> byte x"
  using hex_digit_plain [of "n div 4096"] hex_digit_plain [of "n div 256 mod 16"] hex_digit_plain [of "n div 16 mod 16"]
    hex_digit_plain [of "n mod 16"]
  by (auto simp: u_escape_def) (simp_all add: backslash_def byte_def)

lemma escape_ascii_plain: "x \<in> set (escape_ascii c) \<Longrightarrow> 0x20 \<le> byte x"
proof -
  assume x: "x \<in> set (escape_ascii c)"
  have "byte c < 65536" using byte_less [of c] by linarith
  with x u_escape_plain [of "byte c" x] have "0x20 \<le> byte x \<or> x \<in> {dquote, backslash, CHR ''n'', CHR ''r'', CHR ''t''}"
    by (auto simp: escape_ascii_def split: if_splits)
  then show ?thesis by (auto simp: str_consts) (simp_all add: byte_def)
qed

lemma rune_bytes:
  assumes "rune_len c = length c" and "length c \<noteq> 1" and "x \<in> set c"
  shows "0x80 \<le> byte x"
proof -
  obtain i where i: "i < length c" "x = c ! i" using assms(3) by (auto simp: in_set_conv_nth)
  consider "rune2 c" "length c = 2" | "rune3 c" "length c = 3" | "rune4 c" "length c = 4"
    using assms(1,2) i(1) by (auto simp: rune_len_def split: if_splits)
  then show ?thesis
  proof cases
    case 1
    with i have "i = 0 \<or> i = 1" by linarith
    with 1(1) i(2) show ?thesis by (auto simp: rune2_def byte_in_def)
  next
    case 2
    with i have "i = 0 \<or> i = 1 \<or> i = 2" by linarith
    with 2(1) i(2) show ?thesis by (auto simp: rune3_def byte_in_def)
  next
    case 3
    with i have "i = 0 \<or> i = 1 \<or> i = 2 \<or> i = 3" by linarith
    with 3(1) i(2) show ?thesis by (auto simp: rune4_def byte_in_def)
  qed
qed

lemma escape_plain: "x \<in> set (escape s) \<Longrightarrow> 0x20 \<le> byte x"
proof -
  assume "x \<in> set (escape s)"
  then obtain c where c: "c \<in> set (chunks s)" "x \<in> set (escape_chunk c)" by (auto simp: escape_def)
  consider "rune_len c = 0" | "rune_len c = length c" "0 < rune_len c" using chunks_chunk [OF c(1)] by auto
  then show ?thesis
  proof cases
    case 1
    with c(2) u_escape_plain [of "0xFFFD" x] show ?thesis by (simp add: escape_chunk_def)
  next
    case 2
    with c(2) u_escape_plain [of "0x2028" x] u_escape_plain [of "0x2029" x] escape_ascii_plain [of x "hd c"] rune_bytes [of c x]
    show ?thesis by (auto simp: escape_chunk_def split: if_splits)
  qed
qed

subsection \<open>Strings that need no escaping\<close>

definition safe_char :: "char \<Rightarrow> bool" where
  "safe_char c \<longleftrightarrow> 0x20 \<le> byte c \<and> byte c < 0x80 \<and> c \<notin> {dquote, backslash, CHR ''<'', CHR ''>'', CHR ''&''}"

lemma escape_safe:
  assumes "list_all safe_char s"
  shows "escape s = s" and "valid_utf8 s"
proof -
  have chunk: "chunks s = map (\<lambda>c. [c]) s"
    using assms
  proof (induction s)
    case (Cons c s)
    then have "rune_len [c] = 1" by (intro rune_len_ascii) (simp add: safe_char_def)
    with Cons chunks_append_rune [of "[c]" s] show ?case by simp
  qed simp
  have "escape_chunk [c] = [c]" if "safe_char c" for c
  proof -
    have "rune_len [c] = 1" using that by (intro rune_len_ascii) (simp add: safe_char_def)
    moreover have "c \<noteq> CHR 0x0A" "c \<noteq> CHR 0x0D" "c \<noteq> CHR 0x09" using that by (auto simp: safe_char_def byte_def)
    ultimately show ?thesis using that by (simp add: escape_chunk_def escape_ascii_def safe_char_def)
  qed
  then have "map escape_chunk (chunks s) = chunks s" using assms chunk by (auto simp: list_all_iff)
  then show "escape s = s" by (simp add: escape_def)
  show "valid_utf8 s" using assms by (intro valid_ascii) (simp add: list_all_iff safe_char_def)
qed

end
