(* ===== verification/JsonNumber.thy ===== *)
theory JsonNumber
  imports Float64 GoStrings "HOL-Library.Monad_Syntax"
begin

text \<open>
  JSON number literals: their grammar, and their value as \<^verbatim>\<open>strconv.ParseInt\<close> and
  \<^verbatim>\<open>strconv.ParseFloat\<close> read them. A literal is kept as text until it is decoded into a field, as
  \<^verbatim>\<open>encoding/json\<close> does.
\<close>

subsection \<open>The grammar\<close>

definition digits1 :: "string \<Rightarrow> (string \<times> string) option" where
  "digits1 s = (if takeWhile is_digit s = [] then None else Some (takeWhile is_digit s, dropWhile is_digit s))"

definition scan_int :: "string \<Rightarrow> (string \<times> string) option" where
  "scan_int s = (case s of c # r \<Rightarrow> if c = CHR ''0'' then Some ([c], r) else digits1 s | [] \<Rightarrow> None)"

definition scan_frac :: "string \<Rightarrow> (string \<times> string) option" where
  "scan_frac s = (case s of
     c # r \<Rightarrow> if c = CHR ''.'' then map_option (\<lambda>(ds, r). (c # ds, r)) (digits1 r) else Some ([], s)
   | [] \<Rightarrow> Some ([], []))"

definition scan_sign :: "string \<Rightarrow> string \<times> string" where
  "scan_sign s = (case s of c # r \<Rightarrow> if c = CHR ''+'' \<or> c = CHR ''-'' then ([c], r) else ([], s) | [] \<Rightarrow> ([], []))"

definition scan_exp :: "string \<Rightarrow> (string \<times> string) option" where
  "scan_exp s = (case s of
     c # r \<Rightarrow> if c = CHR ''e'' \<or> c = CHR ''E''
       then (case scan_sign r of (sg, r') \<Rightarrow> map_option (\<lambda>(ds, r). (c # sg @ ds, r)) (digits1 r'))
       else Some ([], s)
   | [] \<Rightarrow> Some ([], []))"

definition scan_minus :: "string \<Rightarrow> string \<times> string" where
  "scan_minus s = (case s of c # r \<Rightarrow> if c = CHR ''-'' then ([c], r) else ([], s) | [] \<Rightarrow> ([], []))"

definition scan_number :: "string \<Rightarrow> (string \<times> string) option" where
  "scan_number s = (case scan_minus s of (sg, s1) \<Rightarrow> do {
     (i, s2) \<leftarrow> scan_int s1;
     (f, s3) \<leftarrow> scan_frac s2;
     (e, s4) \<leftarrow> scan_exp s3;
     Some (sg @ i @ f @ e, s4)
   })"

text \<open>A literal ends before any character that cannot continue one.\<close>

definition stops :: "string \<Rightarrow> bool" where
  "stops s \<longleftrightarrow> (case s of [] \<Rightarrow> True | c # _ \<Rightarrow> \<not> is_digit c \<and> c \<notin> {CHR ''.'', CHR ''e'', CHR ''E'', CHR ''+'', CHR ''-''})"

definition extends :: "(string \<Rightarrow> (string \<times> string) option) \<Rightarrow> bool" where
  "extends scan \<longleftrightarrow> (\<forall>s l r rest. scan s = Some (l, r) \<longrightarrow> r \<noteq> [] \<or> stops rest \<longrightarrow> scan (s @ rest) = Some (l, r @ rest))"

lemma extendsD: "extends scan \<Longrightarrow> scan s = Some (l, r) \<Longrightarrow> r \<noteq> [] \<or> stops rest \<Longrightarrow> scan (s @ rest) = Some (l, r @ rest)"
  by (simp add: extends_def)

lemma takeWhile_stops: "stops rest \<Longrightarrow> takeWhile is_digit rest = []" "stops rest \<Longrightarrow> dropWhile is_digit rest = rest"
  by (simp_all add: stops_def split: list.splits)

lemma digits1_extends: "extends digits1"
  unfolding extends_def
proof (intro allI impI)
  fix s l r rest assume s: "digits1 s = Some (l, r)" and r: "r \<noteq> [] \<or> stops rest"
  show "digits1 (s @ rest) = Some (l, r @ rest)"
  proof (cases "\<forall>c \<in> set s. is_digit c")
    case True
    with s r have "stops rest" "l = s" "r = []" by (auto simp: digits1_def split: if_splits)
    with True s show ?thesis by (auto simp: digits1_def takeWhile_append2 dropWhile_append2 takeWhile_stops split: if_splits)
  next
    case False
    then obtain x where "x \<in> set s" "\<not> is_digit x" by blast
    with s show ?thesis by (simp add: digits1_def takeWhile_append1 dropWhile_append1 split: if_splits)
  qed
qed

lemma scan_extends: "extends scan_int" "extends scan_frac" "extends scan_exp"
proof -
  note d = extendsD [OF digits1_extends]
  show "extends scan_int"
    unfolding extends_def
  proof (intro allI impI)
    fix s l r rest assume s: "scan_int s = Some (l, r)" and r: "r \<noteq> [] \<or> stops rest"
    then show "scan_int (s @ rest) = Some (l, r @ rest)"
      using d [of s l r rest] by (cases s) (auto simp: scan_int_def split: if_splits)
  qed
  show "extends scan_frac"
    unfolding extends_def
  proof (intro allI impI)
    fix s l r rest assume s: "scan_frac s = Some (l, r)" and r: "r \<noteq> [] \<or> stops rest"
    show "scan_frac (s @ rest) = Some (l, r @ rest)"
      using s r d by (cases s; cases rest) (auto simp: scan_frac_def stops_def split: if_splits)
  qed
  show "extends scan_exp"
    unfolding extends_def
  proof (intro allI impI)
    fix s l r rest assume s: "scan_exp s = Some (l, r)" and r: "r \<noteq> [] \<or> stops rest"
    show "scan_exp (s @ rest) = Some (l, r @ rest)"
    proof (cases s)
      case Nil
      with s r show ?thesis by (cases rest) (auto simp: scan_exp_def stops_def)
    next
      case (Cons c t)
      have sg: "scan_sign (t @ rest) = (fst (scan_sign t), snd (scan_sign t) @ rest)" if "t \<noteq> []"
        using that by (cases t) (auto simp: scan_sign_def)
      have "t \<noteq> []" if "c = CHR ''e'' \<or> c = CHR ''E''"
        using s Cons that by (auto simp: scan_exp_def scan_sign_def digits1_def)
      with Cons s r d sg show ?thesis by (auto simp: scan_exp_def split: if_splits prod.splits)
    qed
  qed
qed

lemma scan_number_extends: "extends scan_number"
  unfolding extends_def
proof (intro allI impI)
  fix s l r rest assume s: "scan_number s = Some (l, r)" and r: "r \<noteq> [] \<or> stops rest"
  obtain sg s1 i s2 f s3 e where parts: "scan_minus s = (sg, s1)" "scan_int s1 = Some (i, s2)"
    "scan_frac s2 = Some (f, s3)" "scan_exp s3 = Some (e, r)" "l = sg @ i @ f @ e"
    using s by (auto simp: scan_number_def split: prod.splits bind_splits)
  have "s \<noteq> []" using parts(1,2) by (auto simp: scan_minus_def scan_int_def)
  then have m: "scan_minus (s @ rest) = (sg, s1 @ rest)" using parts(1) by (cases s) (auto simp: scan_minus_def split: if_splits)
  have "s3 \<noteq> [] \<or> stops rest" using parts(4) r by (auto simp: scan_exp_def)
  moreover from this have "s2 \<noteq> [] \<or> stops rest" using parts(3) by (auto simp: scan_frac_def)
  ultimately show "scan_number (s @ rest) = Some (l, r @ rest)"
    using m parts extendsD [OF scan_extends(1) parts(2)] extendsD [OF scan_extends(2) parts(3)]
      extendsD [OF scan_extends(3) parts(4) r]
    by (simp add: scan_number_def)
qed

definition is_literal :: "string \<Rightarrow> bool" where
  "is_literal s \<longleftrightarrow> scan_number s = Some (s, [])"

lemma scan_literal: "is_literal s \<Longrightarrow> stops rest \<Longrightarrow> scan_number (s @ rest) = Some (s, rest)"
  using extendsD [OF scan_number_extends, of s s "[]" rest] by (simp add: is_literal_def)

lemma scan_number_shorter: "scan_number s = Some (l, r) \<Longrightarrow> length r < length s"
proof -
  assume "scan_number s = Some (l, r)"
  then obtain sg s1 i s2 f s3 e where parts: "scan_minus s = (sg, s1)" "scan_int s1 = Some (i, s2)"
    "scan_frac s2 = Some (f, s3)" "scan_exp s3 = Some (e, r)"
    by (auto simp: scan_number_def split: prod.splits bind_splits)
  have d: "length r' < length s'" if "digits1 s' = Some (l', r')" for s' l' r'
  proof -
    have "length s' = length (takeWhile is_digit s') + length (dropWhile is_digit s')"
      by (metis length_append takeWhile_dropWhile_id)
    with that show ?thesis by (auto simp: digits1_def split: if_splits)
  qed
  have "length s1 \<le> length s" using parts(1) by (auto simp: scan_minus_def split: list.splits if_splits)
  moreover have "length s2 < length s1" using parts(2) d [of s1] by (auto simp: scan_int_def split: list.splits if_splits)
  moreover have "length s3 \<le> length s2" using parts(3) d
    by (fastforce simp: scan_frac_def split: list.splits if_splits)
  moreover have "length r \<le> length s3" using parts(4) d
    by (fastforce simp: scan_exp_def scan_sign_def split: list.splits if_splits prod.splits)
  ultimately show ?thesis by linarith
qed

subsection \<open>Values\<close>

text \<open>The parts of a literal: sign, digits before and after the point, exponent.\<close>

definition signed :: "bool \<Rightarrow> 'a \<Rightarrow> 'a :: uminus" where
  "signed neg x = (if neg then - x else x)"

definition exp_value :: "string \<Rightarrow> int" where
  "exp_value s = (case s of [] \<Rightarrow> 0 | _ # r \<Rightarrow> (case scan_sign r of (sg, ds) \<Rightarrow> signed (sg = ''-'') (int (digits_val ds))))"

definition lit_value :: "string \<Rightarrow> rat" where
  "lit_value s = (
     let (sg, s1) = scan_minus s;
         ip = takeWhile is_digit s1; s2 = dropWhile is_digit s1;
         fp = (case s2 of c # r \<Rightarrow> if c = CHR ''.'' then takeWhile is_digit r else [] | [] \<Rightarrow> []);
         s3 = (case s2 of c # r \<Rightarrow> if c = CHR ''.'' then dropWhile is_digit r else s2 | [] \<Rightarrow> [])
     in signed (sg \<noteq> []) (of_nat (digits_val (ip @ fp)) * 10 powi (exp_value s3 - int (length fp))))"

definition parse_float :: "string \<Rightarrow> float64 option" where
  "parse_float s = (case fl (lit_value s) of Fin q \<Rightarrow> Some (Fin q) | _ \<Rightarrow> None)"

definition parse_int :: "string \<Rightarrow> goint option" where
  "parse_int s = (case scan_minus s of (sg, ds) \<Rightarrow>
     let n = signed (sg \<noteq> []) (int (digits_val ds)) in
     if ds \<noteq> [] \<and> list_all is_digit ds \<and> in_int64 n then Some n else None)"

subsection \<open>Integers\<close>

lemma not_digits [simp]: "\<not> is_digit CHR ''-''" "\<not> is_digit CHR ''.''" "\<not> is_digit CHR ''e''" "\<not> is_digit CHR ''+''"
  by (simp_all add: is_digit_def)

lemma nat_text_all_digits: "list_all is_digit (nat_text n)" "takeWhile is_digit (nat_text n) = nat_text n"
  "dropWhile is_digit (nat_text n) = []"
  using nat_text_digits by (auto simp: list_all_iff takeWhile_eq_all_conv)

lemma nat_text_hd_pos: "0 < n \<Longrightarrow> hd (nat_text n) \<noteq> CHR ''0''"
proof (induction n rule: nat_text.induct)
  case (1 n)
  show ?case
  proof (cases "n < 10")
    case True
    have "digit_val CHR ''0'' = 0" by (simp add: digit_val_def)
    with True 1 digit_ok [of n] show ?thesis by (subst nat_text.simps) auto
  next
    case False
    with 1 show ?thesis by (subst nat_text.simps) simp
  qed
qed

lemma scan_minus_digits: "list_all is_digit ds \<Longrightarrow> scan_minus ds = ([], ds)" "scan_minus (CHR ''-'' # s) = (''-'', s)"
  by (auto simp: scan_minus_def split: list.splits)

lemma scan_int_nat_text: "scan_int (nat_text n) = Some (nat_text n, [])"
proof (cases "n = 0")
  case True
  then show ?thesis by (simp add: nat_text.simps scan_int_def digit_def char_of_def bit_0)
next
  case False
  then have "hd (nat_text n) \<noteq> CHR ''0''" using nat_text_hd_pos by simp
  then show ?thesis
    using nat_text_all_digits [of n] nat_text_not_Nil [of n]
    by (cases "nat_text n") (auto simp: scan_int_def digits1_def)
qed

lemma is_literal_nat_text: "is_literal (nat_text n)"
  by (simp add: is_literal_def scan_number_def scan_minus_digits nat_text_all_digits scan_int_nat_text
      scan_frac_def scan_exp_def)

lemma is_literal_itoa: "is_literal (itoa i)"
  using is_literal_nat_text [of "nat (- i)"] is_literal_nat_text [of "nat i"]
  by (auto simp: itoa_def is_literal_def scan_number_def scan_minus_digits nat_text_all_digits split: prod.splits bind_splits)

lemma parse_int_itoa: "in_int64 i \<Longrightarrow> parse_int (itoa i) = Some i"
  by (simp add: parse_int_def itoa_def scan_minus_digits nat_text_all_digits signed_def)

end
