(* ===== verification/FloatText.thy ===== *)
theory FloatText
  imports JsonNumber
begin

text \<open>
  The text of a double in JSON: the shortest decimal that rounds to it, the nearest one among
  those, written without an exponent between \<^verbatim>\<open>1e-6\<close> and \<^verbatim>\<open>1e21\<close>. Reading the text gives the double
  back.
\<close>

subsection \<open>Rounding is symmetric, and doubles are multiples of the least one\<close>

lemma rnd_int_minus: "rnd_int (- q) = - rnd_int q"
proof (cases "q = of_int \<lfloor>q\<rfloor>")
  case True
  then have "q = of_int \<lfloor>q\<rfloor>" .
  moreover have "rnd_int (- of_int \<lfloor>q\<rfloor>) = - rnd_int (of_int \<lfloor>q\<rfloor> :: rat)"
    using rnd_int_of_int [of "- \<lfloor>q\<rfloor>"] by simp
  ultimately show ?thesis by metis
next
  case False
  have lt: "of_int \<lfloor>q\<rfloor> < q" "q < of_int \<lfloor>q\<rfloor> + 1" using False by linarith+
  have f: "\<lfloor>- q\<rfloor> = - \<lfloor>q\<rfloor> - 1" using lt by linarith
  show ?thesis unfolding rnd_int_def Let_def f using lt by auto
qed

lemma rnd_minus: "rnd (- x) = - rnd x"
  by (simp add: rnd_def ulp_exp_def rnd_int_minus)

lemma fl_minus: "fl x = Fin y \<Longrightarrow> fl (- x) = Fin (- y)"
  by (auto simp: fl_def rnd_minus Let_def split: if_splits)

definition is_double :: "float64 \<Rightarrow> bool" where
  "is_double f \<longleftrightarrow> (case f of Fin q \<Rightarrow> fl q = Fin q | _ \<Rightarrow> False)"

text \<open>The places after the binary, and after the decimal, point of the least double.\<close>

definition least_place :: nat where
  "least_place = 1074"

lemma double_multiple:
  assumes "fl x = Fin x"
  shows "\<exists>i. x * 2 ^ least_place = of_int i"
proof (cases "x = 0")
  case False
  let ?n = "rnd_int (x / 2 powi ulp_exp x)" and ?e = "ulp_exp x"
  have "rnd x = x" using assms by (auto simp: fl_def Let_def split: if_splits)
  with False have x: "x = of_int ?n * 2 powi ?e" by (simp add: rnd_def)
  have "0 \<le> ?e + int least_place" by (simp add: ulp_exp_def least_place_def)
  then have "(2 powi (?e + int least_place) :: rat) = of_int (2 ^ nat (?e + int least_place))" by (rule powi2_nonneg_int)
  moreover have "(2 powi (?e + int least_place) :: rat) = 2 powi ?e * 2 ^ least_place" by (simp add: power_int_add)
  moreover have "x * 2 ^ least_place = of_int ?n * (2 powi ?e * 2 ^ least_place)" by (subst x) simp
  ultimately have "x * 2 ^ least_place = of_int (?n * 2 ^ nat (?e + int least_place))" by simp
  then show ?thesis by blast
qed (auto intro: exI [of _ 0])

subsection \<open>The shortest decimal\<close>

text \<open>The decimal with last place \<open>10\<^sup>k\<close> next to \<open>x\<close> that rounds to \<open>x\<close>, if there is one.\<close>

definition candidate :: "rat \<Rightarrow> int \<Rightarrow> int option" where
  "candidate x k = (
     let y = x / 10 powi k; lo = \<lfloor>y\<rfloor>;
         ok = (\<lambda>m. fl (of_int m * 10 powi k) = Fin x)
     in if ok lo \<and> ok (lo + 1) then Some (rnd_int y)
        else if ok lo then Some lo
        else if ok (lo + 1) then Some (lo + 1)
        else None)"

primrec shortest_from :: "nat \<Rightarrow> int \<Rightarrow> rat \<Rightarrow> int \<times> int" where
  "shortest_from 0 k x = (\<lfloor>x / 10 powi k\<rfloor>, k)"
| "shortest_from (Suc n) k x = (case candidate x k of Some m \<Rightarrow> (m, k) | None \<Rightarrow> shortest_from n (k - 1) x)"

text \<open>
  The search starts above the first digit and ends at the last place of the least double, where
  every double is exact.
\<close>

definition shortest :: "rat \<Rightarrow> int \<times> int" where
  "shortest x = (let k = int (length (nat_text (nat \<lfloor>x\<rfloor>))) in shortest_from (nat (k + int least_place)) k x)"

lemma candidate_ok: "candidate x k = Some m \<Longrightarrow> fl (of_int m * 10 powi k) = Fin x"
proof -
  assume c: "candidate x k = Some m"
  let ?y = "x / 10 powi k" and ?ok = "\<lambda>m. fl (of_int m * 10 powi k) = Fin x"
  have "rnd_int ?y = \<lfloor>?y\<rfloor> \<or> rnd_int ?y = \<lfloor>?y\<rfloor> + 1" by (simp add: rnd_int_def Let_def)
  with c have "m = \<lfloor>?y\<rfloor> \<and> ?ok \<lfloor>?y\<rfloor> \<or> m = \<lfloor>?y\<rfloor> + 1 \<and> ?ok (\<lfloor>?y\<rfloor> + 1)"
    unfolding candidate_def Let_def by (metis option.inject option.distinct(1))
  then show ?thesis by blast
qed

lemma exact_at_least_place:
  assumes "fl x = Fin x"
  shows "of_int \<lfloor>x / 10 powi - int least_place\<rfloor> * 10 powi - int least_place = x"
proof -
  obtain i where i: "x * 2 ^ least_place = of_int i" using double_multiple [OF assms] by blast
  have "(10 :: rat) ^ least_place = 2 ^ least_place * 5 ^ least_place" by (simp flip: power_mult_distrib)
  then have "x / 10 powi - int least_place = x * 2 ^ least_place * 5 ^ least_place" by (simp add: power_int_minus field_simps)
  also have "\<dots> = of_int (i * 5 ^ least_place)" using i by simp
  finally have "x / 10 powi - int least_place = of_int (i * 5 ^ least_place)" .
  moreover from this have "x = of_int (i * 5 ^ least_place) * 10 powi - int least_place" by (simp add: field_simps)
  ultimately show ?thesis by simp
qed

lemma shortest_from_ok:
  assumes "fl x = Fin x" and "k - int n = - int least_place" and "shortest_from n k x = (m, k')"
  shows "fl (of_int m * 10 powi k') = Fin x"
  using assms(2,3)
proof (induction n arbitrary: k)
  case 0
  then have "m = \<lfloor>x / 10 powi - int least_place\<rfloor>" "k' = - int least_place" by auto
  with exact_at_least_place [OF assms(1)] assms(1) show ?case by simp
next
  case (Suc n)
  show ?case
  proof (cases "candidate x k")
    case None
    with Suc.prems Suc.IH [of "k - 1"] show ?thesis by simp
  next
    case (Some m')
    with Suc.prems candidate_ok show ?thesis by auto
  qed
qed

lemma shortest_ok: "fl x = Fin x \<Longrightarrow> shortest x = (m, k) \<Longrightarrow> fl (of_int m * 10 powi k) = Fin x"
  by (rule shortest_from_ok [of x "int (length (nat_text (nat \<lfloor>x\<rfloor>)))"]) (auto simp: shortest_def Let_def)

lemma shortest_pos:
  assumes "0 < x" and "fl x = Fin x" and "shortest x = (m, k)"
  shows "0 < m"
proof (rule ccontr)
  assume "\<not> 0 < m"
  then have "of_int m * 10 powi k \<le> (0 :: rat)" by (simp add: mult_nonpos_nonneg)
  then have "rnd (of_int m * 10 powi k) \<le> 0" using rnd_nonneg [of "- (of_int m * 10 powi k)"] by (simp only: rnd_minus) simp
  with shortest_ok [OF assms(2,3)] assms(1) show False by (auto simp: fl_def Let_def split: if_splits)
qed

subsection \<open>Formatting\<close>

definition zeros :: "nat \<Rightarrow> string" where
  "zeros n = replicate n CHR ''0''"

definition fmt_plain :: "nat \<Rightarrow> int \<Rightarrow> string" where
  "fmt_plain m k = (let ds = nat_text m; dp = int (length ds) + k in
     if 0 \<le> k then ds @ zeros (nat k)
     else if 0 < dp then take (nat dp) ds @ ''.'' @ drop (nat dp) ds
     else ''0.'' @ zeros (nat (- dp)) @ ds)"

definition fmt_exp :: "nat \<Rightarrow> int \<Rightarrow> string" where
  "fmt_exp m k = (let ds = nat_text m; e = k + int (length ds) - 1 in
     [hd ds] @ (if tl ds = [] then [] else ''.'' @ tl ds) @ ''e'' @ (if e < 0 then ''-'' else ''+'') @ nat_text (nat \<bar>e\<bar>))"

definition format_float :: "rat \<Rightarrow> string" where
  "format_float q = (if q = 0 then ''0'' else
     let (m, k) = shortest \<bar>q\<bar> in
     (if q < 0 then ''-'' else '''') @ (if \<bar>q\<bar> < rnd (1 / 10 ^ 6) \<or> 10 ^ 21 \<le> \<bar>q\<bar> then fmt_exp (nat m) k else fmt_plain (nat m) k))"

subsection \<open>Reading the text back\<close>

lemma digits_val_append: "digits_val (xs @ ys) = digits_val xs * 10 ^ length ys + digits_val ys"
proof -
  have "foldl (\<lambda>n c. 10 * n + digit_val c) a ys = a * 10 ^ length ys + digits_val ys" for a
  proof (induction ys arbitrary: a)
    case (Cons c ys)
    have "digits_val (c # ys) = digit_val c * 10 ^ length ys + digits_val ys"
      using Cons [of "digit_val c"] by (simp add: digits_val_def)
    with Cons [of "10 * a + digit_val c"] show ?case by (simp add: distrib_right)
  qed (simp add: digits_val_def)
  from this [of "digits_val xs"] show ?thesis by (simp add: digits_val_def)
qed

lemma digits_val_Cons: "digits_val (c # s) = digit_val c * 10 ^ length s + digits_val s"
  using digits_val_append [of "[c]" s] by (simp add: digits_val_def)

lemma digits_val_0 [simp]: "digits_val [] = 0" "digit_val CHR ''0'' = 0"
  by (simp_all add: digits_val_def digit_val_def)

lemma digits_val_zeros [simp]: "digits_val (zeros n) = 0"
  by (induction n) (simp_all add: zeros_def digits_val_Cons)

lemma zeros_digits: "list_all is_digit (zeros n)" "length (zeros n) = n"
  by (simp_all add: zeros_def list_all_iff is_digit_def)

lemma digits_span:
  assumes "list_all is_digit ds"
  shows "takeWhile is_digit (ds @ CHR ''.'' # r) = ds" "dropWhile is_digit (ds @ CHR ''.'' # r) = CHR ''.'' # r"
    "takeWhile is_digit (ds @ CHR ''e'' # r) = ds" "dropWhile is_digit (ds @ CHR ''e'' # r) = CHR ''e'' # r"
    "takeWhile is_digit ds = ds" "dropWhile is_digit ds = []"
  using assms by (auto simp: takeWhile_append2 dropWhile_append2 list_all_iff takeWhile_eq_all_conv)

lemma scan_minus_first: "is_digit c \<Longrightarrow> scan_minus (c # s) = ([], c # s)"
  by (auto simp: scan_minus_def)

text \<open>Literals without and with a fraction, and with an exponent.\<close>

lemma lit_plain:
  assumes "list_all is_digit ds" and "ds \<noteq> []"
  shows "lit_value ds = of_nat (digits_val ds)"
    and "hd ds \<noteq> CHR ''0'' \<or> ds = ''0'' \<Longrightarrow> is_literal ds"
proof -
  have m: "scan_minus ds = ([], ds)" using assms by (simp add: scan_minus_digits)
  show "lit_value ds = of_nat (digits_val ds)"
    by (simp add: lit_value_def m Let_def digits_span [OF assms(1)] signed_def exp_value_def)
  show "is_literal ds" if "hd ds \<noteq> CHR ''0'' \<or> ds = ''0''"
  proof -
    have "scan_int ds = Some (ds, [])"
      using that assms(2) digits_span(5,6) [OF assms(1)] by (cases ds) (auto simp: scan_int_def digits1_def)
    with m show ?thesis by (simp add: is_literal_def scan_number_def scan_frac_def scan_exp_def)
  qed
qed

lemma lit_fraction:
  assumes "list_all is_digit ip" "ip \<noteq> []" and "list_all is_digit fp" "fp \<noteq> []"
  shows "lit_value (ip @ CHR ''.'' # fp) = of_nat (digits_val (ip @ fp)) * 10 powi - int (length fp)"
    and "hd ip \<noteq> CHR ''0'' \<or> ip = ''0'' \<Longrightarrow> is_literal (ip @ CHR ''.'' # fp)"
proof -
  have m: "scan_minus (ip @ CHR ''.'' # fp) = ([], ip @ CHR ''.'' # fp)"
    using assms(1,2) by (cases ip) (simp_all add: scan_minus_first)
  show "lit_value (ip @ CHR ''.'' # fp) = of_nat (digits_val (ip @ fp)) * 10 powi - int (length fp)"
    by (simp add: lit_value_def m Let_def digits_span [OF assms(1)] digits_span [OF assms(3)] signed_def exp_value_def)
  have "scan_int (ip @ CHR ''.'' # fp) = Some (ip, CHR ''.'' # fp)" if "hd ip \<noteq> CHR ''0'' \<or> ip = ''0''"
    using that assms(2) digits_span(1,2) [OF assms(1), of fp]
    by (cases ip) (auto simp: scan_int_def digits1_def)
  then show "is_literal (ip @ CHR ''.'' # fp)" if "hd ip \<noteq> CHR ''0'' \<or> ip = ''0''"
    using that m assms(4)
    by (simp add: is_literal_def scan_number_def scan_frac_def digits1_def digits_span [OF assms(3)] scan_exp_def)
qed

lemma lit_exponent:
  assumes "is_digit d" "d \<noteq> CHR ''0''" and "list_all is_digit fp" and "fr = (if fp = [] then [] else CHR ''.'' # fp)"
    and "list_all is_digit es" "es \<noteq> []" and "sg = CHR ''-'' \<or> sg = CHR ''+''"
  shows "lit_value (d # fr @ CHR ''e'' # sg # es) = of_nat (digits_val (d # fp)) *
      10 powi (signed (sg = CHR ''-'') (int (digits_val es)) - int (length fp))"
    and "is_literal (d # fr @ CHR ''e'' # sg # es)"
proof -
  let ?ex = "CHR ''e'' # sg # es"
  have m: "scan_minus (d # s) = ([], d # s)" for s using assms(1) by (rule scan_minus_first)
  have sg: "scan_sign (sg # es) = ([sg], es)" using assms(7) by (auto simp: scan_sign_def)
  have ex: "exp_value ?ex = signed (sg = CHR ''-'') (int (digits_val es))" by (simp add: exp_value_def sg)
  have "lit_value (d # fr @ CHR ''e'' # t) = of_nat (digits_val (d # fp)) * 10 powi (exp_value (CHR ''e'' # t) - int (length fp))" for t
    using assms(1) by (simp add: lit_value_def m Let_def assms(4) digits_span [OF assms(3)] signed_def)
  then show "lit_value (d # fr @ ?ex) = of_nat (digits_val (d # fp)) *
      10 powi (signed (sg = CHR ''-'') (int (digits_val es)) - int (length fp))"
    by (simp only: ex)
  have "scan_exp ?ex = Some (?ex, [])"
    using assms(6) by (simp add: scan_exp_def sg digits1_def digits_span [OF assms(5)])
  moreover have "scan_frac (fr @ ?ex) = Some (fr, ?ex)"
    by (simp add: assms(4) scan_frac_def digits1_def digits_span [OF assms(3)])
  moreover have "scan_int (d # fr @ ?ex) = Some ([d], fr @ ?ex)"
    using assms(1,2) by (simp add: scan_int_def digits1_def assms(4))
  ultimately show "is_literal (d # fr @ ?ex)" using m by (simp add: is_literal_def scan_number_def)
qed

lemma fmt_plain_ok:
  assumes "0 < m"
  shows "lit_value (fmt_plain m k) = of_nat m * 10 powi k" and "is_literal (fmt_plain m k)"
    and "is_digit (hd (fmt_plain m k))" and "fmt_plain m k \<noteq> []"
proof -
  let ?ds = "nat_text m"
  define dp where "dp = int (length ?ds) + k"
  note ds = nat_text_all_digits(1) [of m] nat_text_not_Nil [of m]
  have hd0: "hd ?ds \<noteq> CHR ''0''" using nat_text_hd_pos [OF assms] .
  consider "0 \<le> k" | "k < 0" "0 < dp" | "k < 0" "dp \<le> 0" by linarith
  then have "lit_value (fmt_plain m k) = of_nat m * 10 powi k \<and> is_literal (fmt_plain m k)
    \<and> is_digit (hd (fmt_plain m k)) \<and> fmt_plain m k \<noteq> []"
  proof cases
    case 1
    have "list_all is_digit (?ds @ zeros (nat k))" using ds zeros_digits by simp
    from lit_plain [OF this] 1 ds hd0 nat_text_hd [of m] show ?thesis
      by (simp add: fmt_plain_def Let_def digits_val_append zeros_digits power_int_def)
  next
    case 2
    let ?ip = "take (nat dp) ?ds" and ?fp = "drop (nat dp) ?ds"
    have len: "length ?fp = nat (- k)" "nat dp < length ?ds" using 2 by (auto simp: dp_def)
    have parts: "list_all is_digit ?ip" "?ip \<noteq> []" "list_all is_digit ?fp" "?fp \<noteq> []"
      using 2 ds len by (auto simp: list_all_iff dest: in_set_takeD in_set_dropD)
    have "- int (length ?fp) = k" using len(1) 2 by simp
    with lit_fraction(1) [OF parts] have "lit_value (?ip @ CHR ''.'' # ?fp) = of_nat m * 10 powi k"
      by (simp only: append_take_drop_id digits_val_nat_text)
    with lit_fraction(2) [OF parts] hd0 2 nat_text_hd [of m] ds parts(2) show ?thesis
      by (simp add: fmt_plain_def Let_def flip: dp_def)
  next
    case 3
    let ?fp = "zeros (nat (- dp)) @ ?ds"
    have "list_all is_digit ''0''" "list_all is_digit ?fp" "?fp \<noteq> []" using ds zeros_digits by (simp_all add: is_digit_def)
    from lit_fraction [OF this(1) _ this(2,3)] 3 show ?thesis
      by (simp add: fmt_plain_def Let_def digits_val_append zeros_digits flip: dp_def)
        (simp add: digits_val_Cons digits_val_append dp_def is_digit_def)
  qed
  then show "lit_value (fmt_plain m k) = of_nat m * 10 powi k" "is_literal (fmt_plain m k)"
    "is_digit (hd (fmt_plain m k))" "fmt_plain m k \<noteq> []" by blast+
qed

lemma fmt_exp_ok:
  assumes "0 < m"
  shows "lit_value (fmt_exp m k) = of_nat m * 10 powi k" and "is_literal (fmt_exp m k)"
    and "is_digit (hd (fmt_exp m k))" and "fmt_exp m k \<noteq> []"
proof -
  define e where "e = k + int (length (nat_text m)) - 1"
  obtain d fp where ds: "nat_text m = d # fp" using nat_text_not_Nil [of m] by (cases "nat_text m") auto
  have d: "is_digit d" "d \<noteq> CHR ''0''" "list_all is_digit fp"
    using nat_text_all_digits(1) [of m] nat_text_hd_pos [OF assms] ds by simp_all
  define sg where "sg = (if e < 0 then CHR ''-'' else CHR ''+'')"
  have sg: "sg = CHR ''-'' \<or> sg = CHR ''+''" "signed (sg = CHR ''-'') (int (nat \<bar>e\<bar>)) = e"
    by (auto simp: sg_def signed_def)
  have tx: "fmt_exp m k = d # (if fp = [] then [] else CHR ''.'' # fp) @ CHR ''e'' # sg # nat_text (nat \<bar>e\<bar>)"
    by (simp add: fmt_exp_def Let_def ds e_def sg_def)
  note lit = lit_exponent [OF d refl nat_text_all_digits(1) nat_text_not_Nil sg(1), of "nat \<bar>e\<bar>"]
  have "digits_val (d # fp) = m" using ds digits_val_nat_text [of m] by simp
  moreover have "e - int (length fp) = k" by (simp add: e_def ds)
  ultimately show "lit_value (fmt_exp m k) = of_nat m * 10 powi k" using lit(1) tx sg(2) by simp
  show "is_literal (fmt_exp m k)" using lit(2) tx by simp
  show "is_digit (hd (fmt_exp m k))" "fmt_exp m k \<noteq> []" using tx d(1) by simp_all
qed

lemma lit_negative:
  assumes "is_digit (hd s)" and "s \<noteq> []"
  shows "lit_value (CHR ''-'' # s) = - lit_value s" and "is_literal s \<Longrightarrow> is_literal (CHR ''-'' # s)"
proof -
  have m: "scan_minus s = ([], s)" using assms by (cases s) (simp_all add: scan_minus_first)
  show "lit_value (CHR ''-'' # s) = - lit_value s"
    by (simp add: lit_value_def m scan_minus_digits signed_def Let_def)
  show "is_literal s \<Longrightarrow> is_literal (CHR ''-'' # s)"
    by (auto simp: is_literal_def scan_number_def m scan_minus_digits split: bind_splits)
qed

lemma format_float_ok:
  assumes "fl q = Fin q"
  shows "is_literal (format_float q) \<and> parse_float (format_float q) = Some (Fin q)"
proof (cases "q = 0")
  case True
  have "is_literal ''0''" "lit_value ''0'' = 0"
    using lit_plain [of "''0''"] by (simp_all add: is_digit_def digits_val_Cons)
  with True show ?thesis by (simp add: format_float_def parse_float_def fl_def)
next
  case False
  have a: "fl \<bar>q\<bar> = Fin \<bar>q\<bar>" "0 < \<bar>q\<bar>" using assms fl_minus [of q q] False by (auto simp: abs_if)
  obtain m k where mk: "shortest \<bar>q\<bar> = (m, k)" by fastforce
  have m: "0 < nat m" using shortest_pos [OF a(2,1) mk] by simp
  define body where "body = (if \<bar>q\<bar> < rnd (1 / 10 ^ 6) \<or> 10 ^ 21 \<le> \<bar>q\<bar> then fmt_exp (nat m) k else fmt_plain (nat m) k)"
  have b: "lit_value body = of_int m * 10 powi k" "is_literal body" "is_digit (hd body)" "body \<noteq> []"
    using fmt_plain_ok [OF m, of k] fmt_exp_ok [OF m, of k] m by (simp_all add: body_def)
  have "fl (lit_value body) = Fin \<bar>q\<bar>" using shortest_ok [OF a(1) mk] b(1) by simp
  moreover from fl_minus [OF this] have "fl (- lit_value body) = Fin (- \<bar>q\<bar>)" .
  moreover have "format_float q = (if q < 0 then CHR ''-'' # body else body)"
    using False mk by (simp add: format_float_def body_def)
  ultimately show ?thesis using b lit_negative [OF b(3,4)] False by (auto simp: parse_float_def)
qed

end
