(* ===== verification/JsonText.thy ===== *)
theory JsonText
  imports JsonString FloatText
begin

text \<open>
  The text layer of \<^verbatim>\<open>encoding/json\<close>: values, their compact text as \<^verbatim>\<open>Marshal\<close> writes it, and the
  readers \<^verbatim>\<open>Unmarshal\<close> (one value and nothing after it) and \<^verbatim>\<open>Decoder.Decode\<close> (the first value of the
  input). The reader is a machine with a stack of open arrays and objects, at most ten thousand
  deep, over the tokens of the text.
\<close>

datatype json =
    JNull
  | JBool bool
  | JNumber string
  | JString string
  | JArray "json list"
  | JObject "(string \<times> json) list"

subsection \<open>Writing\<close>

lemma size_snd_json [termination_simp]: "kv \<in> set kvs \<Longrightarrow> size (snd kv) < Suc (size_list (size_prod (\<lambda>_. 0) size) kvs)"
  by (induction kvs) (auto simp: less_Suc_eq_le)

fun json_text :: "json \<Rightarrow> string" where
  "json_text JNull = ''null''"
| "json_text (JBool b) = (if b then ''true'' else ''false'')"
| "json_text (JNumber s) = s"
| "json_text (JString s) = quote_string s"
| "json_text (JArray vs) = ''['' @ strings_Join (map json_text vs) '','' @ '']''"
| "json_text (JObject kvs) = ''{'' @ strings_Join (map (\<lambda>kv. quote_string (fst kv) @ '':'' @ json_text (snd kv)) kvs) '','' @ ''}''"

subsection \<open>Tokens\<close>

datatype token = TNull | TTrue | TFalse | TNum string | TStr string
  | TLBrace | TRBrace | TLBrack | TRBrack | TComma | TColon

definition is_space :: "char \<Rightarrow> bool" where
  "is_space c \<longleftrightarrow> c \<in> {CHR 0x20, CHR 0x09, CHR 0x0A, CHR 0x0D}"

definition keyword :: "string \<Rightarrow> token \<Rightarrow> string \<Rightarrow> (token \<times> string) option" where
  "keyword w t s = (if take (length w) s = w then Some (t, drop (length w) s) else None)"

definition token_at :: "string \<Rightarrow> (token \<times> string) option" where
  "token_at s = (case s of
     [] \<Rightarrow> None
   | c # r \<Rightarrow>
       if c = CHR ''{'' then Some (TLBrace, r)
       else if c = CHR ''}'' then Some (TRBrace, r)
       else if c = CHR ''['' then Some (TLBrack, r)
       else if c = CHR '']'' then Some (TRBrack, r)
       else if c = CHR '','' then Some (TComma, r)
       else if c = CHR '':'' then Some (TColon, r)
       else if c = dquote then map_option (\<lambda>(t, r). (TStr t, r)) (unquote r)
       else if c = CHR ''n'' then keyword ''ull'' TNull r
       else if c = CHR ''t'' then keyword ''rue'' TTrue r
       else if c = CHR ''f'' then keyword ''alse'' TFalse r
       else map_option (\<lambda>(l, r). (TNum l, r)) (scan_number s))"

definition next_token :: "string \<Rightarrow> (token \<times> string) option" where
  "next_token s = token_at (dropWhile is_space s)"

lemma token_at_shorter: "token_at s = Some (t, r) \<Longrightarrow> length r < length s"
  using unquote_shorter scan_number_shorter
  by (cases s) (fastforce simp: token_at_def keyword_def split: if_splits)+

lemma next_token_shorter [termination_simp]: "next_token s = Some (t, r) \<Longrightarrow> length r < length s"
  using token_at_shorter [of "dropWhile is_space s" t r] length_dropWhile_le [of is_space s]
  by (simp add: next_token_def)

subsection \<open>The machine\<close>

text \<open>An open array, or an open object and the key whose value comes next; elements newest first.\<close>

datatype frame = FArr "json list" | FObj "(string \<times> json) list" string

datatype mode = MValue | MFirst | MFirstKey | MKey | MColon | MSep | MDone json

definition maxNestingDepth :: nat where
  "maxNestingDepth = 10000"

fun completed :: "json \<Rightarrow> frame list \<Rightarrow> mode \<times> frame list" where
  "completed v [] = (MDone v, [])"
| "completed v (FArr vs # st) = (MSep, FArr (v # vs) # st)"
| "completed v (FObj kvs k # st) = (MSep, FObj ((k, v) # kvs) k # st)"

fun close :: "frame list \<Rightarrow> (mode \<times> frame list) option" where
  "close (FArr vs # st) = Some (completed (JArray (rev vs)) st)"
| "close (FObj kvs k # st) = Some (completed (JObject (rev kvs)) st)"
| "close [] = None"

definition open_frame :: "mode \<Rightarrow> frame \<Rightarrow> frame list \<Rightarrow> (mode \<times> frame list) option" where
  "open_frame m f st = (if length st < maxNestingDepth then Some (m, f # st) else None)"

definition value_step :: "frame list \<Rightarrow> token \<Rightarrow> (mode \<times> frame list) option" where
  "value_step st t = (case t of
     TNull \<Rightarrow> Some (completed JNull st)
   | TTrue \<Rightarrow> Some (completed (JBool True) st)
   | TFalse \<Rightarrow> Some (completed (JBool False) st)
   | TNum l \<Rightarrow> Some (completed (JNumber l) st)
   | TStr s \<Rightarrow> Some (completed (JString s) st)
   | TLBrack \<Rightarrow> open_frame MFirst (FArr []) st
   | TLBrace \<Rightarrow> open_frame MFirstKey (FObj [] '''') st
   | _ \<Rightarrow> None)"

definition key_step :: "frame list \<Rightarrow> token \<Rightarrow> (mode \<times> frame list) option" where
  "key_step st t = (case (t, st) of (TStr k, FObj kvs _ # st') \<Rightarrow> Some (MColon, FObj kvs k # st') | _ \<Rightarrow> None)"

definition sep_step :: "frame list \<Rightarrow> token \<Rightarrow> (mode \<times> frame list) option" where
  "sep_step st t = (case st of
     FArr _ # _ \<Rightarrow> if t = TComma then Some (MValue, st) else if t = TRBrack then close st else None
   | FObj _ _ # _ \<Rightarrow> if t = TComma then Some (MKey, st) else if t = TRBrace then close st else None
   | [] \<Rightarrow> None)"

definition machine_step :: "mode \<Rightarrow> frame list \<Rightarrow> token \<Rightarrow> (mode \<times> frame list) option" where
  "machine_step m st t = (case m of
     MValue \<Rightarrow> value_step st t
   | MFirst \<Rightarrow> if t = TRBrack then close st else value_step st t
   | MFirstKey \<Rightarrow> if t = TRBrace then close st else key_step st t
   | MKey \<Rightarrow> key_step st t
   | MColon \<Rightarrow> if t = TColon then Some (MValue, st) else None
   | MSep \<Rightarrow> sep_step st t
   | MDone _ \<Rightarrow> None)"

function parse_from :: "mode \<Rightarrow> frame list \<Rightarrow> string \<Rightarrow> (json \<times> string) option" where
  "parse_from m st s = (case m of MDone v \<Rightarrow> Some (v, s)
     | _ \<Rightarrow> (case next_token s of
         None \<Rightarrow> None
       | Some (t, r) \<Rightarrow> (case machine_step m st t of None \<Rightarrow> None | Some (m', st') \<Rightarrow> parse_from m' st' r)))"
  by pat_completeness auto
termination
  by (relation "measure (\<lambda>(m, st, s). length s)") (auto dest: next_token_shorter)

declare parse_from.simps [simp del]

definition json_unmarshal :: "string \<Rightarrow> string + json" where
  "json_unmarshal s = (case parse_from MValue [] s of
     Some (v, r) \<Rightarrow> if list_all is_space r then Inr v else Inl ''invalid character after top-level value''
   | None \<Rightarrow> Inl ''invalid JSON'')"

definition json_decode :: "string \<Rightarrow> string + json" where
  "json_decode s = (case parse_from MValue [] s of Some (v, _) \<Rightarrow> Inr v | None \<Rightarrow> Inl ''invalid JSON'')"

subsection \<open>Reading the text back\<close>

text \<open>What comes back: the same value with well-formed strings.\<close>

fun json_norm :: "json \<Rightarrow> json" where
  "json_norm (JString s) = JString (to_valid s)"
| "json_norm (JArray vs) = JArray (map json_norm vs)"
| "json_norm (JObject kvs) = JObject (map (\<lambda>kv. (to_valid (fst kv), json_norm (snd kv))) kvs)"
| "json_norm v = v"

fun depth :: "json \<Rightarrow> nat" where
  "depth (JArray vs) = Suc (fold max (map depth vs) 0)"
| "depth (JObject kvs) = Suc (fold max (map (\<lambda>kv. depth (snd kv)) kvs) 0)"
| "depth _ = 0"

fun literals :: "json \<Rightarrow> bool" where
  "literals (JNumber s) = is_literal s"
| "literals (JArray vs) = list_all literals vs"
| "literals (JObject kvs) = list_all (\<lambda>kv. literals (snd kv)) kvs"
| "literals _ = True"

definition resume :: "(mode \<times> frame list) \<Rightarrow> string \<Rightarrow> (json \<times> string) option" where
  "resume ms s = parse_from (fst ms) (snd ms) s"

lemma fold_max_start: "(a :: nat) \<le> fold max xs a"
proof (induction xs arbitrary: a)
  case (Cons x xs)
  from Cons [of "max x a"] show ?case by simp
qed simp

lemma fold_max_ge: "(x :: nat) \<in> set xs \<Longrightarrow> x \<le> fold max xs a"
proof (induction xs arbitrary: a)
  case (Cons y xs)
  from Cons fold_max_start [of "max y a" xs] show ?case by auto
qed simp

lemma parse_from_token:
  assumes "next_token s = Some (t, r)" and "machine_step m st t = Some ms" and "\<And>v. m \<noteq> MDone v"
  shows "parse_from m st s = resume ms r"
  using assms by (subst parse_from.simps) (auto simp: resume_def split: mode.splits prod.splits)

lemma next_token_punct:
  "next_token (CHR ''['' # s) = Some (TLBrack, s)" "next_token (CHR '']'' # s) = Some (TRBrack, s)"
  "next_token (CHR ''{'' # s) = Some (TLBrace, s)" "next_token (CHR ''}'' # s) = Some (TRBrace, s)"
  "next_token (CHR '','' # s) = Some (TComma, s)" "next_token (CHR '':'' # s) = Some (TColon, s)"
  by (simp_all add: next_token_def token_at_def is_space_def)

lemma next_token_words:
  "next_token (''null'' @ s) = Some (TNull, s)" "next_token (''true'' @ s) = Some (TTrue, s)"
  "next_token (''false'' @ s) = Some (TFalse, s)"
  by (simp_all add: next_token_def token_at_def is_space_def keyword_def dquote_def)

lemma next_token_string: "next_token (quote_string k @ s) = Some (TStr (to_valid k), s)"
  using unquote_quote [of k s]
  by (simp add: quote_string_def next_token_def token_at_def is_space_def) (simp add: dquote_def)

lemma literal_first: "is_literal (c # s) \<Longrightarrow> is_digit c \<or> c = CHR ''-''"
  by (auto simp: is_literal_def scan_number_def scan_minus_def scan_int_def digits1_def is_digit_def
      split: if_splits bind_splits)

lemma next_token_number:
  assumes "is_literal l" and "stops s"
  shows "next_token (l @ s) = Some (TNum l, s)"
proof -
  have "l \<noteq> []" using assms(1) by (auto simp: is_literal_def scan_number_def scan_minus_def scan_int_def)
  then obtain c l' where l: "l = c # l'" by (cases l) auto
  have "is_digit c \<or> c = CHR ''-''" using literal_first assms(1) l by blast
  then have "\<not> is_space c" "c \<notin> {CHR ''{'', CHR ''}'', CHR ''['', CHR '']'', CHR '','', CHR '':'', dquote, CHR ''n'', CHR ''t'', CHR ''f''}"
    by (auto simp: is_space_def is_digit_def dquote_def)
  with scan_literal [OF assms] l show ?thesis by (simp add: next_token_def token_at_def)
qed

lemma stops_punct: "stops (CHR '','' # s)" "stops (CHR '']'' # s)" "stops (CHR ''}'' # s)"
  by (simp_all add: stops_def is_digit_def)

definition reads_text :: "frame list \<Rightarrow> json \<Rightarrow> bool" where
  "reads_text st v \<longleftrightarrow> (\<forall>m rest. m \<in> {MValue, MFirst} \<longrightarrow> stops rest \<longrightarrow>
     parse_from m st (json_text v @ rest) = resume (completed (json_norm v) st) rest)"

lemma reads_textD: "reads_text st v \<Longrightarrow> m \<in> {MValue, MFirst} \<Longrightarrow> stops rest \<Longrightarrow>
    parse_from m st (json_text v @ rest) = resume (completed (json_norm v) st) rest"
  unfolding reads_text_def by blast

lemma machine_step_value: "t \<noteq> TRBrack \<Longrightarrow> m \<in> {MValue, MFirst} \<Longrightarrow> machine_step m st t = value_step st t"
  by (auto simp: machine_step_def)

lemma reads_tokenI:
  assumes "\<And>rest. stops rest \<Longrightarrow> next_token (json_text v @ rest) = Some (t, rest)" and "t \<noteq> TRBrack"
    and "value_step st t = Some (completed (json_norm v) st)"
  shows "reads_text st v"
  unfolding reads_text_def
proof (intro allI impI)
  fix m rest assume "m \<in> {MValue, MFirst}" "stops rest"
  with assms show "parse_from m st (json_text v @ rest) = resume (completed (json_norm v) st) rest"
    by (intro parse_from_token [of _ t]) (auto simp: machine_step_value)
qed

lemma reads_elems:
  assumes "vs \<noteq> []" and "\<And>v acc. v \<in> set vs \<Longrightarrow> reads_text (FArr acc # st) v" and "m \<in> {MValue, MFirst}"
  shows "parse_from m (FArr acc # st) (strings_Join (map json_text vs) '','' @ CHR '']'' # rest) =
    resume (completed (JArray (rev acc @ map json_norm vs)) st) rest"
  using assms
proof (induction vs arbitrary: acc m rule: induct_list012)
  case (2 v)
  have "parse_from m (FArr acc # st) (json_text v @ CHR '']'' # rest) = resume (MSep, FArr (json_norm v # acc) # st) (CHR '']'' # rest)"
    using reads_textD [of "FArr acc # st" v m "CHR '']'' # rest"] 2 stops_punct by simp
  also have "\<dots> = resume (completed (JArray (rev (json_norm v # acc))) st) rest"
    unfolding resume_def [of "(MSep, _)"] fst_conv snd_conv
    by (rule parse_from_token [OF next_token_punct(2)]) (simp_all add: machine_step_def sep_step_def)
  finally show ?case by simp
next
  case (3 v w vs)
  let ?rest = "strings_Join (map json_text (w # vs)) '','' @ CHR '']'' # rest"
  have "parse_from m (FArr acc # st) (json_text v @ CHR '','' # ?rest) = resume (MSep, FArr (json_norm v # acc) # st) (CHR '','' # ?rest)"
    using reads_textD [of "FArr acc # st" v m "CHR '','' # ?rest"] 3 stops_punct by simp
  also have "\<dots> = parse_from MValue (FArr (json_norm v # acc) # st) ?rest"
    using parse_from_token [OF next_token_punct(5), of MSep "FArr (json_norm v # acc) # st" "(MValue, FArr (json_norm v # acc) # st)" ?rest]
    by (simp add: machine_step_def sep_step_def resume_def)
  also have "\<dots> = resume (completed (JArray (rev (json_norm v # acc) @ map json_norm (w # vs))) st) rest"
    using 3 by (intro "3.IH"(2)) auto
  finally show ?case by simp
qed simp

lemma reads_member:
  assumes "\<And>acc k. reads_text (FObj acc k # st) v" and "stops rest" and "m \<in> {MKey, MFirstKey}"
  shows "parse_from m (FObj acc k' # st) ((quote_string k @ '':'' @ json_text v) @ rest) =
    resume (MSep, FObj ((to_valid k, json_norm v) # acc) (to_valid k) # st) rest"
proof -
  let ?f = "FObj acc (to_valid k)"
  have "parse_from m (FObj acc k' # st) ((quote_string k @ '':'' @ json_text v) @ rest) = parse_from MColon (?f # st) (CHR '':'' # json_text v @ rest)"
    using parse_from_token [of "quote_string k @ CHR '':'' # json_text v @ rest" "TStr (to_valid k)" "CHR '':'' # json_text v @ rest" m "FObj acc k' # st"
        "(MColon, ?f # st)"] next_token_string [of k] assms(3)
    by (auto simp: machine_step_def key_step_def resume_def)
  also have "\<dots> = parse_from MValue (?f # st) (json_text v @ rest)"
    using parse_from_token [OF next_token_punct(6), of MColon "?f # st" "(MValue, ?f # st)" "json_text v @ rest"]
    by (simp add: machine_step_def resume_def)
  also have "\<dots> = resume (MSep, FObj ((to_valid k, json_norm v) # acc) (to_valid k) # st) rest"
    using reads_textD [OF assms(1), of MValue rest acc "to_valid k"] assms(2) by simp
  finally show ?thesis .
qed

abbreviation member_text :: "string \<times> json \<Rightarrow> string" where
  "member_text kv \<equiv> quote_string (fst kv) @ '':'' @ json_text (snd kv)"

lemma reads_members:
  assumes "kvs \<noteq> []" and "\<And>kv acc k. kv \<in> set kvs \<Longrightarrow> reads_text (FObj acc k # st) (snd kv)" and "m \<in> {MKey, MFirstKey}"
  shows "parse_from m (FObj acc k' # st) (strings_Join (map member_text kvs) '','' @ CHR ''}'' # rest) =
    resume (completed (JObject (rev acc @ map (\<lambda>kv. (to_valid (fst kv), json_norm (snd kv))) kvs)) st) rest"
  using assms
proof (induction kvs arbitrary: acc k' m rule: induct_list012)
  case (2 kv)
  let ?f = "FObj ((to_valid (fst kv), json_norm (snd kv)) # acc) (to_valid (fst kv))"
  have "parse_from m (FObj acc k' # st) (member_text kv @ CHR ''}'' # rest) = resume (MSep, ?f # st) (CHR ''}'' # rest)"
    using reads_member [of st "snd kv" "CHR ''}'' # rest" m acc k' "fst kv"] 2 stops_punct by simp
  also have "\<dots> = resume (completed (JObject (rev ((to_valid (fst kv), json_norm (snd kv)) # acc))) st) rest"
    unfolding resume_def [of "(MSep, _)"] fst_conv snd_conv
    by (rule parse_from_token [OF next_token_punct(4)]) (simp_all add: machine_step_def sep_step_def)
  finally show ?case by simp
next
  case (3 kv kw kvs)
  let ?rest = "strings_Join (map member_text (kw # kvs)) '','' @ CHR ''}'' # rest"
  let ?f = "FObj ((to_valid (fst kv), json_norm (snd kv)) # acc) (to_valid (fst kv))"
  have "parse_from m (FObj acc k' # st) (member_text kv @ CHR '','' # ?rest) = resume (MSep, ?f # st) (CHR '','' # ?rest)"
    using reads_member [of st "snd kv" "CHR '','' # ?rest" m acc k' "fst kv"] 3 stops_punct by simp
  also have "\<dots> = parse_from MKey (?f # st) ?rest"
    using parse_from_token [OF next_token_punct(5), of MSep "?f # st" "(MKey, ?f # st)" ?rest]
    by (simp add: machine_step_def sep_step_def resume_def)
  also have "\<dots> = resume (completed (JObject (rev ((to_valid (fst kv), json_norm (snd kv)) # acc)
      @ map (\<lambda>kv. (to_valid (fst kv), json_norm (snd kv))) (kw # kvs))) st) rest"
    using 3 by (intro "3.IH"(2)) auto
  finally show ?case by simp
qed simp

lemma reads_array:
  assumes "length st < maxNestingDepth" and "\<And>v acc. v \<in> set vs \<Longrightarrow> reads_text (FArr acc # st) v"
  shows "reads_text st (JArray vs)"
  unfolding reads_text_def
proof (intro allI impI)
  fix m rest assume m: "m \<in> {MValue, MFirst}" and "stops rest"
  have "parse_from m st (json_text (JArray vs) @ rest) = parse_from MFirst (FArr [] # st) (strings_Join (map json_text vs) '','' @ CHR '']'' # rest)"
    using parse_from_token [OF next_token_punct(1), of m st "(MFirst, FArr [] # st)"] m assms(1)
    by (auto simp: machine_step_def value_step_def open_frame_def resume_def)
  also have "\<dots> = resume (completed (JArray (map json_norm vs)) st) rest"
  proof (cases "vs = []")
    case True
    then show ?thesis
      using parse_from_token [OF next_token_punct(2), of MFirst "FArr [] # st" "completed (JArray []) st" rest]
      by (simp add: machine_step_def)
  next
    case False
    from reads_elems [OF False assms(2), of MFirst "[]"] show ?thesis by simp
  qed
  finally show "parse_from m st (json_text (JArray vs) @ rest) = resume (completed (json_norm (JArray vs)) st) rest" by simp
qed

lemma reads_object:
  assumes "length st < maxNestingDepth" and "\<And>kv acc k. kv \<in> set kvs \<Longrightarrow> reads_text (FObj acc k # st) (snd kv)"
  shows "reads_text st (JObject kvs)"
  unfolding reads_text_def
proof (intro allI impI)
  fix m rest assume m: "m \<in> {MValue, MFirst}" and "stops rest"
  have "parse_from m st (json_text (JObject kvs) @ rest) = parse_from MFirstKey (FObj [] '''' # st) (strings_Join (map member_text kvs) '','' @ CHR ''}'' # rest)"
    using parse_from_token [OF next_token_punct(3), of m st "(MFirstKey, FObj [] '''' # st)"] m assms(1)
    by (auto simp: machine_step_def value_step_def open_frame_def resume_def)
  also have "\<dots> = resume (completed (JObject (map (\<lambda>kv. (to_valid (fst kv), json_norm (snd kv))) kvs)) st) rest"
  proof (cases "kvs = []")
    case True
    then show ?thesis
      using parse_from_token [OF next_token_punct(4), of MFirstKey "FObj [] '''' # st" "completed (JObject []) st" rest]
      by (simp add: machine_step_def)
  next
    case False
    from reads_members [OF False assms(2), of MFirstKey "[]"] show ?thesis by simp
  qed
  finally show "parse_from m st (json_text (JObject kvs) @ rest) = resume (completed (json_norm (JObject kvs)) st) rest" by simp
qed

lemma depth_member: "v \<in> set vs \<Longrightarrow> depth v < depth (JArray vs)" "kv \<in> set kvs \<Longrightarrow> depth (snd kv) < depth (JObject kvs)"
  by (auto simp: less_Suc_eq_le intro!: fold_max_ge)

lemma reads_json:
  assumes "literals v" and "depth v + length st \<le> maxNestingDepth"
  shows "reads_text st v"
  using assms
proof (induction v arbitrary: st)
  case JNull
  show ?case by (rule reads_tokenI [of _ TNull]) (use next_token_words in \<open>simp_all add: value_step_def\<close>)
next
  case (JBool b)
  show ?case by (rule reads_tokenI [of _ "if b then TTrue else TFalse"]) (use next_token_words in \<open>simp_all add: value_step_def\<close>)
next
  case (JNumber l)
  then show ?case by (intro reads_tokenI [of _ "TNum l"]) (simp_all add: next_token_number value_step_def)
next
  case (JString s)
  show ?case by (rule reads_tokenI [of _ "TStr (to_valid s)"]) (simp_all add: next_token_string value_step_def)
next
  case (JArray vs)
  then have "reads_text (FArr acc # st) v" if "v \<in> set vs" for v acc
    using that depth_member(1) [OF that] by (intro JArray.IH) (auto simp: list_all_iff simp del: depth.simps)
  with JArray.prems show ?case by (intro reads_array) simp_all
next
  case (JObject kvs)
  then have "reads_text (FObj acc k # st) (snd kv)" if "kv \<in> set kvs" for kv acc k
    using that depth_member(2) [OF that]
    by (cases kv) (auto simp: list_all_iff simp del: depth.simps intro!: JObject.IH [OF that])
  with JObject.prems show ?case by (intro reads_object) simp_all
qed

text \<open>Unmarshalling the text of a value, with white space after it, gives the value back.\<close>

lemma unmarshal_text:
  assumes "literals v" and "depth v \<le> maxNestingDepth" and "list_all is_space r"
  shows "json_unmarshal (json_text v @ r) = Inr (json_norm v)"
proof -
  have "stops r" using assms(3) by (cases r) (auto simp: stops_def is_space_def is_digit_def)
  then have "parse_from MValue [] (json_text v @ r) = resume (completed (json_norm v) []) r"
    using reads_textD [OF reads_json, of v "[]" MValue r] assms(1,2) by simp
  then show ?thesis using assms(3) by (simp add: json_unmarshal_def resume_def parse_from.simps)
qed

lemma decode_text:
  assumes "literals v" and "depth v \<le> maxNestingDepth" and "stops r"
  shows "json_decode (json_text v @ r) = Inr (json_norm v)"
  using reads_textD [OF reads_json, of v "[]" MValue r] assms
  by (simp add: json_decode_def resume_def parse_from.simps [of "MDone _"])

subsection \<open>The text is one line\<close>

definition plain :: "string \<Rightarrow> bool" where
  "plain s \<longleftrightarrow> (\<forall>c \<in> set s. 0x20 \<le> byte c)"

lemma plain_simps [simp]: "plain []" "plain (s @ t) \<longleftrightarrow> plain s \<and> plain t" "plain (c # s) \<longleftrightarrow> 0x20 \<le> byte c \<and> plain s"
  by (auto simp: plain_def)

lemma plain_Join: "plain sep \<Longrightarrow> (\<And>s. s \<in> set ss \<Longrightarrow> plain s) \<Longrightarrow> plain (strings_Join ss sep)"
  using strings_Join_chars [of _ ss sep] by (fastforce simp: plain_def)

lemma plain_quote: "plain (quote_string s)"
  using escape_plain [of _ s] by (auto simp: quote_string_def plain_def) (simp_all add: dquote_def byte_def)

definition number_char :: "char \<Rightarrow> bool" where
  "number_char c \<longleftrightarrow> is_digit c \<or> c \<in> {CHR ''-'', CHR ''+'', CHR ''.'', CHR ''e'', CHR ''E''}"

lemma digits1_chars: "digits1 s = Some (l, r) \<Longrightarrow> list_all number_char l"
  by (auto simp: digits1_def list_all_iff number_char_def dest: set_takeWhileD split: if_splits)

lemma scan_chars:
  "scan_int s = Some (l, r) \<Longrightarrow> list_all number_char l"
  "scan_frac s = Some (l, r) \<Longrightarrow> list_all number_char l"
  "scan_exp s = Some (l, r) \<Longrightarrow> list_all number_char l"
  "scan_minus s = (l, r) \<Longrightarrow> list_all number_char l"
proof -
  have c: "number_char CHR ''0''" "number_char CHR ''.''" "number_char CHR ''e''" "number_char CHR ''E''"
    "number_char CHR ''+''" "number_char CHR ''-''"
    by (simp_all add: number_char_def is_digit_def)
  show "scan_int s = Some (l, r) \<Longrightarrow> list_all number_char l"
    using c digits1_chars by (auto simp: scan_int_def split: list.splits if_splits)
  show "scan_frac s = Some (l, r) \<Longrightarrow> list_all number_char l"
    using c digits1_chars by (auto simp: scan_frac_def split: list.splits if_splits)
  show "scan_exp s = Some (l, r) \<Longrightarrow> list_all number_char l"
    using c digits1_chars by (auto simp: scan_exp_def scan_sign_def split: list.splits if_splits)
  show "scan_minus s = (l, r) \<Longrightarrow> list_all number_char l"
    using c by (auto simp: scan_minus_def split: list.splits if_splits)
qed

lemma number_chars: "scan_number s = Some (l, r) \<Longrightarrow> list_all number_char l"
  using scan_chars by (auto simp: scan_number_def split: prod.splits bind_splits)

lemma plain_literal: "is_literal l \<Longrightarrow> plain l"
  using number_chars [of l l "[]"]
  by (auto simp: is_literal_def plain_def list_all_iff number_char_def is_digit_def byte_def dest!: bspec)

lemma plain_text: "literals v \<Longrightarrow> plain (json_text v)"
proof (induction v)
  case (JObject kvs)
  then have "plain (member_text kv)" if "kv \<in> set kvs" for kv
    using that plain_quote by (cases kv) (auto simp: list_all_iff byte_def)
  then show ?case by (auto simp: byte_def intro!: plain_Join)
qed (auto simp: byte_def plain_quote plain_literal list_all_iff intro!: plain_Join)

end
