(* ===== verification/Json.thy ===== *)
theory Json
  imports JsonText GoError
begin

text \<open>
  The rules by which \<^verbatim>\<open>encoding/json\<close> turns Go values into JSON values and fills Go structs from
  them: a field is found by its name, else by its name up to case; an unknown key is ignored, or an
  error when unknown fields are disallowed; null leaves a scalar as it is; a later occurrence of a
  key overwrites an earlier one; a value of the wrong type is an error, as is an integer literal
  with a fraction or an exponent, or outside the 64-bit range.
\<close>

subsection \<open>Encoding scalars\<close>

definition marshal_int :: "goint \<Rightarrow> json" where
  "marshal_int n = JNumber (itoa n)"

text \<open>Infinities and NaN are not encodable.\<close>

definition marshal_float :: "float64 \<Rightarrow> string + json" where
  "marshal_float f = (case f of
      Fin q \<Rightarrow> Inr (JNumber (format_float q))
    | _ \<Rightarrow> Inl ''json: unsupported value'')"

text \<open>The \<^verbatim>\<open>omitempty\<close> option: the field is left out when its value is empty.\<close>

definition omitempty :: "bool \<Rightarrow> string \<Rightarrow> json \<Rightarrow> (string \<times> json) list" where
  "omitempty is_empty name v = (if is_empty then [] else [(name, v)])"

subsection \<open>Decoding\<close>

definition lower :: "char \<Rightarrow> char" where
  "lower c = (let n = (of_char c :: nat) in if 65 \<le> n \<and> n \<le> 90 then char_of (n + 32) else c)"

text \<open>Names up to case, with the two letters outside ASCII that fold into it.\<close>

fun foldName :: "string \<Rightarrow> string" where
  "foldName (c # d # s) = (if c = CHR 0xC5 \<and> d = CHR 0xBF then CHR ''s'' # foldName s
     else (case s of
         e # r \<Rightarrow> if c = CHR 0xE2 \<and> d = CHR 0x84 \<and> e = CHR 0xAA then CHR ''k'' # foldName r
           else lower c # foldName (d # s)
       | [] \<Rightarrow> lower c # foldName (d # s)))"
| "foldName [c] = [lower c]"
| "foldName [] = []"

definition field_of :: "string list \<Rightarrow> string \<Rightarrow> string option" where
  "field_of names k = (if k \<in> set names then Some k else find (\<lambda>n. foldName n = foldName k) names)"

text \<open>Decoding an object into a struct: \<open>put\<close> decodes one value into the field of that name.\<close>

primrec dec_members :: "bool \<Rightarrow> string list \<Rightarrow> (string \<Rightarrow> json \<Rightarrow> 'r \<Rightarrow> 'r option) \<Rightarrow> (string \<times> json) list \<Rightarrow> 'r \<Rightarrow> 'r option" where
  "dec_members strict names put [] r = Some r"
| "dec_members strict names put (kv # kvs) r = (case field_of names (fst kv) of
     None \<Rightarrow> if strict then None else dec_members strict names put kvs r
   | Some f \<Rightarrow> Option.bind (put f (snd kv) r) (dec_members strict names put kvs))"

definition dec_object :: "bool \<Rightarrow> string list \<Rightarrow> (string \<Rightarrow> json \<Rightarrow> 'r \<Rightarrow> 'r option) \<Rightarrow> json \<Rightarrow> 'r \<Rightarrow> 'r option" where
  "dec_object strict names put v r = (case v of
     JNull \<Rightarrow> Some r | JObject kvs \<Rightarrow> dec_members strict names put kvs r | _ \<Rightarrow> None)"

abbreviation dec_fields :: "string list \<Rightarrow> (string \<Rightarrow> json \<Rightarrow> 'r \<Rightarrow> 'r option) \<Rightarrow> (string \<times> json) list \<Rightarrow> 'r \<Rightarrow> 'r option" where
  "dec_fields \<equiv> dec_members False"

abbreviation dec_struct :: "string list \<Rightarrow> (string \<Rightarrow> json \<Rightarrow> 'r \<Rightarrow> 'r option) \<Rightarrow> json \<Rightarrow> 'r \<Rightarrow> 'r option" where
  "dec_struct \<equiv> dec_object False"

definition dec_string :: "json \<Rightarrow> string \<Rightarrow> string option" where
  "dec_string v old = (case v of JNull \<Rightarrow> Some old | JString s \<Rightarrow> Some s | _ \<Rightarrow> None)"

definition dec_bool :: "json \<Rightarrow> bool \<Rightarrow> bool option" where
  "dec_bool v old = (case v of JNull \<Rightarrow> Some old | JBool b \<Rightarrow> Some b | _ \<Rightarrow> None)"

definition dec_int :: "json \<Rightarrow> goint \<Rightarrow> goint option" where
  "dec_int v old = (case v of JNull \<Rightarrow> Some old | JNumber s \<Rightarrow> parse_int s | _ \<Rightarrow> None)"

definition dec_float :: "json \<Rightarrow> float64 \<Rightarrow> float64 option" where
  "dec_float v old = (case v of JNull \<Rightarrow> Some old | JNumber s \<Rightarrow> parse_float s | _ \<Rightarrow> None)"

text \<open>
  A slice: null empties it; an array is decoded over the elements the slice has, and beyond them
  into zero values. (Elements that an earlier occurrence of the key left in the capacity of a
  slice after shortening it are not modelled.)
\<close>

fun dec_elems :: "(json \<Rightarrow> 'r \<Rightarrow> 'r option) \<Rightarrow> 'r \<Rightarrow> 'r list \<Rightarrow> json list \<Rightarrow> 'r list option" where
  "dec_elems el zero old [] = Some []"
| "dec_elems el zero [] (v # vs) = Option.bind (el v zero) (\<lambda>x. map_option (Cons x) (dec_elems el zero [] vs))"
| "dec_elems el zero (r # old) (v # vs) = Option.bind (el v r) (\<lambda>x. map_option (Cons x) (dec_elems el zero old vs))"

definition dec_list :: "(json \<Rightarrow> 'r \<Rightarrow> 'r option) \<Rightarrow> 'r \<Rightarrow> json \<Rightarrow> 'r list \<Rightarrow> 'r list option" where
  "dec_list el zero v old = (case v of JNull \<Rightarrow> Some [] | JArray vs \<Rightarrow> dec_elems el zero old vs | _ \<Rightarrow> None)"

text \<open>A pointer to a struct: null clears it, an object is decoded into the struct it points to.\<close>

definition dec_ptr :: "'r \<Rightarrow> (json \<Rightarrow> 'r \<Rightarrow> 'r option) \<Rightarrow> json \<Rightarrow> 'r option \<Rightarrow> 'r option option" where
  "dec_ptr zero d v old = (case v of JNull \<Rightarrow> Some None
     | _ \<Rightarrow> map_option Some (d v (case old of None \<Rightarrow> zero | Some r \<Rightarrow> r)))"

subsection \<open>Round trips\<close>

lemma dec_fields_simps:
  "dec_fields names put (kvs @ kvs') r = Option.bind (dec_fields names put kvs r) (dec_fields names put kvs')"
  by (induction kvs arbitrary: r) (auto split: option.splits bind_splits)

lemma field_of_known [simp]: "k \<in> set names \<Longrightarrow> field_of names k = Some k"
  by (simp add: field_of_def)

lemma dec_elems_map:
  "(\<And>x. x \<in> set xs \<Longrightarrow> el (f x) zero = Some x) \<Longrightarrow> dec_elems el zero [] (map f xs) = Some xs"
  by (induction xs) auto

lemma dec_int_marshal [simp]: "in_int64 n \<Longrightarrow> dec_int (marshal_int n) old = Some n"
  by (simp add: dec_int_def marshal_int_def parse_int_itoa)

lemma dec_float_marshal:
  assumes "is_double f"
  obtains v where "marshal_float f = Inr v" and "\<And>old. dec_float v old = Some f"
proof -
  obtain q where q: "f = Fin q" "fl q = Fin q" using assms by (cases f) (auto simp: is_double_def)
  with format_float_ok [OF q(2)] show thesis
    by (intro that [of "JNumber (format_float q)"]) (simp_all add: marshal_float_def dec_float_def)
qed

text \<open>Values that read back as themselves: number literals, well-formed strings, a bounded depth.\<close>

fun good_json :: "json \<Rightarrow> bool" where
  "good_json (JNumber s) = is_literal s"
| "good_json (JString s) = valid_utf8 s"
| "good_json (JArray vs) = list_all good_json vs"
| "good_json (JObject kvs) = list_all (\<lambda>kv. valid_utf8 (fst kv) \<and> good_json (snd kv)) kvs"
| "good_json _ = True"

lemma good_json_norm: "good_json v \<Longrightarrow> json_norm v = v \<and> literals v"
proof (induction v)
  case (JArray vs)
  then show ?case by (auto simp: list_all_iff intro: map_idI)
next
  case (JObject kvs)
  then have "json_norm (snd kv) = snd kv \<and> literals (snd kv)" if "kv \<in> set kvs" for kv
    using that by (cases kv) (auto simp: list_all_iff)
  with JObject.prems show ?case by (auto simp: list_all_iff to_valid_id intro!: map_idI)
qed (simp_all add: to_valid_id)

lemma unmarshal_good:
  assumes "good_json v" and "depth v \<le> maxNestingDepth" and "list_all is_space r"
  shows "json_unmarshal (json_text v @ r) = Inr v"
  using unmarshal_text [OF _ assms(2,3)] good_json_norm [OF assms(1)] by simp

lemma good_marshal_int [simp]: "good_json (marshal_int n)"
  by (simp add: marshal_int_def is_literal_itoa)

lemma good_marshal_float: "is_double f \<Longrightarrow> marshal_float f = Inr v \<Longrightarrow> good_json v"
  using format_float_ok by (auto simp: marshal_float_def is_double_def split: float64.splits)

lemma depth_scalar [simp]: "depth (marshal_int n) = 0" "marshal_float f = Inr v \<Longrightarrow> depth v = 0"
  by (auto simp: marshal_int_def marshal_float_def split: float64.splits)

lemma depth_le:
  "(\<And>v. v \<in> set vs \<Longrightarrow> depth v \<le> n) \<Longrightarrow> depth (JArray vs) \<le> Suc n"
  "(\<And>kv. kv \<in> set kvs \<Longrightarrow> depth (snd kv) \<le> n) \<Longrightarrow> depth (JObject kvs) \<le> Suc n"
proof -
  have fold: "fold max xs a \<le> b" if "\<And>x. x \<in> set xs \<Longrightarrow> x \<le> b" "a \<le> b" for xs and a b :: nat
    using that by (induction xs arbitrary: a) auto
  show "(\<And>v. v \<in> set vs \<Longrightarrow> depth v \<le> n) \<Longrightarrow> depth (JArray vs) \<le> Suc n"
    "(\<And>kv. kv \<in> set kvs \<Longrightarrow> depth (snd kv) \<le> n) \<Longrightarrow> depth (JObject kvs) \<le> Suc n"
    by (auto intro!: fold)
qed

lemma valid_key: "list_all (\<lambda>c. of_char c < (128 :: nat)) s \<Longrightarrow> valid_utf8 s"
  by (rule valid_ascii) (simp add: list_all_iff byte_def)

end
