(* ===== verification/ConfigJson.thy ===== *)
theory ConfigJson
  imports Config Json
begin

text \<open>
  The decoding step of \<open>Load\<close>: \<^verbatim>\<open>json.NewDecoder\<close> with \<^verbatim>\<open>DisallowUnknownFields\<close> fills a zero
  \<open>Config\<close> by the struct tags of \<^verbatim>\<open>internal/config/config.go\<close>. It reads the first value of the file;
  what follows it is not looked at. Embedded parameters lend their fields to the struct around
  them.
\<close>

subsection \<open>Decoders\<close>

abbreviation dec_strict :: "string list \<Rightarrow> (string \<Rightarrow> json \<Rightarrow> 'r \<Rightarrow> 'r option) \<Rightarrow> json \<Rightarrow> 'r \<Rightarrow> 'r option" where
  "dec_strict \<equiv> dec_object True"

definition dec_strings :: "json \<Rightarrow> string list \<Rightarrow> string list option" where
  "dec_strings = dec_list dec_string ''''"

text \<open>An object decoded into a map: each key holds a value decoded from zero; null empties the map.\<close>

primrec dec_entries :: "(json \<Rightarrow> 'r \<Rightarrow> 'r option) \<Rightarrow> 'r \<Rightarrow> (string \<times> json) list \<Rightarrow> (string \<rightharpoonup> 'r) \<Rightarrow> (string \<rightharpoonup> 'r) option" where
  "dec_entries el zero [] m = Some m"
| "dec_entries el zero (kv # kvs) m = Option.bind (el (snd kv) zero) (\<lambda>x. dec_entries el zero kvs (m(fst kv \<mapsto> x)))"

definition dec_map :: "(json \<Rightarrow> 'r \<Rightarrow> 'r option) \<Rightarrow> 'r \<Rightarrow> json \<Rightarrow> (string \<rightharpoonup> 'r) \<Rightarrow> (string \<rightharpoonup> 'r) option" where
  "dec_map el zero v old = (case v of JNull \<Rightarrow> Some Map.empty | JObject kvs \<Rightarrow> dec_entries el zero kvs old | _ \<Rightarrow> None)"

definition put_retry :: "string \<Rightarrow> json \<Rightarrow> Retry \<Rightarrow> Retry option" where
  "put_retry f v r = (
     if f = ''max_attempts'' then map_option (\<lambda>x. r\<lparr>rt_MaxAttempts := x\<rparr>) (dec_int v (rt_MaxAttempts r))
     else map_option (\<lambda>x. r\<lparr>rt_BaseDelayMS := x\<rparr>) (dec_int v (rt_BaseDelayMS r)))"

definition put_channel :: "string \<Rightarrow> json \<Rightarrow> Channel \<Rightarrow> Channel option" where
  "put_channel f v c = (
     if f = ''type'' then map_option (\<lambda>x. c\<lparr>ch_Type := x\<rparr>) (dec_string v (ch_Type c))
     else if f = ''url'' then map_option (\<lambda>x. c\<lparr>ch_URL := x\<rparr>) (dec_string v (ch_URL c))
     else if f = ''smtp_host'' then map_option (\<lambda>x. c\<lparr>ch_SMTPHost := x\<rparr>) (dec_string v (ch_SMTPHost c))
     else if f = ''port'' then map_option (\<lambda>x. c\<lparr>ch_Port := x\<rparr>) (dec_int v (ch_Port c))
     else if f = ''from'' then map_option (\<lambda>x. c\<lparr>ch_From := x\<rparr>) (dec_string v (ch_From c))
     else if f = ''to'' then map_option (\<lambda>x. c\<lparr>ch_To := x\<rparr>) (dec_strings v (ch_To c))
     else if f = ''base_url'' then map_option (\<lambda>x. c\<lparr>ch_BaseURL := x\<rparr>) (dec_string v (ch_BaseURL c))
     else if f = ''recipients'' then map_option (\<lambda>x. c\<lparr>ch_Recipients := x\<rparr>) (dec_strings v (ch_Recipients c))
     else if f = ''username'' then map_option (\<lambda>x. c\<lparr>ch_Username := x\<rparr>) (dec_string v (ch_Username c))
     else if f = ''password_env'' then map_option (\<lambda>x. c\<lparr>ch_PasswordEnv := x\<rparr>) (dec_string v (ch_PasswordEnv c))
     else map_option (\<lambda>x. c\<lparr>ch_TimeoutMS := x\<rparr>) (dec_int v (ch_TimeoutMS c)))"

definition put_pong :: "string \<Rightarrow> json \<Rightarrow> PongServer \<Rightarrow> PongServer option" where
  "put_pong f v p = (
     if f = ''enabled'' then map_option (\<lambda>x. p\<lparr>ps_Enabled := x\<rparr>) (dec_bool v (ps_Enabled p))
     else if f = ''listen'' then map_option (\<lambda>x. p\<lparr>ps_Listen := x\<rparr>) (dec_string v (ps_Listen p))
     else map_option (\<lambda>x. p\<lparr>ps_ReadTimeoutMS := x\<rparr>) (dec_int v (ps_ReadTimeoutMS p)))"

definition put_params :: "string \<Rightarrow> json \<Rightarrow> MonitorParams \<Rightarrow> MonitorParams option" where
  "put_params f v p = (
     if f = ''interval_s'' then map_option (\<lambda>x. p\<lparr>mp_IntervalS := x\<rparr>) (dec_int v (mp_IntervalS p))
     else if f = ''timeout_ms'' then map_option (\<lambda>x. p\<lparr>mp_TimeoutMS := x\<rparr>) (dec_int v (mp_TimeoutMS p))
     else if f = ''failure_threshold'' then map_option (\<lambda>x. p\<lparr>mp_FailureThreshold := x\<rparr>) (dec_int v (mp_FailureThreshold p))
     else if f = ''trigger'' then map_option (\<lambda>x. p\<lparr>mp_Trigger := x\<rparr>) (dec_string v (mp_Trigger p))
     else if f = ''window_size'' then map_option (\<lambda>x. p\<lparr>mp_WindowSize := x\<rparr>) (dec_int v (mp_WindowSize p))
     else if f = ''min_availability'' then map_option (\<lambda>x. p\<lparr>mp_MinAvailability := x\<rparr>) (dec_float v (mp_MinAvailability p))
     else if f = ''notify'' then map_option (\<lambda>x. p\<lparr>mp_Notify := x\<rparr>) (dec_strings v (mp_Notify p))
     else map_option (\<lambda>x. p\<lparr>mp_InsecureSkipVerify := x\<rparr>) (dec_bool v (mp_InsecureSkipVerify p)))"

definition param_fields :: "string list" where
  "param_fields = [''interval_s'', ''timeout_ms'', ''failure_threshold'', ''trigger'', ''window_size'', ''min_availability'',
     ''notify'', ''insecure_skip_verify'']"

definition put_profile :: "string \<Rightarrow> json \<Rightarrow> Profile \<Rightarrow> Profile option" where
  "put_profile f v p = map_option (\<lambda>x. p\<lparr>pf_MonitorParams := x\<rparr>) (put_params f v (pf_MonitorParams p))"

definition put_ping_target :: "string \<Rightarrow> json \<Rightarrow> PingTarget \<Rightarrow> PingTarget option" where
  "put_ping_target f v t = (
     if f = ''target'' then map_option (\<lambda>x. t\<lparr>pt_Target := x\<rparr>) (dec_string v (pt_Target t))
     else if f = ''profile'' then map_option (\<lambda>x. t\<lparr>pt_Profile := x\<rparr>) (dec_string v (pt_Profile t))
     else map_option (\<lambda>x. t\<lparr>pt_MonitorParams := x\<rparr>) (put_params f v (pt_MonitorParams t)))"

definition put_url_target :: "string \<Rightarrow> json \<Rightarrow> URLTarget \<Rightarrow> URLTarget option" where
  "put_url_target f v t = (
     if f = ''url'' then map_option (\<lambda>x. t\<lparr>ut_URL := x\<rparr>) (dec_string v (ut_URL t))
     else if f = ''profile'' then map_option (\<lambda>x. t\<lparr>ut_Profile := x\<rparr>) (dec_string v (ut_Profile t))
     else map_option (\<lambda>x. t\<lparr>ut_MonitorParams := x\<rparr>) (put_params f v (ut_MonitorParams t)))"

definition dec_ping_target :: "json \<Rightarrow> PingTarget \<Rightarrow> PingTarget option" where
  "dec_ping_target = dec_strict ([''target'', ''profile''] @ param_fields) put_ping_target"

definition dec_url_target :: "json \<Rightarrow> URLTarget \<Rightarrow> URLTarget option" where
  "dec_url_target = dec_strict ([''url'', ''profile''] @ param_fields) put_url_target"

definition put_ping_monitor :: "string \<Rightarrow> json \<Rightarrow> PingMonitor \<Rightarrow> PingMonitor option" where
  "put_ping_monitor f v p = (
     if f = ''enabled'' then map_option (\<lambda>x. p\<lparr>pm_Enabled := x\<rparr>) (dec_bool v (pm_Enabled p))
     else if f = ''default_profile'' then map_option (\<lambda>x. p\<lparr>pm_DefaultProfile := x\<rparr>) (dec_string v (pm_DefaultProfile p))
     else map_option (\<lambda>x. p\<lparr>pm_Targets := x\<rparr>) (dec_list dec_ping_target
       \<lparr>pt_Target = '''', pt_Profile = '''', pt_MonitorParams = zeroParams\<rparr> v (pm_Targets p)))"

definition put_url_monitor :: "string \<Rightarrow> json \<Rightarrow> URLMonitor \<Rightarrow> URLMonitor option" where
  "put_url_monitor f v p = (
     if f = ''enabled'' then map_option (\<lambda>x. p\<lparr>um_Enabled := x\<rparr>) (dec_bool v (um_Enabled p))
     else if f = ''default_profile'' then map_option (\<lambda>x. p\<lparr>um_DefaultProfile := x\<rparr>) (dec_string v (um_DefaultProfile p))
     else map_option (\<lambda>x. p\<lparr>um_Targets := x\<rparr>) (dec_list dec_url_target
       \<lparr>ut_URL = '''', ut_Profile = '''', ut_MonitorParams = zeroParams\<rparr> v (um_Targets p)))"

definition put_internet :: "string \<Rightarrow> json \<Rightarrow> InternetCheck \<Rightarrow> InternetCheck option" where
  "put_internet f v i = (
     if f = ''enabled'' then map_option (\<lambda>x. i\<lparr>ic_Enabled := x\<rparr>) (dec_bool v (ic_Enabled i))
     else if f = ''sites'' then map_option (\<lambda>x. i\<lparr>ic_Sites := x\<rparr>) (dec_strings v (ic_Sites i))
     else if f = ''interval_s'' then map_option (\<lambda>x. i\<lparr>ic_IntervalS := x\<rparr>) (dec_int v (ic_IntervalS i))
     else if f = ''timeout_ms'' then map_option (\<lambda>x. i\<lparr>ic_TimeoutMS := x\<rparr>) (dec_int v (ic_TimeoutMS i))
     else if f = ''failure_threshold'' then map_option (\<lambda>x. i\<lparr>ic_FailureThreshold := x\<rparr>) (dec_int v (ic_FailureThreshold i))
     else if f = ''trigger'' then map_option (\<lambda>x. i\<lparr>ic_Trigger := x\<rparr>) (dec_string v (ic_Trigger i))
     else if f = ''window_size'' then map_option (\<lambda>x. i\<lparr>ic_WindowSize := x\<rparr>) (dec_int v (ic_WindowSize i))
     else if f = ''min_availability'' then map_option (\<lambda>x. i\<lparr>ic_MinAvailability := x\<rparr>) (dec_float v (ic_MinAvailability i))
     else if f = ''notify'' then map_option (\<lambda>x. i\<lparr>ic_Notify := x\<rparr>) (dec_strings v (ic_Notify i))
     else map_option (\<lambda>x. i\<lparr>ic_InsecureSkipVerify := x\<rparr>) (dec_bool v (ic_InsecureSkipVerify i)))"

definition put_speedcheck :: "string \<Rightarrow> json \<Rightarrow> SpeedCheck \<Rightarrow> SpeedCheck option" where
  "put_speedcheck f v i = (
     if f = ''enabled'' then map_option (\<lambda>x. i\<lparr>sc_Enabled := x\<rparr>) (dec_bool v (sc_Enabled i))
     else if f = ''interval_s'' then map_option (\<lambda>x. i\<lparr>sc_IntervalS := x\<rparr>) (dec_int v (sc_IntervalS i))
     else if f = ''threshold_mbps'' then map_option (\<lambda>x. i\<lparr>sc_ThresholdMbps := x\<rparr>) (dec_float v (sc_ThresholdMbps i))
     else if f = ''binary'' then map_option (\<lambda>x. i\<lparr>sc_Binary := x\<rparr>) (dec_string v (sc_Binary i))
     else if f = ''failure_threshold'' then map_option (\<lambda>x. i\<lparr>sc_FailureThreshold := x\<rparr>) (dec_int v (sc_FailureThreshold i))
     else if f = ''trigger'' then map_option (\<lambda>x. i\<lparr>sc_Trigger := x\<rparr>) (dec_string v (sc_Trigger i))
     else if f = ''window_size'' then map_option (\<lambda>x. i\<lparr>sc_WindowSize := x\<rparr>) (dec_int v (sc_WindowSize i))
     else if f = ''min_availability'' then map_option (\<lambda>x. i\<lparr>sc_MinAvailability := x\<rparr>) (dec_float v (sc_MinAvailability i))
     else map_option (\<lambda>x. i\<lparr>sc_Notify := x\<rparr>) (dec_strings v (sc_Notify i)))"

definition dec_pong :: "json \<Rightarrow> PongServer \<Rightarrow> PongServer option" where
  "dec_pong = dec_strict [''enabled'', ''listen'', ''read_timeout_ms''] put_pong"

definition dec_ping_monitor :: "json \<Rightarrow> PingMonitor \<Rightarrow> PingMonitor option" where
  "dec_ping_monitor = dec_strict [''enabled'', ''default_profile'', ''targets''] put_ping_monitor"

definition dec_url_monitor :: "json \<Rightarrow> URLMonitor \<Rightarrow> URLMonitor option" where
  "dec_url_monitor = dec_strict [''enabled'', ''default_profile'', ''targets''] put_url_monitor"

definition dec_internet :: "json \<Rightarrow> InternetCheck \<Rightarrow> InternetCheck option" where
  "dec_internet = dec_strict [''enabled'', ''sites'', ''interval_s'', ''timeout_ms'', ''failure_threshold'', ''trigger'',
     ''window_size'', ''min_availability'', ''notify'', ''insecure_skip_verify''] put_internet"

definition dec_speedcheck :: "json \<Rightarrow> SpeedCheck \<Rightarrow> SpeedCheck option" where
  "dec_speedcheck = dec_strict [''enabled'', ''interval_s'', ''threshold_mbps'', ''binary'', ''failure_threshold'', ''trigger'',
     ''window_size'', ''min_availability'', ''notify''] put_speedcheck"

definition put_roles :: "string \<Rightarrow> json \<Rightarrow> Roles \<Rightarrow> Roles option" where
  "put_roles f v r = (
     if f = ''pong_server'' then map_option (\<lambda>x. r\<lparr>ro_PongServer := x\<rparr>) (dec_pong v (ro_PongServer r))
     else if f = ''ping_monitor'' then map_option (\<lambda>x. r\<lparr>ro_PingMonitor := x\<rparr>) (dec_ping_monitor v (ro_PingMonitor r))
     else if f = ''url_monitor'' then map_option (\<lambda>x. r\<lparr>ro_URLMonitor := x\<rparr>) (dec_url_monitor v (ro_URLMonitor r))
     else if f = ''internet_check'' then map_option (\<lambda>x. r\<lparr>ro_InternetCheck := x\<rparr>) (dec_internet v (ro_InternetCheck r))
     else map_option (\<lambda>x. r\<lparr>ro_SpeedCheck := x\<rparr>) (dec_speedcheck v (ro_SpeedCheck r)))"

definition dec_roles :: "json \<Rightarrow> Roles \<Rightarrow> Roles option" where
  "dec_roles = dec_strict [''pong_server'', ''ping_monitor'', ''url_monitor'', ''internet_check'', ''speed_check''] put_roles"

definition dec_retry :: "json \<Rightarrow> Retry \<Rightarrow> Retry option" where
  "dec_retry = dec_strict [''max_attempts'', ''base_delay_ms''] put_retry"

definition dec_profile :: "json \<Rightarrow> Profile \<Rightarrow> Profile option" where
  "dec_profile = dec_strict param_fields put_profile"

definition dec_channel :: "json \<Rightarrow> Channel \<Rightarrow> Channel option" where
  "dec_channel = dec_strict [''type'', ''url'', ''smtp_host'', ''port'', ''from'', ''to'', ''base_url'', ''recipients'',
     ''username'', ''password_env'', ''timeout_ms''] put_channel"

definition zeroChannel :: Channel where
  "zeroChannel = \<lparr>ch_Type = '''', ch_URL = '''', ch_SMTPHost = '''', ch_Port = 0, ch_From = '''', ch_To = [], ch_BaseURL = '''',
     ch_Recipients = [], ch_Username = '''', ch_PasswordEnv = '''', ch_TimeoutMS = 0\<rparr>"

definition put_config :: "string \<Rightarrow> json \<Rightarrow> Config \<Rightarrow> Config option" where
  "put_config f v c = (
     if f = ''retry'' then map_option (\<lambda>x. c\<lparr>c_Retry := x\<rparr>) (dec_retry v (c_Retry c))
     else if f = ''summary_interval_s'' then map_option (\<lambda>x. c\<lparr>c_SummaryIntervalS := x\<rparr>) (dec_int v (c_SummaryIntervalS c))
     else if f = ''profiles'' then map_option (\<lambda>x. c\<lparr>c_Profiles := x\<rparr>) (dec_map dec_profile \<lparr>pf_MonitorParams = zeroParams\<rparr> v (c_Profiles c))
     else if f = ''channels'' then map_option (\<lambda>x. c\<lparr>c_Channels := x\<rparr>) (dec_map dec_channel zeroChannel v (c_Channels c))
     else map_option (\<lambda>x. c\<lparr>c_Roles := x\<rparr>) (dec_roles v (c_Roles c)))"

definition dec_config :: "json \<Rightarrow> Config \<Rightarrow> Config option" where
  "dec_config = dec_strict [''retry'', ''summary_interval_s'', ''profiles'', ''channels'', ''roles''] put_config"

definition zeroConfig :: Config where
  "zeroConfig = \<lparr>
     c_Retry = \<lparr>rt_MaxAttempts = 0, rt_BaseDelayMS = 0\<rparr>, c_SummaryIntervalS = 0,
     c_Profiles = Map.empty, c_Channels = Map.empty,
     c_Roles = \<lparr>
       ro_PongServer = \<lparr>ps_Enabled = False, ps_Listen = '''', ps_ReadTimeoutMS = 0\<rparr>,
       ro_PingMonitor = \<lparr>pm_Enabled = False, pm_DefaultProfile = '''', pm_Targets = []\<rparr>,
       ro_URLMonitor = \<lparr>um_Enabled = False, um_DefaultProfile = '''', um_Targets = []\<rparr>,
       ro_InternetCheck = \<lparr>ic_Enabled = False, ic_Sites = [], ic_IntervalS = 0, ic_TimeoutMS = 0,
         ic_FailureThreshold = 0, ic_Trigger = '''', ic_WindowSize = 0, ic_MinAvailability = Fin 0,
         ic_Notify = [], ic_InsecureSkipVerify = False\<rparr>,
       ro_SpeedCheck = \<lparr>sc_Enabled = False, sc_IntervalS = 0, sc_ThresholdMbps = Fin 0, sc_Binary = '''',
         sc_FailureThreshold = 0, sc_Trigger = '''', sc_WindowSize = 0, sc_MinAvailability = Fin 0,
         sc_Notify = []\<rparr>\<rparr>\<rparr>"

definition decode_config :: "string \<Rightarrow> string + Config" where
  "decode_config data = (case json_decode data of
      Inl err \<Rightarrow> Inl err
    | Inr v \<Rightarrow> (case dec_config v zeroConfig of None \<Rightarrow> Inl ''json: cannot decode'' | Some c \<Rightarrow> Inr c))"

lemma decode_config_text:
  assumes "good_json v" and "depth v \<le> maxNestingDepth" and "dec_config v zeroConfig = Some c"
  shows "decode_config (json_text v) = Inr c"
  using decode_text [of v "[]"] good_json_norm [OF assms(1)] assms(2,3)
  by (simp add: decode_config_def stops_def)

subsection \<open>The loader\<close>

text \<open>
  \<open>file\<close> is the outcome of \<^verbatim>\<open>os.ReadFile\<close>; \<open>ord\<close> and \<open>ord'\<close> are the visiting orders of the two
  loops over the channels.
\<close>

definition Load :: "string list \<Rightarrow> string list \<Rightarrow> string + string \<Rightarrow> ConfigError + Config" where
  "Load ord ord' file = (case file of
      Inl err \<Rightarrow> Inl (ReadConfig err)
    | Inr data \<Rightarrow> (case decode_config data of
        Inl err \<Rightarrow> Inl (ParseConfig err)
      | Inr c \<Rightarrow> Load_decoded ord ord' c))"

end
