(* ===== verification/ConfigSpec.thy ===== *)
theory ConfigSpec
  imports ConfigJson
begin

text \<open>
  What the configuration loader promises: the effective value of every setting is the first one
  that is set among the target, its profile and the default; exactly the well-formed
  configurations are accepted, whatever order the loops over the channels visit; loading is
  stable under repetition.
\<close>

subsection \<open>Effective values\<close>

definition pick :: "'a \<Rightarrow> 'a list \<Rightarrow> 'a" where
  "pick unset xs = (case filter (\<lambda>x. x \<noteq> unset) xs of [] \<Rightarrow> unset | x # _ \<Rightarrow> x)"

lemma pick_simps [simp]:
  "pick z [] = z" "pick z (x # xs) = (if x = z then pick z xs else x)"
  by (simp_all add: pick_def)

text \<open>The parameters a target inherits from: its own profile, else the role's default, else none.\<close>

definition profile_params :: "(string \<rightharpoonup> Profile) \<Rightarrow> string \<Rightarrow> string \<Rightarrow> MonitorParams" where
  "profile_params profiles own dflt =
     (case profiles (pick '''' [own, dflt]) of
        Some p \<Rightarrow> if pick '''' [own, dflt] = '''' then zeroParams else pf_MonitorParams p
      | None \<Rightarrow> zeroParams)"

definition effective :: "MonitorParams \<Rightarrow> MonitorParams \<Rightarrow> MonitorParams" where
  "effective p src = \<lparr>
     mp_IntervalS = pick 0 [mp_IntervalS p, mp_IntervalS src],
     mp_TimeoutMS = pick 0 [mp_TimeoutMS p, mp_TimeoutMS src],
     mp_FailureThreshold = pick 0 [mp_FailureThreshold p, mp_FailureThreshold src, 1],
     mp_Trigger = pick '''' [mp_Trigger p, mp_Trigger src, ''consecutive''],
     mp_WindowSize = pick 0 [mp_WindowSize p, mp_WindowSize src, 20],
     mp_MinAvailability = pick (Fin 0) [mp_MinAvailability p, mp_MinAvailability src],
     mp_Notify = pick [] [mp_Notify p, mp_Notify src],
     mp_InsecureSkipVerify = (mp_InsecureSkipVerify p \<or> mp_InsecureSkipVerify src)\<rparr>"

lemma fl_eq_zero [simp]: "fl_eq x (Fin 0) \<longleftrightarrow> x = Fin 0"
  by (cases x) (simp_all add: fl_eq_def)

lemma go_len_zero [simp]: "go_len xs = 0 \<longleftrightarrow> xs = []"
  by (simp add: go_len_def)

lemma inheritFrom_zero: "inheritFrom p zeroParams = p"
  by (simp add: inheritFrom_def zeroParams_def Let_def)

lemma defaults_inherit: "applyParamDefaults (inheritFrom p src) = effective p src"
  unfolding inheritFrom_def Let_def applyParamDefaults_def applyTriggerDefaults_def effective_def
  by (rule MonitorParams.equality) (simp_all add: cfg_consts)

lemma effective_idem: "effective (effective p src) src = effective p src"
  by (rule MonitorParams.equality) (simp_all add: effective_def)

lemma resolveProfileRef_Inr:
  "resolveProfileRef profiles dflt r = Inr q \<longleftrightarrow>
    (pick '''' [pr_profile r, dflt] = '''' \<or> profiles (pick '''' [pr_profile r, dflt]) \<noteq> None)
    \<and> q = inheritFrom (pr_params r) (profile_params profiles (pr_profile r) dflt)"
  by (auto simp: resolveProfileRef_def profile_params_def Let_def inheritFrom_zero split: option.splits)

subsection \<open>Channel defaults\<close>

definition iterates :: "'k list \<Rightarrow> ('k \<rightharpoonup> 'v) \<Rightarrow> bool" where
  "iterates ord m \<longleftrightarrow> distinct ord \<and> set ord = dom m"

definition with_timeout :: "Channel \<Rightarrow> Channel" where
  "with_timeout ch = (if ch_Type ch \<in> {''webhook'', ''smsgate''}
     then ch\<lparr>ch_TimeoutMS := pick 0 [ch_TimeoutMS ch, 5000]\<rparr> else ch)"

lemma channelDefault_eq:
  "channelDefault name chs = (\<lambda>n. if n = name then map_option with_timeout (chs n) else chs n)"
  by (auto simp: channelDefault_def with_timeout_def cfg_consts fun_eq_iff split: option.splits)

lemma with_timeout_idem [simp]: "with_timeout (with_timeout ch) = with_timeout ch"
  by (simp add: with_timeout_def)

lemma fold_channelDefault:
  "fold channelDefault ord chs = (\<lambda>n. if n \<in> set ord then map_option with_timeout (chs n) else chs n)"
  by (induction ord arbitrary: chs)
    (auto simp: channelDefault_eq fun_eq_iff option.map_comp o_def split: option.splits)

lemma fold_channelDefault_iterates:
  assumes "iterates ord chs"
  shows "fold channelDefault ord chs = map_option with_timeout \<circ> chs"
  using assms by (auto simp: fold_channelDefault iterates_def fun_eq_iff domIff)

subsection \<open>Well-formed configurations\<close>

definition trigger_ok :: "string \<Rightarrow> goint \<Rightarrow> float64 \<Rightarrow> bool" where
  "trigger_ok tr ws ma \<longleftrightarrow> (tr \<in> {'''', ''consecutive''} \<and> 0 \<le> ws)
     \<or> (tr = ''availability'' \<and> 0 < ws \<and> \<not> fl_le ma (Fin 0) \<and> \<not> fl_less (Fin 100) ma)"

definition params_ok :: "(string \<rightharpoonup> Channel) \<Rightarrow> MonitorParams \<Rightarrow> bool" where
  "params_ok chs p \<longleftrightarrow> 0 < mp_IntervalS p \<and> 0 < mp_TimeoutMS p \<and> 0 < mp_FailureThreshold p
     \<and> trigger_ok (mp_Trigger p) (mp_WindowSize p) (mp_MinAvailability p) \<and> set (mp_Notify p) \<subseteq> dom chs"

definition http_url :: "string \<Rightarrow> bool" where
  "http_url raw \<longleftrightarrow> (case url_Parse raw of Inl _ \<Rightarrow> False
     | Inr u \<Rightarrow> u_Scheme u \<in> {''http'', ''https''} \<and> u_Host u \<noteq> '''')"

definition channel_ok :: "Channel \<Rightarrow> bool" where
  "channel_ok ch \<longleftrightarrow>
     (ch_Type ch = ''console'')
   \<or> (ch_Type ch = ''webhook'' \<and> ch_URL ch \<noteq> '''' \<and> 0 < ch_TimeoutMS ch)
   \<or> (ch_Type ch = ''email'' \<and> ch_SMTPHost ch \<noteq> '''' \<and> 0 < ch_Port ch \<and> ch_From ch \<noteq> ''''
        \<and> ch_To ch \<noteq> [] \<and> ch_PasswordEnv ch \<noteq> '''')
   \<or> (ch_Type ch = ''smsgate'' \<and> ch_BaseURL ch \<noteq> '''' \<and> ch_Username ch \<noteq> '''' \<and> ch_PasswordEnv ch \<noteq> ''''
        \<and> ch_Recipients ch \<noteq> [] \<and> 0 < ch_TimeoutMS ch)"

definition pong_ok :: "PongServer \<Rightarrow> bool" where
  "pong_ok r \<longleftrightarrow> (ps_Enabled r \<longrightarrow> ps_Listen r \<noteq> '''' \<and> 0 < ps_ReadTimeoutMS r)"

definition ping_ok :: "(string \<rightharpoonup> Channel) \<Rightarrow> PingMonitor \<Rightarrow> bool" where
  "ping_ok chs r \<longleftrightarrow> (pm_Enabled r \<longrightarrow> pm_Targets r \<noteq> []
     \<and> (\<forall>t \<in> set (pm_Targets r). pt_Target t \<noteq> '''' \<and> params_ok chs (pt_MonitorParams t)))"

definition url_ok :: "(string \<rightharpoonup> Channel) \<Rightarrow> URLMonitor \<Rightarrow> bool" where
  "url_ok chs r \<longleftrightarrow> (um_Enabled r \<longrightarrow> um_Targets r \<noteq> []
     \<and> (\<forall>t \<in> set (um_Targets r). ut_URL t \<noteq> '''' \<and> http_url (ut_URL t) \<and> params_ok chs (ut_MonitorParams t)))"

definition internet_ok :: "(string \<rightharpoonup> Channel) \<Rightarrow> InternetCheck \<Rightarrow> bool" where
  "internet_ok chs r \<longleftrightarrow> (ic_Enabled r \<longrightarrow> ic_Sites r \<noteq> [] \<and> 0 < ic_IntervalS r \<and> 0 < ic_TimeoutMS r
     \<and> 0 < ic_FailureThreshold r \<and> trigger_ok (ic_Trigger r) (ic_WindowSize r) (ic_MinAvailability r)
     \<and> set (ic_Notify r) \<subseteq> dom chs)"

definition speed_ok :: "(string \<rightharpoonup> Channel) \<Rightarrow> SpeedCheck \<Rightarrow> bool" where
  "speed_ok chs r \<longleftrightarrow> (sc_Enabled r \<longrightarrow> \<not> fl_le (sc_ThresholdMbps r) (Fin 0) \<and> 0 < sc_IntervalS r
     \<and> 0 < sc_FailureThreshold r \<and> trigger_ok (sc_Trigger r) (sc_WindowSize r) (sc_MinAvailability r)
     \<and> set (sc_Notify r) \<subseteq> dom chs)"

definition valid_config :: "Config \<Rightarrow> bool" where
  "valid_config c \<longleftrightarrow>
     0 < rt_MaxAttempts (c_Retry c) \<and> 0 \<le> rt_BaseDelayMS (c_Retry c) \<and> 0 < c_SummaryIntervalS c
   \<and> (\<forall>ch \<in> ran (c_Channels c). channel_ok ch)
   \<and> pong_ok (ro_PongServer (c_Roles c))
   \<and> ping_ok (c_Channels c) (ro_PingMonitor (c_Roles c))
   \<and> url_ok (c_Channels c) (ro_URLMonitor (c_Roles c))
   \<and> internet_ok (c_Channels c) (ro_InternetCheck (c_Roles c))
   \<and> speed_ok (c_Channels c) (ro_SpeedCheck (c_Roles c))"

lemma validateTrigger_None: "validateTrigger w tr ws ma = None \<longleftrightarrow> trigger_ok tr ws ma"
  by (auto simp: validateTrigger_def trigger_ok_def cfg_consts)

lemma checkNotify_None: "checkNotify chs w ns = None \<longleftrightarrow> set ns \<subseteq> dom chs"
  by (auto simp: checkNotify_def)

lemma validateChannel_None: "validateChannel name ch = None \<longleftrightarrow> channel_ok ch"
  by (auto simp: validateChannel_def channel_ok_def cfg_consts not_le)

lemma validateHTTPURL_None: "validateHTTPURL raw = None \<longleftrightarrow> http_url raw"
  by (auto simp: validateHTTPURL_def http_url_def split: sum.splits)

lemma validateParams_None: "validateParams chs w p = None \<longleftrightarrow> params_ok chs p"
  by (auto simp: validateParams_def params_ok_def validateTrigger_None checkNotify_None not_le)

lemma ball_enumerate: "(\<forall>x \<in> set (enumerate n xs). P (snd x)) \<longleftrightarrow> (\<forall>x \<in> set xs. P x)"
  by (metis (no_types, lifting) image_iff map_snd_enumerate set_map)

lemma ball_enumerate_case:
  assumes "\<And>i x. f (i, x) = None \<longleftrightarrow> P x"
  shows "(\<forall>y \<in> set (enumerate n xs). f y = None) \<longleftrightarrow> (\<forall>x \<in> set xs. P x)"
proof -
  have "f y = None \<longleftrightarrow> P (snd y)" for y using assms by (cases y) simp
  then show ?thesis using ball_enumerate [of n xs P] by simp
qed

lemma validatePing_None: "validatePing chs r = None \<longleftrightarrow> ping_ok chs r"
  unfolding validatePing_def ping_ok_def
  by (auto simp: Let_def validateParams_None
      ball_enumerate_case [where P = "\<lambda>t. pt_Target t \<noteq> '''' \<and> params_ok chs (pt_MonitorParams t)"])

lemma validateURL_None: "validateURL chs r = None \<longleftrightarrow> url_ok chs r"
proof -
  have "(\<forall>y \<in> set (enumerate 0 (um_Targets r)). (\<lambda>(i, tgt).
       let who = Target ''url_monitor'' i (ut_URL tgt)
       in if ut_URL tgt = '''' then Some (RoleFault who (Required ''url''))
          else case validateHTTPURL (ut_URL tgt) of
              Some f \<Rightarrow> Some (RoleFault who (BadURL f))
            | None \<Rightarrow> validateParams chs who (ut_MonitorParams tgt)) y = None) \<longleftrightarrow>
     (\<forall>t \<in> set (um_Targets r). ut_URL t \<noteq> '''' \<and> http_url (ut_URL t) \<and> params_ok chs (ut_MonitorParams t))"
    by (rule ball_enumerate_case)
      (auto simp: Let_def validateParams_None validateHTTPURL_None [symmetric] split: option.splits)
  then show ?thesis unfolding validateURL_def url_ok_def by simp
qed

lemma validateInternet_None: "validateInternet chs r = None \<longleftrightarrow> internet_ok chs r"
  by (auto simp: validateInternet_def internet_ok_def Let_def validateTrigger_None checkNotify_None not_le)

lemma validateSpeed_None: "validateSpeed chs r = None \<longleftrightarrow> speed_ok chs r"
  by (auto simp: validateSpeed_def speed_ok_def Let_def validateTrigger_None checkNotify_None not_le)

lemma validateChannels_None:
  assumes "iterates ord (c_Channels c)"
  shows "validateChannels ord c = None \<longleftrightarrow> (\<forall>ch \<in> ran (c_Channels c). channel_ok ch)"
  using assms unfolding iterates_def validateChannels_def ran_def
  by (fastforce simp: validateChannel_None dom_def split: option.splits)

lemma Validate_None:
  assumes "iterates ord (c_Channels c)"
  shows "Validate ord c = None \<longleftrightarrow> valid_config c"
  unfolding Validate_def valid_config_def validateRoles_def Let_def
  by (auto simp: validateChannels_None [OF assms] validatePing_None validateURL_None
      validateInternet_None validateSpeed_None validatePong_def pong_ok_def not_le)

subsection \<open>The loaded configuration\<close>

definition profile_known :: "(string \<rightharpoonup> Profile) \<Rightarrow> string \<Rightarrow> bool" where
  "profile_known profiles n \<longleftrightarrow> n = '''' \<or> n \<in> dom profiles"

definition profiles_defined :: "Config \<Rightarrow> bool" where
  "profiles_defined c \<longleftrightarrow> (let pm = ro_PingMonitor (c_Roles c); um = ro_URLMonitor (c_Roles c) in
     (pm_Enabled pm \<longrightarrow> profile_known (c_Profiles c) (pm_DefaultProfile pm)
        \<and> (\<forall>t \<in> set (pm_Targets pm). profile_known (c_Profiles c) (pt_Profile t)))
   \<and> (um_Enabled um \<longrightarrow> profile_known (c_Profiles c) (um_DefaultProfile um)
        \<and> (\<forall>t \<in> set (um_Targets um). profile_known (c_Profiles c) (ut_Profile t))))"

definition ping_source :: "Config \<Rightarrow> PingTarget \<Rightarrow> MonitorParams" where
  "ping_source c t = (let pm = ro_PingMonitor (c_Roles c) in
     if pm_Enabled pm then profile_params (c_Profiles c) (pt_Profile t) (pm_DefaultProfile pm) else zeroParams)"

definition url_source :: "Config \<Rightarrow> URLTarget \<Rightarrow> MonitorParams" where
  "url_source c t = (let um = ro_URLMonitor (c_Roles c) in
     if um_Enabled um then profile_params (c_Profiles c) (ut_Profile t) (um_DefaultProfile um) else zeroParams)"

definition effective_ping :: "Config \<Rightarrow> PingMonitor" where
  "effective_ping c = (let pm = ro_PingMonitor (c_Roles c) in pm\<lparr>pm_Targets :=
     map (\<lambda>t. t\<lparr>pt_MonitorParams := effective (pt_MonitorParams t) (ping_source c t)\<rparr>) (pm_Targets pm)\<rparr>)"

definition effective_url :: "Config \<Rightarrow> URLMonitor" where
  "effective_url c = (let um = ro_URLMonitor (c_Roles c) in um\<lparr>um_Targets :=
     map (\<lambda>t. t\<lparr>ut_MonitorParams := effective (ut_MonitorParams t) (url_source c t)\<rparr>) (um_Targets um)\<rparr>)"

definition effective_config :: "Config \<Rightarrow> Config" where
  "effective_config c = (let rt = c_Retry c; ro = c_Roles c; ic = ro_InternetCheck ro; sc = ro_SpeedCheck ro in c\<lparr>
     c_Retry := \<lparr>rt_MaxAttempts = pick 0 [rt_MaxAttempts rt, 3], rt_BaseDelayMS = pick 0 [rt_BaseDelayMS rt, 500]\<rparr>,
     c_SummaryIntervalS := pick 0 [c_SummaryIntervalS c, 900],
     c_Channels := map_option with_timeout \<circ> c_Channels c,
     c_Roles := ro\<lparr>
       ro_PingMonitor := effective_ping c,
       ro_URLMonitor := effective_url c,
       ro_InternetCheck := ic\<lparr>
         ic_FailureThreshold := pick 0 [ic_FailureThreshold ic, 1],
         ic_Trigger := pick '''' [ic_Trigger ic, ''consecutive''],
         ic_WindowSize := pick 0 [ic_WindowSize ic, 20]\<rparr>,
       ro_SpeedCheck := sc\<lparr>
         sc_Binary := pick '''' [sc_Binary sc, ''speedtest''],
         sc_FailureThreshold := pick 0 [sc_FailureThreshold sc, 1],
         sc_Trigger := pick '''' [sc_Trigger sc, ''consecutive''],
         sc_WindowSize := pick 0 [sc_WindowSize sc, 20]\<rparr>\<rparr>\<rparr>)"

lemma map2_map_same: "map2 f xs (map g xs) = map (\<lambda>x. f x (g x)) xs"
  by (induction xs) auto

lemma map_err_const_shape:
  assumes "\<And>x y. f x = Inr y \<longleftrightarrow> P x \<and> y = g x"
  shows "map_err f xs = Inr ys \<longleftrightarrow> (\<forall>x \<in> set xs. P x) \<and> ys = map g xs"
  unfolding map_err_Inr assms by (induction xs arbitrary: ys) (auto simp: list_all2_Cons1)

text \<open>One resolved role: both target kinds go through the same references.\<close>

lemma resolveProfileRefs_Inr:
  "resolveProfileRefs profiles role dflt refs = Inr ps \<longleftrightarrow>
     profile_known profiles dflt \<and> (\<forall>r \<in> set refs. profile_known profiles (pr_profile r))
     \<and> ps = map (\<lambda>r. inheritFrom (pr_params r) (profile_params profiles (pr_profile r) dflt)) refs"
proof (cases "profile_known profiles dflt")
  case True
  let ?P = "\<lambda>r. profile_known profiles (pr_profile r)"
  have "resolveProfileRef profiles dflt r = Inr q \<longleftrightarrow>
      ?P r \<and> q = inheritFrom (pr_params r) (profile_params profiles (pr_profile r) dflt)" for r q
    using True unfolding resolveProfileRef_Inr profile_known_def by (cases "dflt = ''''") auto
  from map_err_const_shape [of "resolveProfileRef profiles dflt", OF this] True show ?thesis
    unfolding resolveProfileRefs_def profile_known_def by (auto simp: domIff)
next
  case False
  then show ?thesis by (auto simp: resolveProfileRefs_def profile_known_def domIff)
qed

lemma map_enumerate_snd: "map (\<lambda>x. f (snd x)) (enumerate n xs) = map f xs"
proof -
  have "map f (map snd (enumerate n xs)) = map f xs" by simp
  then show ?thesis by (simp only: map_map o_def)
qed

lemma ping_refs_map: "map (\<lambda>r. h (pr_params r) (pr_profile r)) (ping_refs ts) =
    map (\<lambda>t. h (pt_MonitorParams t) (pt_Profile t)) ts"
  using map_enumerate_snd [of "\<lambda>t. h (pt_MonitorParams t) (pt_Profile t)"]
  by (simp add: ping_refs_def o_def split_beta)

lemma url_refs_map: "map (\<lambda>r. h (pr_params r) (pr_profile r)) (url_refs ts) =
    map (\<lambda>t. h (ut_MonitorParams t) (ut_Profile t)) ts"
  using map_enumerate_snd [of "\<lambda>t. h (ut_MonitorParams t) (ut_Profile t)"]
  by (simp add: url_refs_def o_def split_beta)

lemma ping_refs_ball: "(\<forall>r \<in> set (ping_refs ts). Q (pr_profile r)) \<longleftrightarrow> (\<forall>t \<in> set ts. Q (pt_Profile t))"
  using arg_cong [OF ping_refs_map [of "\<lambda>_. id" ts], of "\<lambda>xs. \<forall>x \<in> set xs. Q x"] by simp

lemma url_refs_ball: "(\<forall>r \<in> set (url_refs ts). Q (pr_profile r)) \<longleftrightarrow> (\<forall>t \<in> set ts. Q (ut_Profile t))"
  using arg_cong [OF url_refs_map [of "\<lambda>_. id" ts], of "\<lambda>xs. \<forall>x \<in> set xs. Q x"] by simp

lemma resolvePing_Inr:
  "resolvePing profiles pm = Inr pm' \<longleftrightarrow>
    (pm_Enabled pm \<longrightarrow> profile_known profiles (pm_DefaultProfile pm)
       \<and> (\<forall>t \<in> set (pm_Targets pm). profile_known profiles (pt_Profile t)))
    \<and> pm' = pm\<lparr>pm_Targets := map (\<lambda>t. t\<lparr>pt_MonitorParams := inheritFrom (pt_MonitorParams t)
        (if pm_Enabled pm then profile_params profiles (pt_Profile t) (pm_DefaultProfile pm) else zeroParams)\<rparr>)
        (pm_Targets pm)\<rparr>"
  by (cases "pm_Enabled pm")
    (auto simp: resolvePing_def or_fail_Inr resolveProfileRefs_Inr ping_refs_ball inheritFrom_zero map2_map_same
      ping_refs_map [of "\<lambda>p n. inheritFrom p (profile_params profiles n (pm_DefaultProfile pm))"])

lemma resolveURL_Inr:
  "resolveURL profiles um = Inr um' \<longleftrightarrow>
    (um_Enabled um \<longrightarrow> profile_known profiles (um_DefaultProfile um)
       \<and> (\<forall>t \<in> set (um_Targets um). profile_known profiles (ut_Profile t)))
    \<and> um' = um\<lparr>um_Targets := map (\<lambda>t. t\<lparr>ut_MonitorParams := inheritFrom (ut_MonitorParams t)
        (if um_Enabled um then profile_params profiles (ut_Profile t) (um_DefaultProfile um) else zeroParams)\<rparr>)
        (um_Targets um)\<rparr>"
  by (cases "um_Enabled um")
    (auto simp: resolveURL_def or_fail_Inr resolveProfileRefs_Inr url_refs_ball inheritFrom_zero map2_map_same
      url_refs_map [of "\<lambda>p n. inheritFrom p (profile_params profiles n (um_DefaultProfile um))"])

definition resolved_config :: "Config \<Rightarrow> Config" where
  "resolved_config c = (let pm = ro_PingMonitor (c_Roles c); um = ro_URLMonitor (c_Roles c) in
     c\<lparr>c_Roles := (c_Roles c)\<lparr>
       ro_PingMonitor := pm\<lparr>pm_Targets :=
         map (\<lambda>t. t\<lparr>pt_MonitorParams := inheritFrom (pt_MonitorParams t) (ping_source c t)\<rparr>) (pm_Targets pm)\<rparr>,
       ro_URLMonitor := um\<lparr>um_Targets :=
         map (\<lambda>t. t\<lparr>ut_MonitorParams := inheritFrom (ut_MonitorParams t) (url_source c t)\<rparr>) (um_Targets um)\<rparr>\<rparr>\<rparr>)"

lemma resolveProfiles_Inr: "resolveProfiles c = Inr c1 \<longleftrightarrow> profiles_defined c \<and> c1 = resolved_config c"
  unfolding resolveProfiles_def or_fail_Inr resolvePing_Inr resolveURL_Inr
    profiles_defined_def resolved_config_def Let_def ping_source_def url_source_def
  by (simp only: sum.inject) blast

lemma applyDefaults_resolved:
  assumes "iterates ord (c_Channels c)"
  shows "applyDefaults ord (resolved_config c) = effective_config c"
  unfolding applyDefaults_def resolved_config_def effective_config_def Let_def effective_ping_def effective_url_def
  by (simp add: fold_channelDefault_iterates [OF assms] defaults_inherit internetDefaults_def
      speedDefaults_def applyTriggerDefaults_def cfg_consts o_def)

lemma Load_decoded_Inr:
  assumes "iterates ord (c_Channels c)" and "iterates ord' (c_Channels c)"
  shows "Load_decoded ord ord' c = Inr c' \<longleftrightarrow>
    profiles_defined c \<and> c' = effective_config c \<and> valid_config (effective_config c)"
proof -
  have "iterates ord' (c_Channels (effective_config c))"
    using assms(2) by (auto simp: iterates_def effective_config_def Let_def domIff)
  from Validate_None [OF this] show ?thesis
    by (auto simp: Load_decoded_def or_fail_Inr resolveProfiles_Inr Let_def applyDefaults_resolved [OF assms(1)]
        split: option.splits)
qed

lemma Load_Inr:
  assumes "decode_config data = Inr c" and "iterates ord (c_Channels c)" and "iterates ord' (c_Channels c)"
  shows "Load ord ord' (Inr data) = Inr c' \<longleftrightarrow>
    profiles_defined c \<and> c' = effective_config c \<and> valid_config (effective_config c)"
  using Load_decoded_Inr [OF assms(2,3)] by (simp add: Load_def assms(1))

lemma resolveProfiles_Inl:
  "resolveProfiles c = Inl e \<Longrightarrow>
    \<exists>n. n \<notin> dom (c_Profiles c) \<and> n \<noteq> '''' \<and> ((\<exists>r. e = UndefinedDefaultProfile r n) \<or> (\<exists>w. e = UndefinedProfile w n))"
proof -
  have ref: "\<exists>n. n \<notin> dom ps \<and> n \<noteq> '''' \<and> e = UndefinedProfile (pr_who r) n"
    if "resolveProfileRef ps d r = Inl e" for ps d r
    using that by (auto simp: resolveProfileRef_def Let_def split: if_splits option.splits)
  have loop: "\<exists>r \<in> set rs. f r = Inl e" if "map_err f rs = Inl e"
    for f :: "profileRef \<Rightarrow> ConfigError + MonitorParams" and rs
    using that by (induction rs) (auto split: sum.splits)
  have refs: "\<exists>n. n \<notin> dom ps \<and> n \<noteq> '''' \<and> ((\<exists>r. e = UndefinedDefaultProfile r n) \<or> (\<exists>w. e = UndefinedProfile w n))"
    if "resolveProfileRefs ps role d rs = Inl e" for ps role d rs
    using that ref loop [of "resolveProfileRef ps d" rs]
    by (fastforce simp: resolveProfileRefs_def split: if_splits)
  assume "resolveProfiles c = Inl e"
  then show ?thesis
    by (auto simp: resolveProfiles_def or_fail_Inl resolvePing_def resolveURL_def split: if_splits dest!: refs)
qed

lemma pick_in: "pick z xs \<in> insert z (set xs)"
  by (induction xs) auto

lemma effective_config_fields [simp]:
  "c_Profiles (effective_config c) = c_Profiles c"
  "c_Channels (effective_config c) = map_option with_timeout \<circ> c_Channels c"
  "ro_PingMonitor (c_Roles (effective_config c)) = effective_ping c"
  "ro_URLMonitor (c_Roles (effective_config c)) = effective_url c"
  by (simp_all add: effective_config_def Let_def)

lemma effective_ping_fields [simp]:
  "pm_Enabled (effective_ping c) = pm_Enabled (ro_PingMonitor (c_Roles c))"
  "pm_DefaultProfile (effective_ping c) = pm_DefaultProfile (ro_PingMonitor (c_Roles c))"
  "um_Enabled (effective_url c) = um_Enabled (ro_URLMonitor (c_Roles c))"
  "um_DefaultProfile (effective_url c) = um_DefaultProfile (ro_URLMonitor (c_Roles c))"
  by (simp_all add: effective_ping_def effective_url_def Let_def)

lemma effective_config_stable:
  "profiles_defined (effective_config c) = profiles_defined c"
  "effective_config (effective_config c) = effective_config c"
proof -
  show "profiles_defined (effective_config c) = profiles_defined c"
    by (auto simp: profiles_defined_def Let_def effective_ping_def effective_url_def)
  have src: "ping_source (effective_config c) (t\<lparr>pt_MonitorParams := p\<rparr>) = ping_source c t"
    "url_source (effective_config c) (u\<lparr>ut_MonitorParams := p\<rparr>) = url_source c u" for t u p
    by (simp_all add: ping_source_def url_source_def Let_def)
  have "effective_ping (effective_config c) = effective_ping c"
    "effective_url (effective_config c) = effective_url c"
    by (simp_all add: effective_ping_def [of "effective_config c"] effective_url_def [of "effective_config c"] Let_def)
      (simp_all add: effective_ping_def effective_url_def Let_def src effective_idem)
  moreover have "map_option with_timeout \<circ> (map_option with_timeout \<circ> c_Channels c) = map_option with_timeout \<circ> c_Channels c"
    by (simp add: fun_eq_iff option.map_comp o_def)
  moreover have "ro_InternetCheck (c_Roles (effective_config (effective_config c))) = ro_InternetCheck (c_Roles (effective_config c))"
    "ro_SpeedCheck (c_Roles (effective_config (effective_config c))) = ro_SpeedCheck (c_Roles (effective_config c))"
    "c_Retry (effective_config (effective_config c)) = c_Retry (effective_config c)"
    "c_SummaryIntervalS (effective_config (effective_config c)) = c_SummaryIntervalS (effective_config c)"
    "ro_PongServer (c_Roles (effective_config (effective_config c))) = ro_PongServer (c_Roles (effective_config c))"
    by (simp_all add: effective_config_def Let_def)
  ultimately show "effective_config (effective_config c) = effective_config c"
    by - (intro Config.Config.equality Roles.equality; simp)
qed

subsection \<open>An example\<close>

text \<open>A configuration with one profile, one webhook and one target that names only its address.\<close>

definition example_config :: Config where
  "example_config = \<lparr>
     c_Retry = \<lparr>rt_MaxAttempts = 0, rt_BaseDelayMS = 0\<rparr>,
     c_SummaryIntervalS = 0,
     c_Profiles = [''std'' \<mapsto> \<lparr>pf_MonitorParams = zeroParams\<lparr>mp_IntervalS := 30, mp_TimeoutMS := 2000,
       mp_Notify := [''ops'']\<rparr>\<rparr>],
     c_Channels = [''ops'' \<mapsto> \<lparr>ch_Type = ''webhook'', ch_URL = ''http://h/'', ch_SMTPHost = '''', ch_Port = 0,
       ch_From = '''', ch_To = [], ch_BaseURL = '''', ch_Recipients = [], ch_Username = '''',
       ch_PasswordEnv = '''', ch_TimeoutMS = 0\<rparr>],
     c_Roles = \<lparr>
       ro_PongServer = \<lparr>ps_Enabled = False, ps_Listen = '''', ps_ReadTimeoutMS = 0\<rparr>,
       ro_PingMonitor = \<lparr>pm_Enabled = True, pm_DefaultProfile = ''std'', pm_Targets =
         [\<lparr>pt_Target = ''a:1'', pt_Profile = '''', pt_MonitorParams = zeroParams\<lparr>mp_TimeoutMS := 50\<rparr>\<rparr>]\<rparr>,
       ro_URLMonitor = \<lparr>um_Enabled = False, um_DefaultProfile = '''', um_Targets = []\<rparr>,
       ro_InternetCheck = \<lparr>ic_Enabled = False, ic_Sites = [], ic_IntervalS = 0, ic_TimeoutMS = 0,
         ic_FailureThreshold = 0, ic_Trigger = '''', ic_WindowSize = 0, ic_MinAvailability = Fin 0,
         ic_Notify = [], ic_InsecureSkipVerify = False\<rparr>,
       ro_SpeedCheck = \<lparr>sc_Enabled = False, sc_IntervalS = 0, sc_ThresholdMbps = Fin 0, sc_Binary = '''',
         sc_FailureThreshold = 0, sc_Trigger = '''', sc_WindowSize = 0, sc_MinAvailability = Fin 0,
         sc_Notify = []\<rparr>\<rparr>\<rparr>"

text \<open>The same configuration as a file.\<close>

definition example_profiles :: json where
  "example_profiles = JObject [(''std'', JObject [(''interval_s'', marshal_int 30), (''timeout_ms'', marshal_int 2000),
     (''notify'', JArray [JString ''ops''])])]"

definition example_json :: "json \<Rightarrow> (string \<times> json) list \<Rightarrow> json" where
  "example_json profiles params = JObject [
     (''profiles'', profiles),
     (''channels'', JObject [(''ops'', JObject [(''type'', JString ''webhook''), (''url'', JString ''http://h/'')])]),
     (''roles'', JObject [(''ping_monitor'', JObject [(''enabled'', JBool True), (''default_profile'', JString ''std''),
       (''targets'', JArray [JObject ((''target'', JString ''a:1'') # params)])])])]"

definition example_file :: string where
  "example_file = json_text (example_json example_profiles [(''timeout_ms'', marshal_int 50)])"

lemmas dec_config_simps = dec_config_def put_config_def dec_roles_def put_roles_def dec_ping_monitor_def put_ping_monitor_def
  dec_ping_target_def put_ping_target_def put_params_def param_fields_def dec_profile_def put_profile_def dec_channel_def
  put_channel_def dec_map_def dec_object_def dec_list_def dec_strings_def dec_string_def dec_float_def dec_bool_def
  zeroConfig_def zeroChannel_def zeroParams_def

lemma example_good:
  assumes "good_json profiles" and "depth profiles \<le> 9" and "good_json (JObject params)" and "depth (JObject params) \<le> 1"
  shows "good_json (example_json profiles params) \<and> depth (example_json profiles params) \<le> maxNestingDepth"
proof -
  have ascii: "valid_utf8 k" if "k \<in> set [''profiles'', ''channels'', ''ops'', ''type'', ''webhook'', ''url'', ''http://h/'',
      ''roles'', ''ping_monitor'', ''enabled'', ''default_profile'', ''std'', ''targets'', ''target'', ''a:1'']" for k
    using that by (intro valid_key) auto
  show ?thesis using assms by (simp add: example_json_def ascii maxNestingDepth_def)
qed

lemma example_profiles_good: "good_json example_profiles \<and> depth example_profiles \<le> 9"
proof -
  have "valid_utf8 k" if "k \<in> set [''std'', ''interval_s'', ''timeout_ms'', ''notify'', ''ops'']" for k
    using that by (intro valid_key) auto
  then show ?thesis by (simp add: example_profiles_def)
qed

lemma example_decode: "decode_config example_file = Inr example_config"
  unfolding example_file_def
proof (rule decode_config_text)
  let ?v = "example_json example_profiles [(''timeout_ms'', marshal_int 50)]"
  have "valid_utf8 ''timeout_ms''" by (rule valid_key) simp
  then have "good_json ?v \<and> depth ?v \<le> maxNestingDepth" by (intro example_good) (simp_all add: example_profiles_good)
  then show "good_json ?v" "depth ?v \<le> maxNestingDepth" by simp_all
  show "dec_config ?v zeroConfig = Some example_config"
    by (simp add: example_json_def example_profiles_def dec_config_simps example_config_def in_int64_def)
qed

lemma example_iterates: "iterates [''ops''] (c_Channels example_config)"
  by (auto simp: iterates_def example_config_def)

lemmas example_simps = example_config_def Load_def resolveProfiles_def resolvePing_def resolveURL_def
  resolveProfileRefs_def resolveProfileRef_def ping_refs_def url_refs_def inheritFrom_def zeroParams_def
  applyDefaults_def channelDefault_def applyParamDefaults_def applyTriggerDefaults_def internetDefaults_def
  speedDefaults_def cfg_consts profile_params_def effective_def

lemma example_defined: "profiles_defined example_config"
  by (simp add: profiles_defined_def profile_known_def example_config_def Let_def)

lemma example_valid: "valid_config (effective_config example_config)"
  unfolding valid_config_def effective_config_fields
  by (simp add: example_config_def effective_config_def effective_ping_def effective_url_def Let_def
      zeroParams_def ping_source_def profile_params_def effective_def ran_def with_timeout_def channel_ok_def
      pong_ok_def ping_ok_def url_ok_def internet_ok_def speed_ok_def params_ok_def trigger_ok_def)

subsection \<open>Properties\<close>

text \<open>
  C4. The loader accepts a decoded configuration exactly when every referenced profile is defined
  and the configuration, with each setting replaced by its effective value, is well-formed; it
  then returns that configuration. Neither the verdict nor the result depends on the orders in
  which the loops over the channels visit them.
\<close>

theorem Load_accepts_exactly_valid:
  assumes "decode_config data = Inr c" and "iterates ord (c_Channels c)" and "iterates ord' (c_Channels c)"
  shows "Load ord ord' (Inr data) = Inr c' \<longleftrightarrow>
    profiles_defined c \<and> c' = effective_config c \<and> valid_config c'"
  using Load_Inr [of data c, OF assms] by auto

theorem Load_accepts_exactly_valid_witness:
  "Load [''ops''] [''ops''] (Inr example_file) = Inr (effective_config example_config)"
  using Load_accepts_exactly_valid [OF example_decode example_iterates example_iterates]
    example_defined example_valid
  by blast



text \<open>
  A profile or default profile that an enabled role references and that is not defined makes
  loading fail with an error that names an undefined profile.
\<close>

lemma Load_undefined_profile:
  assumes "decode_config data = Inr c" and "\<not> profiles_defined c"
  shows "\<exists>e n. Load ord ord' (Inr data) = Inl e \<and> n \<noteq> '''' \<and> n \<notin> dom (c_Profiles c)
    \<and> ((\<exists>role. e = UndefinedDefaultProfile role n) \<or> (\<exists>w. e = UndefinedProfile w n))"
proof (cases "resolveProfiles c")
  case (Inl e)
  with resolveProfiles_Inl [OF Inl] assms(1) show ?thesis by (auto simp: Load_def Load_decoded_def)
next
  case (Inr c1)
  with assms(2) show ?thesis by (simp add: resolveProfiles_Inr)
qed

text \<open>
  C36. Loading is stable: a configuration that was loaded, loaded again, is accepted and
  unchanged; nothing is inherited or defaulted twice.
\<close>

theorem Load_stable:
  assumes "decode_config data = Inr c" and "iterates ord (c_Channels c)" and "iterates ord' (c_Channels c)"
    and "Load ord ord' (Inr data) = Inr c'"
  shows "Load_decoded ord ord' c' = Inr c'"
proof -
  have c': "profiles_defined c" "c' = effective_config c" "valid_config c'"
    using Load_Inr [OF assms(1-3), of c'] assms(4) by auto
  have "iterates ord (c_Channels c')" "iterates ord' (c_Channels c')"
    using assms(2,3) by (auto simp: iterates_def c'(2) domIff)
  with c' show ?thesis by (simp add: Load_decoded_Inr effective_config_stable)
qed

theorem Load_stable_witness:
  "Load_decoded [''ops''] [''ops''] (effective_config example_config) = Inr (effective_config example_config)"
proof -
  have "Load [''ops''] [''ops''] (Inr example_file) = Inr (effective_config example_config)"
    using Load_Inr [OF example_decode example_iterates example_iterates] example_defined example_valid by blast
  from Load_stable [OF example_decode example_iterates example_iterates this] show ?thesis .
qed

end
