(* ===== verification/ConfigJsonSpec.thy ===== *)
theory ConfigJsonSpec
  imports ConfigSpec
begin

text \<open>
  The configuration file format as a schema, and the decoder against it: a file is decoded exactly
  when its first value conforms to the schema, and every number of the decoded configuration is one
  the program's types can hold. Both facts are proved for decoders in general (the locales) and
  composed along the structure of the configuration.
\<close>

subsection \<open>Schemas\<close>

datatype schema = SInt | SFloat | SString | SBool | SList schema | SMap schema | SStruct "(string \<times> schema) list"

lemma member_size [termination_simp]: "kv \<in> set kvs \<Longrightarrow> size (snd kv) < Suc (size_list (size_prod (\<lambda>_. 0) size) kvs)"
  by (induction kvs) (auto simp: less_Suc_eq_le)

text \<open>Null stands for any value; a struct has no key but those of its fields, up to case.\<close>

function conforms :: "schema \<Rightarrow> json \<Rightarrow> bool" where
  "conforms s JNull = True"
| "conforms s (JBool b) = (s = SBool)"
| "conforms s (JString t) = (s = SString)"
| "conforms s (JNumber t) = (s = SInt \<and> parse_int t \<noteq> None \<or> s = SFloat \<and> parse_float t \<noteq> None)"
| "conforms s (JArray vs) = (case s of SList e \<Rightarrow> (\<forall>v \<in> set vs. conforms e v) | _ \<Rightarrow> False)"
| "conforms s (JObject kvs) = (case s of
      SMap e \<Rightarrow> (\<forall>kv \<in> set kvs. conforms e (snd kv))
    | SStruct fs \<Rightarrow> (\<forall>kv \<in> set kvs. case Option.bind (field_of (map fst fs) (fst kv)) (map_of fs) of
        None \<Rightarrow> False | Some e \<Rightarrow> conforms e (snd kv))
    | _ \<Rightarrow> False)"
  by pat_completeness auto

termination
  by (relation "measure (\<lambda>(s, v). size v)") (auto simp: less_Suc_eq_le size_list_estimation' termination_simp)

subsection \<open>Decoders that implement a schema\<close>

locale decoder =
  fixes s :: schema and ok :: "'r \<Rightarrow> bool" and dec :: "json \<Rightarrow> 'r \<Rightarrow> 'r option"
  assumes fails: "dec v r = None \<longleftrightarrow> \<not> conforms s v"
    and keeps: "ok r \<Longrightarrow> dec v r = Some r' \<Longrightarrow> ok r'"

text \<open>With a good zero value, the decoder serves the elements of a slice and of a map.\<close>

locale element_decoder = decoder +
  fixes zero
  assumes zero_ok: "ok zero"
begin

lemma elems_fails: "dec_elems dec zero old vs = None \<longleftrightarrow> (\<exists>v \<in> set vs. \<not> conforms s v)"
proof (induction vs arbitrary: old)
  case (Cons v vs)
  show ?case by (cases old) (auto simp: fails bind_eq_None_conv Cons)
qed simp

lemma elems_keeps: "list_all ok old \<Longrightarrow> dec_elems dec zero old vs = Some rs \<Longrightarrow> list_all ok rs"
proof (induction vs arbitrary: old rs)
  case step: (Cons v vs)
  show ?case
  proof (cases old)
    case Nil
    with step.prems obtain x xs where "dec v zero = Some x" "dec_elems dec zero [] vs = Some xs" "rs = x # xs"
      by (auto simp: bind_eq_Some_conv)
    with keeps [OF zero_ok] step.IH [of "[]"] show ?thesis by simp
  next
    case (Cons r old')
    with step.prems obtain x xs where "dec v r = Some x" "dec_elems dec zero old' vs = Some xs" "rs = x # xs"
      by (auto simp: bind_eq_Some_conv)
    with keeps [of r] step.IH [of old'] step.prems(1) Cons show ?thesis by simp
  qed
qed simp

lemma entries_fails: "dec_entries dec zero kvs m = None \<longleftrightarrow> (\<exists>kv \<in> set kvs. \<not> conforms s (snd kv))"
  by (induction kvs arbitrary: m) (auto simp: fails bind_eq_None_conv)

lemma entries_keeps: "\<forall>x \<in> ran m. ok x \<Longrightarrow> dec_entries dec zero kvs m = Some m' \<Longrightarrow> \<forall>x \<in> ran m'. ok x"
proof (induction kvs arbitrary: m)
  case (Cons kv kvs)
  then obtain x where x: "dec (snd kv) zero = Some x" "dec_entries dec zero kvs (m(fst kv \<mapsto> x)) = Some m'"
    by (auto simp: bind_eq_Some_conv)
  have "\<forall>y \<in> ran (m(fst kv \<mapsto> x)). ok y" using Cons.prems(1) keeps [OF zero_ok x(1)] by (auto simp: ran_def)
  then show ?case using Cons.IH x(2) by blast
qed simp

end

sublocale element_decoder < slice: decoder "SList s" "list_all ok" "dec_list dec zero"
proof
  show "dec_list dec zero v r = None \<longleftrightarrow> \<not> conforms (SList s) v" for v r
    by (cases v) (auto simp: dec_list_def elems_fails)
  show "list_all ok r \<Longrightarrow> dec_list dec zero v r = Some r' \<Longrightarrow> list_all ok r'" for r v r'
    by (cases v) (auto simp: dec_list_def dest: elems_keeps)
qed

sublocale element_decoder < entry: decoder "SMap s" "\<lambda>m. \<forall>x \<in> ran m. ok x" "dec_map dec zero"
proof
  show "dec_map dec zero v r = None \<longleftrightarrow> \<not> conforms (SMap s) v" for v r
    by (cases v) (auto simp: dec_map_def entries_fails)
  show "\<forall>x \<in> ran r. ok x \<Longrightarrow> dec_map dec zero v r = Some r' \<Longrightarrow> \<forall>x \<in> ran r'. ok x" for r v r'
    by (cases v) (auto simp: dec_map_def dest: entries_keeps)
qed

text \<open>A struct is decoded field by field.\<close>

locale struct_decoder =
  fixes fs :: "(string \<times> schema) list" and ok :: "'r \<Rightarrow> bool" and put :: "string \<Rightarrow> json \<Rightarrow> 'r \<Rightarrow> 'r option"
  assumes put_fails: "map_of fs f = Some e \<Longrightarrow> put f v r = None \<longleftrightarrow> \<not> conforms e v"
    and put_keeps: "map_of fs f = Some e \<Longrightarrow> ok r \<Longrightarrow> put f v r = Some r' \<Longrightarrow> ok r'"
begin

lemma field_schema: "field_of (map fst fs) k = Some f \<Longrightarrow> \<exists>e. map_of fs f = Some e"
  by (auto simp: field_of_def find_Some_iff map_of_eq_None_iff simp flip: not_None_eq split: if_splits)

lemma members_fails:
  "dec_members True (map fst fs) put kvs r = None \<longleftrightarrow> \<not> conforms (SStruct fs) (JObject kvs)"
proof (induction kvs arbitrary: r)
  case (Cons kv kvs)
  show ?case
  proof (cases "field_of (map fst fs) (fst kv)")
    case (Some f)
    then obtain e where e: "map_of fs f = Some e" using field_schema by blast
    with Some Cons put_fails [OF e, of "snd kv" r] show ?thesis
      by (cases "put f (snd kv) r") simp_all
  qed simp
qed simp

lemma members_keeps: "ok r \<Longrightarrow> dec_members True (map fst fs) put kvs r = Some r' \<Longrightarrow> ok r'"
proof (induction kvs arbitrary: r)
  case (Cons kv kvs)
  then obtain f r1 where f: "field_of (map fst fs) (fst kv) = Some f" "put f (snd kv) r = Some r1"
    "dec_members True (map fst fs) put kvs r1 = Some r'" by (auto simp: bind_eq_Some_conv split: option.splits)
  then show ?case using Cons field_schema put_keeps by blast
qed simp

end

sublocale struct_decoder < decoder "SStruct fs" ok "dec_strict (map fst fs) put"
proof
  show "dec_strict (map fst fs) put v r = None \<longleftrightarrow> \<not> conforms (SStruct fs) v" for v r
    by (cases v) (auto simp: dec_object_def members_fails simp del: conforms.simps(6))
  show "ok r \<Longrightarrow> dec_strict (map fst fs) put v r = Some r' \<Longrightarrow> ok r'" for r v r'
    by (cases v) (auto simp: dec_object_def dest: members_keeps)
qed

subsection \<open>The schema of the configuration file\<close>

definition params_schema :: "(string \<times> schema) list" where
  "params_schema = [(''interval_s'', SInt), (''timeout_ms'', SInt), (''failure_threshold'', SInt), (''trigger'', SString),
     (''window_size'', SInt), (''min_availability'', SFloat), (''notify'', SList SString), (''insecure_skip_verify'', SBool)]"

definition ping_schema :: "(string \<times> schema) list" where
  "ping_schema = [(''enabled'', SBool), (''default_profile'', SString),
     (''targets'', SList (SStruct ([(''target'', SString), (''profile'', SString)] @ params_schema)))]"

definition url_schema :: "(string \<times> schema) list" where
  "url_schema = [(''enabled'', SBool), (''default_profile'', SString),
     (''targets'', SList (SStruct ([(''url'', SString), (''profile'', SString)] @ params_schema)))]"

definition internet_schema :: "(string \<times> schema) list" where
  "internet_schema = [(''enabled'', SBool), (''sites'', SList SString), (''interval_s'', SInt), (''timeout_ms'', SInt),
     (''failure_threshold'', SInt), (''trigger'', SString), (''window_size'', SInt), (''min_availability'', SFloat),
     (''notify'', SList SString), (''insecure_skip_verify'', SBool)]"

definition speed_schema :: "(string \<times> schema) list" where
  "speed_schema = [(''enabled'', SBool), (''interval_s'', SInt), (''threshold_mbps'', SFloat), (''binary'', SString),
     (''failure_threshold'', SInt), (''trigger'', SString), (''window_size'', SInt), (''min_availability'', SFloat),
     (''notify'', SList SString)]"

definition pong_schema :: "(string \<times> schema) list" where
  "pong_schema = [(''enabled'', SBool), (''listen'', SString), (''read_timeout_ms'', SInt)]"

definition channel_schema :: "(string \<times> schema) list" where
  "channel_schema = [(''type'', SString), (''url'', SString), (''smtp_host'', SString), (''port'', SInt), (''from'', SString),
     (''to'', SList SString), (''base_url'', SString), (''recipients'', SList SString), (''username'', SString),
     (''password_env'', SString), (''timeout_ms'', SInt)]"

definition retry_schema :: "(string \<times> schema) list" where
  "retry_schema = [(''max_attempts'', SInt), (''base_delay_ms'', SInt)]"

definition roles_schema :: "(string \<times> schema) list" where
  "roles_schema = [(''pong_server'', SStruct pong_schema), (''ping_monitor'', SStruct ping_schema),
     (''url_monitor'', SStruct url_schema), (''internet_check'', SStruct internet_schema), (''speed_check'', SStruct speed_schema)]"

definition config_fields :: "(string \<times> schema) list" where
  "config_fields = [(''retry'', SStruct retry_schema), (''summary_interval_s'', SInt), (''profiles'', SMap (SStruct params_schema)),
     (''channels'', SMap (SStruct channel_schema)), (''roles'', SStruct roles_schema)]"

definition config_schema :: schema where
  "config_schema = SStruct config_fields"

subsection \<open>Values the types hold\<close>

text \<open>Integers of 64 bits and finite floating-point numbers.\<close>

definition finite_fl :: "float64 \<Rightarrow> bool" where
  "finite_fl f \<longleftrightarrow> (case f of Fin _ \<Rightarrow> True | _ \<Rightarrow> False)"

definition params_typed :: "MonitorParams \<Rightarrow> bool" where
  "params_typed p \<longleftrightarrow> in_int64 (mp_IntervalS p) \<and> in_int64 (mp_TimeoutMS p) \<and> in_int64 (mp_FailureThreshold p)
     \<and> in_int64 (mp_WindowSize p) \<and> finite_fl (mp_MinAvailability p)"

definition channel_typed :: "Channel \<Rightarrow> bool" where
  "channel_typed c \<longleftrightarrow> in_int64 (ch_Port c) \<and> in_int64 (ch_TimeoutMS c)"

definition retry_typed :: "Retry \<Rightarrow> bool" where
  "retry_typed r \<longleftrightarrow> in_int64 (rt_MaxAttempts r) \<and> in_int64 (rt_BaseDelayMS r)"

definition internet_typed :: "InternetCheck \<Rightarrow> bool" where
  "internet_typed r \<longleftrightarrow> in_int64 (ic_IntervalS r) \<and> in_int64 (ic_TimeoutMS r) \<and> in_int64 (ic_FailureThreshold r)
     \<and> in_int64 (ic_WindowSize r) \<and> finite_fl (ic_MinAvailability r)"

definition speed_typed :: "SpeedCheck \<Rightarrow> bool" where
  "speed_typed r \<longleftrightarrow> in_int64 (sc_IntervalS r) \<and> finite_fl (sc_ThresholdMbps r) \<and> in_int64 (sc_FailureThreshold r)
     \<and> in_int64 (sc_WindowSize r) \<and> finite_fl (sc_MinAvailability r)"

definition ping_typed :: "PingMonitor \<Rightarrow> bool" where
  "ping_typed r \<longleftrightarrow> list_all (\<lambda>t. params_typed (pt_MonitorParams t)) (pm_Targets r)"

definition url_typed :: "URLMonitor \<Rightarrow> bool" where
  "url_typed r \<longleftrightarrow> list_all (\<lambda>t. params_typed (ut_MonitorParams t)) (um_Targets r)"

definition roles_typed :: "Roles \<Rightarrow> bool" where
  "roles_typed r \<longleftrightarrow> in_int64 (ps_ReadTimeoutMS (ro_PongServer r)) \<and> ping_typed (ro_PingMonitor r) \<and> url_typed (ro_URLMonitor r)
     \<and> internet_typed (ro_InternetCheck r) \<and> speed_typed (ro_SpeedCheck r)"

definition config_typed :: "Config \<Rightarrow> bool" where
  "config_typed c \<longleftrightarrow> retry_typed (c_Retry c) \<and> in_int64 (c_SummaryIntervalS c)
     \<and> (\<forall>p \<in> ran (c_Profiles c). params_typed (pf_MonitorParams p)) \<and> (\<forall>ch \<in> ran (c_Channels c). channel_typed ch)
     \<and> roles_typed (c_Roles c)"

subsection \<open>The decoders implement the schema\<close>

interpretation int_dec: element_decoder SInt in_int64 dec_int 0
proof
  show "dec_int v r = None \<longleftrightarrow> \<not> conforms SInt v" for v r by (cases v) (simp_all add: dec_int_def)
  show "in_int64 r \<Longrightarrow> dec_int v r = Some r' \<Longrightarrow> in_int64 r'" for v r r'
    by (cases v) (auto simp: dec_int_def parse_int_def Let_def split: prod.splits if_splits)
  show "in_int64 0" by (simp add: in_int64_def)
qed

interpretation float_dec: element_decoder SFloat finite_fl dec_float "Fin 0"
proof
  show "dec_float v r = None \<longleftrightarrow> \<not> conforms SFloat v" for v r by (cases v) (simp_all add: dec_float_def)
  show "finite_fl r \<Longrightarrow> dec_float v r = Some r' \<Longrightarrow> finite_fl r'" for v r r'
    by (cases v) (auto simp: dec_float_def parse_float_def finite_fl_def split: float64.splits)
  show "finite_fl (Fin 0)" by (simp add: finite_fl_def)
qed

interpretation string_dec: element_decoder SString "\<lambda>_. True" dec_string "''''"
proof
  show "dec_string v r = None \<longleftrightarrow> \<not> conforms SString v" for v r by (cases v) (simp_all add: dec_string_def)
qed simp_all

interpretation bool_dec: element_decoder SBool "\<lambda>_. True" dec_bool False
proof
  show "dec_bool v r = None \<longleftrightarrow> \<not> conforms SBool v" for v r by (cases v) (simp_all add: dec_bool_def)
qed simp_all

lemma strings_fails: "dec_strings v r = None \<longleftrightarrow> \<not> conforms (SList SString) v"
  by (simp add: dec_strings_def string_dec.slice.fails)

lemmas leaf_fails = int_dec.fails float_dec.fails string_dec.fails bool_dec.fails strings_fails
lemmas leaf_keeps = int_dec.keeps float_dec.keeps

lemma put_params_fails: "map_of params_schema f = Some e \<Longrightarrow> put_params f v p = None \<longleftrightarrow> \<not> conforms e v"
  by (auto simp: params_schema_def put_params_def leaf_fails split: if_splits)

lemma put_params_keeps:
  "params_typed p \<Longrightarrow> put_params f v p = Some p' \<Longrightarrow> params_typed p'"
  by (auto simp: put_params_def params_typed_def split: if_splits dest: leaf_keeps)

interpretation profile_dec: struct_decoder params_schema "\<lambda>p. params_typed (pf_MonitorParams p)" put_profile
  by unfold_locales (auto simp: put_profile_def put_params_fails dest: put_params_keeps)

interpretation ping_target_dec: struct_decoder "[(''target'', SString), (''profile'', SString)] @ params_schema"
  "\<lambda>t. params_typed (pt_MonitorParams t)" put_ping_target
  by unfold_locales (auto simp: put_ping_target_def put_params_fails leaf_fails split: if_splits dest: put_params_keeps)

interpretation url_target_dec: struct_decoder "[(''url'', SString), (''profile'', SString)] @ params_schema"
  "\<lambda>t. params_typed (ut_MonitorParams t)" put_url_target
  by unfold_locales (auto simp: put_url_target_def put_params_fails leaf_fails split: if_splits dest: put_params_keeps)

interpretation channel_dec: struct_decoder channel_schema channel_typed put_channel
  by unfold_locales (auto simp: channel_schema_def put_channel_def channel_typed_def leaf_fails split: if_splits dest: leaf_keeps)

interpretation retry_dec: struct_decoder retry_schema retry_typed put_retry
  by unfold_locales (auto simp: retry_schema_def put_retry_def retry_typed_def leaf_fails split: if_splits dest: leaf_keeps)

interpretation pong_dec: struct_decoder pong_schema "\<lambda>p. in_int64 (ps_ReadTimeoutMS p)" put_pong
  by unfold_locales (auto simp: pong_schema_def put_pong_def leaf_fails split: if_splits dest: leaf_keeps)

interpretation internet_dec: struct_decoder internet_schema internet_typed put_internet
  by unfold_locales (auto simp: internet_schema_def put_internet_def internet_typed_def leaf_fails split: if_splits dest: leaf_keeps)

interpretation speed_dec: struct_decoder speed_schema speed_typed put_speedcheck
  by unfold_locales (auto simp: speed_schema_def put_speedcheck_def speed_typed_def leaf_fails split: if_splits dest: leaf_keeps)

lemma dec_struct_eqs:
  "dec_profile = dec_strict (map fst params_schema) put_profile"
  "dec_ping_target = dec_strict (map fst ([(''target'', SString), (''profile'', SString)] @ params_schema)) put_ping_target"
  "dec_url_target = dec_strict (map fst ([(''url'', SString), (''profile'', SString)] @ params_schema)) put_url_target"
  "dec_channel = dec_strict (map fst channel_schema) put_channel"
  "dec_retry = dec_strict (map fst retry_schema) put_retry"
  "dec_pong = dec_strict (map fst pong_schema) put_pong"
  "dec_internet = dec_strict (map fst internet_schema) put_internet"
  "dec_speedcheck = dec_strict (map fst speed_schema) put_speedcheck"
  "dec_ping_monitor = dec_strict (map fst ping_schema) put_ping_monitor"
  "dec_url_monitor = dec_strict (map fst url_schema) put_url_monitor"
  "dec_roles = dec_strict (map fst roles_schema) put_roles"
  "dec_config = dec_strict (map fst config_fields) put_config"
  by (simp_all add: dec_profile_def dec_ping_target_def dec_url_target_def dec_channel_def dec_retry_def dec_pong_def
      dec_internet_def dec_speedcheck_def dec_ping_monitor_def dec_url_monitor_def dec_roles_def dec_config_def param_fields_def
      params_schema_def channel_schema_def retry_schema_def pong_schema_def internet_schema_def speed_schema_def
      ping_schema_def url_schema_def roles_schema_def config_fields_def)

lemma zero_typed: "params_typed zeroParams" "channel_typed zeroChannel"
  by (simp_all add: params_typed_def zeroParams_def channel_typed_def zeroChannel_def finite_fl_def in_int64_def)

interpretation profile_elem: element_decoder "SStruct params_schema" "\<lambda>p. params_typed (pf_MonitorParams p)" dec_profile
  "\<lparr>pf_MonitorParams = zeroParams\<rparr>"
  unfolding dec_struct_eqs by unfold_locales (simp add: zero_typed)

interpretation channel_elem: element_decoder "SStruct channel_schema" channel_typed dec_channel zeroChannel
  unfolding dec_struct_eqs by unfold_locales (simp add: zero_typed)

interpretation ping_target_elem: element_decoder "SStruct ([(''target'', SString), (''profile'', SString)] @ params_schema)"
  "\<lambda>t. params_typed (pt_MonitorParams t)" dec_ping_target "\<lparr>pt_Target = '''', pt_Profile = '''', pt_MonitorParams = zeroParams\<rparr>"
  unfolding dec_struct_eqs by unfold_locales (simp add: zero_typed)

interpretation url_target_elem: element_decoder "SStruct ([(''url'', SString), (''profile'', SString)] @ params_schema)"
  "\<lambda>t. params_typed (ut_MonitorParams t)" dec_url_target "\<lparr>ut_URL = '''', ut_Profile = '''', ut_MonitorParams = zeroParams\<rparr>"
  unfolding dec_struct_eqs by unfold_locales (simp add: zero_typed)

interpretation ping_dec: struct_decoder ping_schema ping_typed put_ping_monitor
  by unfold_locales (auto simp: ping_schema_def put_ping_monitor_def ping_typed_def leaf_fails ping_target_elem.slice.fails
      split: if_splits dest: ping_target_elem.slice.keeps)

interpretation url_dec: struct_decoder url_schema url_typed put_url_monitor
  by unfold_locales (auto simp: url_schema_def put_url_monitor_def url_typed_def leaf_fails url_target_elem.slice.fails
      split: if_splits dest: url_target_elem.slice.keeps)

lemmas role_fails = pong_dec.fails ping_dec.fails url_dec.fails internet_dec.fails speed_dec.fails
lemmas role_keeps = pong_dec.keeps ping_dec.keeps url_dec.keeps internet_dec.keeps speed_dec.keeps

interpretation roles_dec: struct_decoder roles_schema roles_typed put_roles
proof
  show "put_roles f v r = None \<longleftrightarrow> \<not> conforms e v" if "map_of roles_schema f = Some e" for f e v r
    using that by (auto simp: roles_schema_def put_roles_def dec_struct_eqs role_fails split: if_splits)
  show "roles_typed r \<Longrightarrow> put_roles f v r = Some r' \<Longrightarrow> roles_typed r'" for f v r r'
    by (auto simp: put_roles_def roles_typed_def dec_struct_eqs split: if_splits dest: role_keeps)
qed

interpretation config_dec: struct_decoder config_fields config_typed put_config
proof
  show "put_config f v r = None \<longleftrightarrow> \<not> conforms e v" if "map_of config_fields f = Some e" for f e v r
    using that profile_elem.entry.fails channel_elem.entry.fails int_dec.fails
      retry_dec.fails [folded dec_struct_eqs] roles_dec.fails [folded dec_struct_eqs]
    by (auto simp: config_fields_def put_config_def split: if_splits)
  show "config_typed r \<Longrightarrow> put_config f v r = Some r' \<Longrightarrow> config_typed r'" for f v r r'
    using profile_elem.entry.keeps channel_elem.entry.keeps int_dec.keeps
      retry_dec.keeps [folded dec_struct_eqs] roles_dec.keeps [folded dec_struct_eqs]
    by (auto simp: put_config_def config_typed_def split: if_splits)
qed

lemma zeroConfig_typed: "config_typed zeroConfig"
  by (simp add: config_typed_def zeroConfig_def retry_typed_def roles_typed_def ping_typed_def url_typed_def
      internet_typed_def speed_typed_def finite_fl_def in_int64_def)

lemma dec_config_fails: "dec_config v r = None \<longleftrightarrow> \<not> conforms config_schema v"
  by (simp only: dec_struct_eqs config_schema_def config_dec.fails)

lemma decode_config_typed: "decode_config data = Inr c \<Longrightarrow> config_typed c"
  using config_dec.keeps [OF zeroConfig_typed]
  by (auto simp: decode_config_def dec_struct_eqs split: sum.splits option.splits)

lemma effective_typed: "params_typed p \<Longrightarrow> params_typed src \<Longrightarrow> params_typed (effective p src)"
  by (simp add: params_typed_def effective_def in_int64_def finite_fl_def)

lemma source_typed:
  assumes "config_typed c"
  shows "params_typed (ping_source c t)" and "params_typed (url_source c u)"
proof -
  have "params_typed (profile_params (c_Profiles c) own dflt)" for own dflt
    using assms zero_typed(1) by (auto simp: profile_params_def config_typed_def ran_def split: option.splits)
  then show "params_typed (ping_source c t)" "params_typed (url_source c u)"
    by (simp_all add: ping_source_def url_source_def Let_def zero_typed)
qed

lemma effective_config_typed:
  assumes "config_typed c"
  shows "config_typed (effective_config c)"
proof -
  have "ping_typed (effective_ping c)" "url_typed (effective_url c)"
    using assms source_typed [OF assms] unfolding config_typed_def roles_typed_def ping_typed_def url_typed_def
    by (auto simp: effective_ping_def effective_url_def Let_def list_all_iff intro!: effective_typed)
  moreover have "channel_typed (with_timeout ch)" if "channel_typed ch" for ch
    using that by (simp add: channel_typed_def with_timeout_def in_int64_def)
  then have "\<forall>ch \<in> ran (map_option with_timeout \<circ> c_Channels c). channel_typed ch"
    using assms by (fastforce simp: config_typed_def ran_def)
  ultimately show ?thesis
    using assms unfolding config_typed_def roles_typed_def
    by (simp add: effective_config_def Let_def retry_typed_def internet_typed_def speed_typed_def in_int64_def)
qed

lemma no_parse_error:
  "validateTrigger w tr ws ma \<noteq> Some (ParseConfig e)" "checkNotify chs w ns \<noteq> Some (ParseConfig e)"
  "validateChannel n ch \<noteq> Some (ParseConfig e)" "validateParams chs w p \<noteq> Some (ParseConfig e)"
proof -
  show tr: "validateTrigger w tr ws ma \<noteq> Some (ParseConfig e)" for w tr ws ma by (simp add: validateTrigger_def)
  show nt: "checkNotify chs w ns \<noteq> Some (ParseConfig e)" for w ns
    by (auto simp: checkNotify_def dest!: first_error_SomeD split: if_splits)
  show "validateChannel n ch \<noteq> Some (ParseConfig e)" by (simp add: validateChannel_def)
  show "validateParams chs w p \<noteq> Some (ParseConfig e)"
    using tr nt by (auto simp: validateParams_def err_then_def split: option.split)
qed

lemma err_then_no_parse:
  "a \<noteq> Some (ParseConfig e) \<Longrightarrow> b \<noteq> Some (ParseConfig e) \<Longrightarrow> err_then a b \<noteq> Some (ParseConfig e)"
  by (cases a) auto

lemma first_error_no_parse:
  "(\<And>x. x \<in> set xs \<Longrightarrow> f x \<noteq> Some (ParseConfig e)) \<Longrightarrow> first_error f xs \<noteq> Some (ParseConfig e)"
  by (auto dest: first_error_SomeD)

lemma roles_no_parse_error: "validateRoles c \<noteq> Some (ParseConfig e)"
proof -
  have ping: "validatePing chs r \<noteq> Some (ParseConfig e)" for chs r
    using first_error_no_parse [of "enumerate 0 (pm_Targets r)"]
    by (simp add: validatePing_def Let_def split_beta no_parse_error)
  have url: "validateURL chs r \<noteq> Some (ParseConfig e)" for chs r
    using first_error_no_parse [of "enumerate 0 (um_Targets r)"]
    by (simp add: validateURL_def Let_def split_beta no_parse_error split: option.split)
  show ?thesis
    unfolding validateRoles_def Let_def
    by (intro err_then_no_parse ping url)
      (simp_all add: validatePong_def validateInternet_def validateSpeed_def Let_def err_then_no_parse no_parse_error)
qed

lemma Load_decoded_errors: "Load_decoded ord ord' c \<noteq> Inl (ParseConfig e)"
proof -
  have "Validate ord' c' \<noteq> Some (ParseConfig e)" for c'
    using first_error_no_parse [of ord']
    by (simp add: Validate_def validateChannels_def err_then_no_parse roles_no_parse_error no_parse_error split: option.split)
  then show ?thesis
    by (auto simp: Load_decoded_def or_fail_Inl Let_def split: option.splits dest!: resolveProfiles_Inl)
qed

subsection \<open>Properties\<close>

text \<open>
  C14. Loading fails with a parse error exactly when the file does not start with a JSON value that
  conforms to the schema of the configuration: an unknown key at any depth is such an error, as is a
  value of the wrong type, and as are integers with a fraction or outside 64 bits.
\<close>

theorem Load_parses_exactly_schema:
  "(\<exists>e. Load ord ord' (Inr data) = Inl (ParseConfig e)) \<longleftrightarrow>
    \<not> (\<exists>v. json_decode data = Inr v \<and> conforms config_schema v)"
proof (cases "json_decode data")
  case (Inr v)
  then show ?thesis
  proof (cases "dec_config v zeroConfig")
    case None
    with Inr dec_config_fails [of v zeroConfig] show ?thesis by (simp add: Load_def decode_config_def)
  next
    case (Some c)
    moreover from this have "conforms config_schema v" using dec_config_fails [of v zeroConfig] by simp
    ultimately show ?thesis using Inr Load_decoded_errors by (auto simp: Load_def decode_config_def)
  qed
qed (simp add: Load_def decode_config_def)

end
