(* ===== verification/URLSpec.thy ===== *)
theory URLSpec
  imports ConfigSpec
begin

text \<open>
  Which URLs the loader accepts: every ordinary absolute http(s) URL, split into its parts, and nothing
  without an http(s) scheme, the two slashes and an authority. The host name itself may be empty.
\<close>

subsection \<open>Schemes\<close>

lemma lower_alpha: "is_alpha (ascii_lower c) \<Longrightarrow> is_alpha c"
  by (auto simp: is_alpha_def ascii_lower_def split: if_splits)

lemma http_scheme_alpha:
  assumes "map ascii_lower sch \<in> {''http'', ''https''}"
  shows "list_all is_alpha sch" "sch \<noteq> []"
proof -
  have "list_all is_alpha ''http''" "list_all is_alpha ''https''" by (simp_all add: is_alpha_def byte_def)
  then have "list_all is_alpha (map ascii_lower sch)" using assms by auto
  then show "list_all is_alpha sch" using lower_alpha by (auto simp: list_all_iff)
  show "sch \<noteq> []" using assms by auto
qed

lemma validateHTTPURL_plain:
  assumes "map ascii_lower sch \<in> {''http'', ''https''}" and "list_all host_char host"
    and "path = [] \<or> hd path = CHR ''/''" and "list_all path_char path" and "host @ port_text port \<noteq> []"
  shows "validateHTTPURL (sch @ ''://'' @ host @ port_text port @ path) = None"
  unfolding validateHTTPURL_def url_Parse_plain [OF http_scheme_alpha [OF assms(1)] assms(2-4)]
  using assms(1,5) by auto

lemma port_8080: "port_text (Some 8080) = '':8080''"
  by (simp add: port_text_def nat_text.simps digit_def char_of_def bit_0)

subsection \<open>Properties\<close>

text \<open>
  C15. The URL check of the loader accepts every absolute http or https URL made of a host name, an
  optional port and a path of plain characters, whatever the case of the scheme; and whatever it
  accepts has an http or https scheme, two slashes and a non-empty authority.
\<close>

theorem validateHTTPURL_http_urls:
  assumes "map ascii_lower sch \<in> {''http'', ''https''}" and "host \<noteq> []" and "list_all host_char host"
    and "path = [] \<or> hd path = CHR ''/''" and "list_all path_char path"
  shows "validateHTTPURL (sch @ ''://'' @ host @ port_text port @ path) = None
    \<and> (validateHTTPURL raw = None \<longrightarrow> (\<exists>s c rest. raw = s @ ''://'' @ c # rest
        \<and> map ascii_lower s \<in> {''http'', ''https''} \<and> c \<notin> {CHR ''/'', CHR ''?'', CHR ''#''}))"
proof -
  have "\<exists>s c rest. raw = s @ ''://'' @ c # rest \<and> map ascii_lower s \<in> {''http'', ''https''}
      \<and> c \<notin> {CHR ''/'', CHR ''?'', CHR ''#''}" if v: "validateHTTPURL raw = None"
  proof -
    obtain u where u: "url_Parse raw = Inr u" "u_Scheme u \<in> {''http'', ''https''}" "u_Host u \<noteq> []"
      using v by (auto simp: validateHTTPURL_def split: sum.splits if_splits)
    then have "u_Scheme u \<noteq> []" by auto
    from url_Parse_shape [OF u(1) this u(3)] u(2) show ?thesis by metis
  qed
  moreover have "validateHTTPURL (sch @ ''://'' @ host @ port_text port @ path) = None"
    by (rule validateHTTPURL_plain [OF assms(1,3-5)]) (use assms(2) in simp)
  ultimately show ?thesis by blast
qed

theorem validateHTTPURL_http_urls_witness:
  "validateHTTPURL ''http://svc.local:8080/health/live'' = None"
proof -
  have "map ascii_lower ''http'' \<in> {''http'', ''https''}" by (simp add: ascii_lower_def byte_def)
  moreover have "list_all host_char ''svc.local''" "list_all path_char ''/health/live''"
    by (simp_all add: host_char_def path_char_def is_alpha_def is_control_def byte_def)
  moreover note port_8080
  ultimately show ?thesis
    using validateHTTPURL_http_urls [of "''http''" "''svc.local''" "''/health/live''" "Some 8080" "[]"] by simp
qed

text \<open>A URL without a host name passes the check as long as it has a port.\<close>

lemma port_only_url_accepted: "validateHTTPURL ''http://:8080/'' = None"
proof -
  have "map ascii_lower ''http'' \<in> {''http'', ''https''}" by (simp add: ascii_lower_def byte_def)
  moreover have "list_all path_char ''/''" by (simp add: path_char_def is_control_def byte_def)
  moreover note port_8080
  ultimately show ?thesis using validateHTTPURL_plain [of "''http''" "[]" "''/''" "Some 8080"] by simp
qed

end
