(* ===== verification/Slog.thy ===== *)
theory Slog
  imports Float64
begin

text \<open>
  The structured log lines of \<open>log/slog\<close> that the daemon writes. A call to the logger is a
  value: the operations that log return the lines they emit, in order.
\<close>

datatype Level = LevelInfo | LevelWarn | LevelError

datatype attr =
    Attr_Int string goint
  | Attr_String string string
  | Attr_Float64 string float64
  | Attr_Time string time
  | Attr_Bool string bool
  | Attr_Error string string
  | Attr_Group string "attr list"

record LogLine =
  ll_level :: Level
  ll_msg :: string
  ll_attrs :: "attr list"

definition log_line :: "Level \<Rightarrow> string \<Rightarrow> attr list \<Rightarrow> LogLine" where
  "log_line l m as = \<lparr>ll_level = l, ll_msg = m, ll_attrs = as\<rparr>"

end
