(* ===== verification/Dispatcher.thy ===== *)
theory Dispatcher
  imports Slog GoError
begin

text \<open>
  \<^verbatim>\<open>internal/notify/service.go\<close> and \<^verbatim>\<open>dispatcher.go\<close>: the alert, the retry loop with exponential
  backoff, and the concurrent fan-out. What a channel does in an attempt and what the context
  does meanwhile are arguments: a channel returns an error or nil, or panics; the context is
  either alive or done at each of the two points where the loop looks at it. The trace of a
  delivery is the list of its calls, waits and log lines. Goroutines are interleaved freely by a
  step relation.
\<close>

subsection \<open>Alerts and outcomes\<close>

record Alert =
  al_Role :: string
  al_State :: string
  al_Timestamp :: time
  al_Detail :: string
  al_ConsecutiveFailures :: goint

text \<open>How a call of \<open>Notify\<close> ends: it returns nil or an error, or it panics.\<close>

datatype outcome = Returned "string option" | Panicked string

text \<open>
  The context as one attempt sees it: \<open>cx_err\<close> is \<^verbatim>\<open>ctx.Err()\<close> at the head of the attempt,
  \<open>cx_done\<close> is \<^term>\<open>Some\<close> error when the context is done before the backoff timer fires.
\<close>

record ctx_view =
  cx_err :: "string option"
  cx_done :: "string option"

datatype act = Call goint | Wait duration | Log LogLine

record 'svc Dispatcher =
  d_channels :: "string \<rightharpoonup> 'svc"
  d_maxAttempts :: goint
  d_baseDelay :: duration

definition NewDispatcher :: "(string \<rightharpoonup> 'svc) \<Rightarrow> goint \<Rightarrow> duration \<Rightarrow> 'svc Dispatcher" where
  "NewDispatcher channels maxAttempts baseDelay = (
     let maxAttempts = (if maxAttempts < 1 then 1 else maxAttempts);
         baseDelay = (if baseDelay < 0 then 0 else baseDelay)
     in \<lparr>d_channels = channels, d_maxAttempts = maxAttempts, d_baseDelay = baseDelay\<rparr>)"

definition maxBackoffShift :: goint where
  "maxBackoffShift = 30"

text \<open>\<^verbatim>\<open>int64(1) << uint(shift)\<close>: a negative shift becomes a huge count and the result is 0.\<close>

definition go_shl1 :: "goint \<Rightarrow> goint" where
  "go_shl1 shift = (if shift < 0 \<or> 64 \<le> shift then 0 else wrap64 (2 ^ nat shift))"

definition backoff :: "'svc Dispatcher \<Rightarrow> goint \<Rightarrow> duration" where
  "backoff d attempt = (
     let shift = go_sub attempt 1;
         shift = (if maxBackoffShift < shift then maxBackoffShift else shift)
     in go_mul (d_baseDelay d) (go_shl1 shift))"

definition safeNotify :: "outcome \<Rightarrow> string option" where
  "safeNotify r = (case r of Returned err \<Rightarrow> err | Panicked v \<Rightarrow> Some (''channel panic: '' @ v))"

definition log_cancelled :: "string \<Rightarrow> string \<Rightarrow> LogLine" where
  "log_cancelled name e = log_line LevelWarn ''dispatch cancelled''
     [Attr_String ''channel'' name, Attr_Error ''error'' e]"

definition log_cancelled_backoff :: "string \<Rightarrow> string \<Rightarrow> LogLine" where
  "log_cancelled_backoff name e = log_line LevelWarn ''dispatch cancelled during backoff''
     [Attr_String ''channel'' name, Attr_Error ''error'' e]"

definition log_exhausted :: "string \<Rightarrow> goint \<Rightarrow> string option \<Rightarrow> LogLine" where
  "log_exhausted name n e = log_line LevelError ''dispatch exhausted retries''
     [Attr_String ''channel'' name, Attr_Int ''attempts'' n,
      case e of None \<Rightarrow> Attr_String ''error'' ''nil'' | Some e \<Rightarrow> Attr_Error ''error'' e]"

text \<open>
  The retry loop. The counter runs from 1 to \<open>maxAttempts + 1\<close>, so for every \<open>maxAttempts\<close> below
  the largest 64-bit integer it stays within its type and is written as an integer.
\<close>

function deliver_loop ::
  "'svc Dispatcher \<Rightarrow> string \<Rightarrow> (goint \<Rightarrow> ctx_view) \<Rightarrow> (goint \<Rightarrow> outcome) \<Rightarrow> goint \<Rightarrow> string option \<Rightarrow> act list" where
  "deliver_loop d name ctx notify attempt lastErr = (
     if attempt \<le> d_maxAttempts d then
       (case cx_err (ctx attempt) of
          Some e \<Rightarrow> [Log (log_cancelled name e)]
        | None \<Rightarrow> Call attempt #
            (case safeNotify (notify attempt) of
               None \<Rightarrow> []
             | Some err \<Rightarrow>
                 if attempt < d_maxAttempts d then
                   Wait (backoff d attempt) #
                   (case cx_done (ctx attempt) of
                      Some e \<Rightarrow> [Log (log_cancelled_backoff name e)]
                    | None \<Rightarrow> deliver_loop d name ctx notify (attempt + 1) (Some err))
                 else deliver_loop d name ctx notify (attempt + 1) (Some err)))
     else [Log (log_exhausted name (d_maxAttempts d) lastErr)])"
  by pat_completeness auto
termination
  by (relation "measure (\<lambda>(d, name, ctx, notify, attempt, lastErr). nat (d_maxAttempts d + 1 - attempt))") auto

declare deliver_loop.simps [simp del]

definition deliver :: "'svc Dispatcher \<Rightarrow> string \<Rightarrow> (goint \<Rightarrow> ctx_view) \<Rightarrow> (goint \<Rightarrow> outcome) \<Rightarrow> act list" where
  "deliver d name ctx notify = deliver_loop d name ctx notify 1 None"

subsection \<open>Dispatch as interleaved goroutines\<close>

text \<open>
  The state of a \<open>Dispatch\<close> call: the names its loop has still to visit, and for each goroutine
  it has started the channel and the actions still to come. \<open>ctx\<close> and \<open>notify\<close> give every
  goroutine, by its number, its own view of the context and of its channel. \<open>Dispatch\<close> returns
  in a final state, when the loop is done and the wait group is empty.
\<close>

record pool =
  po_todo :: "string list"
  po_running :: "(string \<times> act list) list"

datatype label = Warned LogLine | Started string | Acted nat act

definition log_unknown :: "string \<Rightarrow> LogLine" where
  "log_unknown name = log_line LevelWarn ''dispatch to unknown channel'' [Attr_String ''channel'' name]"

definition Dispatch_start :: "string list \<Rightarrow> pool" where
  "Dispatch_start names = \<lparr>po_todo = names, po_running = []\<rparr>"

inductive Dispatch_step ::
  "'svc Dispatcher \<Rightarrow> (nat \<Rightarrow> goint \<Rightarrow> ctx_view) \<Rightarrow> (nat \<Rightarrow> 'svc \<Rightarrow> goint \<Rightarrow> outcome)
    \<Rightarrow> pool \<Rightarrow> label \<Rightarrow> pool \<Rightarrow> bool"
  for d ctx notify where
  unknown: "po_todo s = name # ns \<Longrightarrow> d_channels d name = None \<Longrightarrow>
    Dispatch_step d ctx notify s (Warned (log_unknown name)) (s\<lparr>po_todo := ns\<rparr>)"
| start: "po_todo s = name # ns \<Longrightarrow> d_channels d name = Some svc \<Longrightarrow>
    i = length (po_running s) \<Longrightarrow>
    Dispatch_step d ctx notify s (Started name)
      (s\<lparr>po_todo := ns, po_running := po_running s @ [(name, deliver d name (ctx i) (notify i svc))]\<rparr>)"
| act: "i < length (po_running s) \<Longrightarrow> po_running s ! i = (name, a # as) \<Longrightarrow>
    Dispatch_step d ctx notify s (Acted i a) (s\<lparr>po_running := (po_running s)[i := (name, as)]\<rparr>)"

inductive_cases Dispatch_stepE: "Dispatch_step d ctx notify s l s'"

inductive Dispatch_run ::
  "'svc Dispatcher \<Rightarrow> (nat \<Rightarrow> goint \<Rightarrow> ctx_view) \<Rightarrow> (nat \<Rightarrow> 'svc \<Rightarrow> goint \<Rightarrow> outcome)
    \<Rightarrow> pool \<Rightarrow> label list \<Rightarrow> pool \<Rightarrow> bool"
  for d ctx notify where
  stop: "Dispatch_run d ctx notify s [] s"
| step: "Dispatch_run d ctx notify s ls s' \<Longrightarrow> Dispatch_step d ctx notify s' l s'' \<Longrightarrow>
    Dispatch_run d ctx notify s (ls @ [l]) s''"

definition Dispatch_done :: "pool \<Rightarrow> bool" where
  "Dispatch_done s \<longleftrightarrow> po_todo s = [] \<and> (\<forall>r \<in> set (po_running s). snd r = [])"

end
