(* ===== verification/DispatcherSpec.thy ===== *)
theory DispatcherSpec
  imports Dispatcher
begin

text \<open>
  What the dispatcher promises: the exact shape of a delivery (numbered attempts separated by the
  backoff delays, ended by success, cancellation or exhaustion), the delays themselves, and the
  isolation of the channels under every interleaving of their goroutines.
\<close>

subsection \<open>Backoff\<close>

lemma go_shl1_small: "0 \<le> s \<Longrightarrow> s \<le> 30 \<Longrightarrow> go_shl1 s = 2 ^ nat s"
proof -
  assume s: "0 \<le> s" "s \<le> 30"
  then have "(2::int) ^ nat s \<le> 2 ^ 30" by (intro power_increasing) auto
  then have "in_int64 (2 ^ nat s)" by (rule in_int64_upto [rotated]) simp_all
  with s show ?thesis by (simp add: go_shl1_def wrap64_id)
qed

lemma backoff_eq:
  assumes "1 \<le> attempt" and "attempt < 2 ^ 63"
  shows "backoff d attempt = wrap64 (d_baseDelay d * 2 ^ nat (min (attempt - 1) 30))"
proof -
  have "go_sub attempt 1 = attempt - 1"
    using assms by (simp add: go_sub_def wrap64_id in_int64_def)
  then show ?thesis
    using assms by (simp add: backoff_def maxBackoffShift_def Let_def go_mul_def go_shl1_small min_def)
qed

lemma backoff_exact:
  assumes "1 \<le> attempt" and "attempt < 2 ^ 63" and "0 \<le> d_baseDelay d" and "d_baseDelay d < 2 ^ 33"
  shows "backoff d attempt = d_baseDelay d * 2 ^ nat (min (attempt - 1) 30)"
proof -
  have "(2::int) ^ nat (min (attempt - 1) 30) \<le> 2 ^ 30" by (intro power_increasing) auto
  then have le: "d_baseDelay d * 2 ^ nat (min (attempt - 1) 30) \<le> (2 ^ 33 - 1) * 2 ^ 30"
    using assms by (intro mult_mono) auto
  have "in_int64 (d_baseDelay d * 2 ^ nat (min (attempt - 1) 30))"
    by (rule in_int64_upto [OF _ le]) (use assms(3) in simp_all)
  then show ?thesis using assms by (simp add: backoff_eq wrap64_id)
qed

subsection \<open>The shape of a delivery\<close>

definition attempt_error :: "(goint \<Rightarrow> outcome) \<Rightarrow> goint \<Rightarrow> string option" where
  "attempt_error notify a = (case notify a of Returned e \<Rightarrow> e | Panicked v \<Rightarrow> Some (''channel panic: '' @ v))"

text \<open>Attempt \<open>a\<close> fails and the wait after it runs to its end.\<close>

definition retried :: "(goint \<Rightarrow> ctx_view) \<Rightarrow> (goint \<Rightarrow> outcome) \<Rightarrow> goint \<Rightarrow> bool" where
  "retried ctx notify a \<longleftrightarrow> cx_err (ctx a) = None \<and> attempt_error notify a \<noteq> None \<and> cx_done (ctx a) = None"

definition rounds :: "'svc Dispatcher \<Rightarrow> goint \<Rightarrow> goint \<Rightarrow> act list" where
  "rounds d a n = concat (map (\<lambda>b. [Call b, Wait (backoff d b)]) [a..n])"

text \<open>The attempt that ends the delivery.\<close>

definition last_round ::
  "'svc Dispatcher \<Rightarrow> string \<Rightarrow> (goint \<Rightarrow> ctx_view) \<Rightarrow> (goint \<Rightarrow> outcome) \<Rightarrow> goint \<Rightarrow> act list" where
  "last_round d name ctx notify a = (case cx_err (ctx a) of
     Some e \<Rightarrow> [Log (log_cancelled name e)]
   | None \<Rightarrow> (case attempt_error notify a of
       None \<Rightarrow> [Call a]
     | Some err \<Rightarrow>
         if a < d_maxAttempts d
         then [Call a, Wait (backoff d a), Log (log_cancelled_backoff name (the (cx_done (ctx a))))]
         else [Call a, Log (log_exhausted name (d_maxAttempts d) (Some err))]))"

definition delivery :: "'svc Dispatcher \<Rightarrow> string \<Rightarrow> (goint \<Rightarrow> ctx_view) \<Rightarrow> (goint \<Rightarrow> outcome) \<Rightarrow> goint \<Rightarrow> goint \<Rightarrow> act list \<Rightarrow> bool" where
  "delivery d name ctx notify a n tr \<longleftrightarrow> a \<le> n \<and> n \<le> d_maxAttempts d
     \<and> (\<forall>b \<in> {a..<n}. retried ctx notify b)
     \<and> (n < d_maxAttempts d \<longrightarrow> \<not> retried ctx notify n)
     \<and> tr = rounds d a (n - 1) @ last_round d name ctx notify n"

lemma safeNotify_attempt: "safeNotify (notify a) = attempt_error notify a"
  by (simp add: safeNotify_def attempt_error_def)

lemma rounds_simps: "n < a \<Longrightarrow> rounds d a n = []"
  "a \<le> n \<Longrightarrow> rounds d a n = Call a # Wait (backoff d a) # rounds d (a + 1) n"
  by (simp_all add: rounds_def upto_rec1)

lemma deliver_loop_stops:
  assumes "a \<le> d_maxAttempts d" and "a < d_maxAttempts d \<longrightarrow> \<not> retried ctx notify a"
  shows "deliver_loop d name ctx notify a le = last_round d name ctx notify a"
proof -
  have "deliver_loop d name ctx notify (d_maxAttempts d + 1) e = [Log (log_exhausted name (d_maxAttempts d) e)]" for e
    by (subst deliver_loop.simps) simp
  with assms show ?thesis
    by (subst deliver_loop.simps)
      (auto simp: last_round_def safeNotify_attempt retried_def split: option.splits)
qed

lemma deliver_loop_delivery:
  assumes "a \<le> d_maxAttempts d"
  shows "\<exists>n. delivery d name ctx notify a n (deliver_loop d name ctx notify a le)"
  using assms
proof (induction "nat (d_maxAttempts d - a)" arbitrary: a le)
  case 0
  then have "a = d_maxAttempts d" by simp
  then have "delivery d name ctx notify a a (deliver_loop d name ctx notify a le)"
    by (simp add: delivery_def deliver_loop_stops rounds_simps)
  then show ?case by blast
next
  case (Suc k)
  show ?case
  proof (cases "retried ctx notify a")
    case False
    then have "delivery d name ctx notify a a (deliver_loop d name ctx notify a le)"
      using Suc.prems by (simp add: delivery_def deliver_loop_stops rounds_simps)
    then show ?thesis by blast
  next
    case True
    then obtain err where err: "attempt_error notify a = Some err" by (auto simp: retried_def)
    have lt: "a < d_maxAttempts d" using Suc.hyps(2) by simp
    have "deliver_loop d name ctx notify a le =
        Call a # Wait (backoff d a) # deliver_loop d name ctx notify (a + 1) (Some err)"
      using True lt err by (subst deliver_loop.simps) (simp add: retried_def safeNotify_attempt)
    moreover obtain n where n: "delivery d name ctx notify (a + 1) n (deliver_loop d name ctx notify (a + 1) (Some err))"
      using Suc.hyps(1) [of "a + 1" "Some err"] Suc.hyps(2) lt by fastforce
    moreover have "retried ctx notify b" if "b \<in> {a..<n}" for b
      using that n True by (cases "b = a") (auto simp: delivery_def)
    ultimately have "delivery d name ctx notify a n (deliver_loop d name ctx notify a le)"
      using rounds_simps(2) [of a "n - 1" d] by (auto simp: delivery_def)
    then show ?thesis by blast
  qed
qed

lemma delivery_unique:
  assumes "delivery d name ctx notify a n tr" and "delivery d name ctx notify a m tr'"
  shows "n = m"
  using assms unfolding delivery_def by (metis atLeastLessThan_iff linorder_neqE_linordered_idom order.strict_trans2)

lemma delivery_calls:
  assumes "delivery d name ctx notify a n tr"
  shows "Call m \<in> set tr \<longleftrightarrow> a \<le> m \<and> m \<le> d_maxAttempts d \<and> cx_err (ctx m) = None
    \<and> (\<forall>b \<in> {a..<m}. retried ctx notify b)"
proof -
  have rounds: "Call m \<in> set (rounds d a k) \<longleftrightarrow> a \<le> m \<and> m \<le> k" for k by (auto simp: rounds_def)
  have last: "Call m \<in> set (last_round d name ctx notify n) \<longleftrightarrow> m = n \<and> cx_err (ctx n) = None"
    by (auto simp: last_round_def split: option.splits)
  have alive: "cx_err (ctx b) = None" if "b \<in> {a..<n}" for b using assms that by (auto simp: delivery_def retried_def)
  have "\<exists>b \<in> {a..<m}. \<not> retried ctx notify b" if "n < m" "m \<le> d_maxAttempts d"
    using assms that by (intro bexI [of _ n]) (auto simp: delivery_def)
  moreover have "Call m \<in> set tr \<longleftrightarrow> (a \<le> m \<and> m < n) \<or> (m = n \<and> cx_err (ctx n) = None)"
    using assms by (auto simp: delivery_def rounds last)
  moreover have "\<forall>b \<in> {a..<m}. retried ctx notify b" if "m \<le> n" using assms that by (auto simp: delivery_def)
  moreover have "a \<le> n" "n \<le> d_maxAttempts d" using assms by (auto simp: delivery_def)
  ultimately show ?thesis using alive [of m] by (cases m n rule: linorder_cases) auto
qed

lemma delivery_uncancelled:
  assumes "delivery d name ctx notify a n tr" and "\<And>b. cx_err (ctx b) = None \<and> cx_done (ctx b) = None"
  shows "(\<forall>b \<in> {a..<n}. attempt_error notify b \<noteq> None)
    \<and> (case attempt_error notify n of
         None \<Rightarrow> tr = rounds d a (n - 1) @ [Call n]
       | Some e \<Rightarrow> n = d_maxAttempts d
           \<and> tr = rounds d a (n - 1) @ [Call n, Log (log_exhausted name (d_maxAttempts d) (Some e))])"
  using assms unfolding delivery_def retried_def last_round_def by (auto split: option.splits)

subsection \<open>Interleaved deliveries\<close>

definition acts :: "nat \<Rightarrow> label list \<Rightarrow> act list" where
  "acts i ls = concat (map (\<lambda>l. case l of Acted j a \<Rightarrow> if j = i then [a] else [] | _ \<Rightarrow> []) ls)"

definition warnings :: "label list \<Rightarrow> LogLine list" where
  "warnings ls = concat (map (\<lambda>l. case l of Warned w \<Rightarrow> [w] | _ \<Rightarrow> []) ls)"

definition known :: "'svc Dispatcher \<Rightarrow> string list \<Rightarrow> string list" where
  "known d names = filter (\<lambda>n. d_channels d n \<noteq> None) names"

definition own_delivery ::
  "'svc Dispatcher \<Rightarrow> (nat \<Rightarrow> goint \<Rightarrow> ctx_view) \<Rightarrow> (nat \<Rightarrow> 'svc \<Rightarrow> goint \<Rightarrow> outcome) \<Rightarrow> string list \<Rightarrow> nat \<Rightarrow> act list" where
  "own_delivery d ctx notify names i = (let name = known d names ! i in
     deliver d name (ctx i) (notify i (the (d_channels d name))))"

text \<open>What has happened and what is still to come add up, for each goroutine, to its delivery.\<close>

definition pool_rep ::
  "'svc Dispatcher \<Rightarrow> (nat \<Rightarrow> goint \<Rightarrow> ctx_view) \<Rightarrow> (nat \<Rightarrow> 'svc \<Rightarrow> goint \<Rightarrow> outcome) \<Rightarrow> string list \<Rightarrow> label list \<Rightarrow> pool \<Rightarrow> bool" where
  "pool_rep d ctx notify names ls s \<longleftrightarrow> (\<exists>visited. names = visited @ po_todo s
     \<and> map fst (po_running s) = known d visited
     \<and> (\<forall>i < length (po_running s). acts i ls @ snd (po_running s ! i) = own_delivery d ctx notify visited i)
     \<and> (\<forall>i \<ge> length (po_running s). acts i ls = [])
     \<and> warnings ls = map log_unknown (filter (\<lambda>n. d_channels d n = None) visited)
     \<and> length ls + length (po_todo s) + sum_list (map (length \<circ> snd) (po_running s)) =
         length names + (\<Sum>i < length (po_running s). length (own_delivery d ctx notify visited i)))"

lemma trace_simps [simp]:
  "acts i [] = []" "acts i (ls @ ls') = acts i ls @ acts i ls'"
  "acts i [Acted j a] = (if j = i then [a] else [])" "acts i [Warned w] = []" "acts i [Started n] = []"
  "warnings [] = []" "warnings (ls @ ls') = warnings ls @ warnings ls'"
  "warnings [Acted j a] = []" "warnings [Warned w] = [w]" "warnings [Started n] = []"
  by (simp_all add: acts_def warnings_def)

lemma known_simps [simp]: "known d [] = []" "known d (xs @ ys) = known d xs @ known d ys"
  "known d [x] = (if d_channels d x = None then [] else [x])"
  by (auto simp: known_def)

lemma own_delivery_append:
  "i < length (known d xs) \<Longrightarrow> own_delivery d ctx notify (xs @ ys) i = own_delivery d ctx notify xs i"
  by (simp add: own_delivery_def nth_append)

lemma sum_list_update_tail:
  assumes "i < length rs" and "rs ! i = (n, a # as)"
  shows "sum_list (map (length \<circ> snd) rs) = Suc (sum_list (map (length \<circ> snd) (rs[i := (n, as)])))"
  using assms by (induction rs arbitrary: i) (auto simp: nth_Cons split: nat.splits)

lemma pool_rep_start: "pool_rep d ctx notify names [] (Dispatch_start names)"
  by (simp add: pool_rep_def Dispatch_start_def)

lemma pool_rep_unknown:
  assumes "pool_rep d ctx notify names ls s" and "po_todo s = name # ns" and "d_channels d name = None"
  shows "pool_rep d ctx notify names (ls @ [Warned (log_unknown name)]) (s\<lparr>po_todo := ns\<rparr>)"
proof -
  obtain vs where vs: "names = vs @ name # ns" "map fst (po_running s) = known d vs"
    "\<forall>i < length (po_running s). acts i ls @ snd (po_running s ! i) = own_delivery d ctx notify vs i"
    "\<forall>i \<ge> length (po_running s). acts i ls = []"
    "warnings ls = map log_unknown (filter (\<lambda>n. d_channels d n = None) vs)"
    "length ls + Suc (length ns) + sum_list (map (length \<circ> snd) (po_running s)) =
       length names + (\<Sum>i < length (po_running s). length (own_delivery d ctx notify vs i))"
    using assms(1,2) unfolding pool_rep_def by auto
  have len: "length (po_running s) = length (known d vs)" using vs(2) by (metis length_map)
  then have same: "own_delivery d ctx notify (vs @ [name]) i = own_delivery d ctx notify vs i"
    if "i < length (po_running s)" for i
    using that by (simp add: own_delivery_append)
  show ?thesis unfolding pool_rep_def
    by (rule exI [of _ "vs @ [name]"]) (use vs assms(3) same in simp)
qed

lemma pool_rep_start_step:
  assumes "pool_rep d ctx notify names ls s" and "po_todo s = name # ns" and "d_channels d name = Some svc"
    and "k = length (po_running s)"
  shows "pool_rep d ctx notify names (ls @ [Started name])
    (s\<lparr>po_todo := ns, po_running := po_running s @ [(name, deliver d name (ctx k) (notify k svc))]\<rparr>)"
proof -
  obtain vs where vs: "names = vs @ name # ns" "map fst (po_running s) = known d vs"
    "\<forall>i < length (po_running s). acts i ls @ snd (po_running s ! i) = own_delivery d ctx notify vs i"
    "\<forall>i \<ge> length (po_running s). acts i ls = []"
    "warnings ls = map log_unknown (filter (\<lambda>n. d_channels d n = None) vs)"
    "length ls + Suc (length ns) + sum_list (map (length \<circ> snd) (po_running s)) =
       length names + (\<Sum>i < length (po_running s). length (own_delivery d ctx notify vs i))"
    using assms(1,2) unfolding pool_rep_def by auto
  have len: "length (po_running s) = length (known d vs)" using vs(2) by (metis length_map)
  then have same: "own_delivery d ctx notify (vs @ [name]) i = own_delivery d ctx notify vs i"
    if "i < length (po_running s)" for i
    using that by (simp add: own_delivery_append)
  have new: "own_delivery d ctx notify (vs @ [name]) (length (po_running s)) = deliver d name (ctx k) (notify k svc)"
    using assms(3,4) by (simp add: own_delivery_def Let_def len)
  show ?thesis unfolding pool_rep_def
    by (rule exI [of _ "vs @ [name]"])
      (use vs assms(3) same new in \<open>auto simp: nth_append less_Suc_eq\<close>)
qed

lemma pool_rep_act:
  assumes "pool_rep d ctx notify names ls s" and "j < length (po_running s)" and "po_running s ! j = (name, a # as)"
  shows "pool_rep d ctx notify names (ls @ [Acted j a]) (s\<lparr>po_running := (po_running s)[j := (name, as)]\<rparr>)"
proof -
  obtain vs where vs: "names = vs @ po_todo s" "map fst (po_running s) = known d vs"
    "\<forall>i < length (po_running s). acts i ls @ snd (po_running s ! i) = own_delivery d ctx notify vs i"
    "\<forall>i \<ge> length (po_running s). acts i ls = []"
    "warnings ls = map log_unknown (filter (\<lambda>n. d_channels d n = None) vs)"
    "length ls + length (po_todo s) + sum_list (map (length \<circ> snd) (po_running s)) =
       length names + (\<Sum>i < length (po_running s). length (own_delivery d ctx notify vs i))"
    using assms(1) unfolding pool_rep_def by auto
  have "map fst ((po_running s)[j := (name, as)]) = map fst (po_running s)"
    using assms(2,3) by (simp add: map_update list_update_same_conv)
  moreover have "acts i (ls @ [Acted j a]) @ snd ((po_running s)[j := (name, as)] ! i) = own_delivery d ctx notify vs i"
    if "i < length (po_running s)" for i
    using vs(3) that assms(2,3) by (cases "i = j") (auto simp: nth_list_update)
  moreover have "\<forall>i \<ge> length (po_running s). acts i (ls @ [Acted j a]) = []" using vs(4) assms(2) by auto
  ultimately show ?thesis unfolding pool_rep_def
    using vs sum_list_update_tail [OF assms(2,3)] by (intro exI [of _ vs]) simp
qed

lemma Dispatch_step_rep:
  assumes "Dispatch_step d ctx notify s l s'" and "pool_rep d ctx notify names ls s"
  shows "pool_rep d ctx notify names (ls @ [l]) s'"
  using assms by (cases rule: Dispatch_step.cases) (auto intro: pool_rep_unknown pool_rep_start_step pool_rep_act)

lemma Dispatch_run_rep:
  assumes "Dispatch_run d ctx notify (Dispatch_start names) ls s"
  shows "pool_rep d ctx notify names ls s"
  using assms
  by (induction "Dispatch_start names" ls s rule: Dispatch_run.induct)
    (auto intro: pool_rep_start Dispatch_step_rep)

lemma Dispatch_progress:
  assumes "\<not> Dispatch_done s"
  shows "\<exists>l s'. Dispatch_step d ctx notify s l s'"
proof (cases "po_todo s")
  case (Cons name ns)
  then show ?thesis by (cases "d_channels d name") (auto intro: Dispatch_step.intros)
next
  case Nil
  then obtain r where "r \<in> set (po_running s)" "snd r \<noteq> []" using assms by (auto simp: Dispatch_done_def)
  then obtain i name a as where "i < length (po_running s)" "po_running s ! i = (name, a # as)"
    by (metis in_set_conv_nth neq_Nil_conv prod.collapse)
  then show ?thesis by (blast intro: Dispatch_step.act)
qed

definition dispatch_work :: "'svc Dispatcher \<Rightarrow> (nat \<Rightarrow> goint \<Rightarrow> ctx_view) \<Rightarrow> (nat \<Rightarrow> 'svc \<Rightarrow> goint \<Rightarrow> outcome) \<Rightarrow> string list \<Rightarrow> nat" where
  "dispatch_work d ctx notify names =
     length names + (\<Sum>i < length (known d names). length (own_delivery d ctx notify names i))"

lemma pool_rep_bound:
  assumes "pool_rep d ctx notify names ls s"
  shows "length ls \<le> dispatch_work d ctx notify names"
proof -
  obtain vs where vs: "names = vs @ po_todo s" "map fst (po_running s) = known d vs"
    "length ls + length (po_todo s) + sum_list (map (length \<circ> snd) (po_running s)) =
       length names + (\<Sum>i < length (po_running s). length (own_delivery d ctx notify vs i))"
    using assms unfolding pool_rep_def by auto
  have len: "length (po_running s) = length (known d vs)" using vs(2) by (metis length_map)
  have "(\<Sum>i < length (known d vs). length (own_delivery d ctx notify vs i)) =
      (\<Sum>i < length (known d vs). length (own_delivery d ctx notify names i))"
    by (rule sum.cong) (simp_all add: vs(1) own_delivery_append)
  also have "\<dots> \<le> (\<Sum>i < length (known d names). length (own_delivery d ctx notify names i))"
    by (rule sum_mono2) (auto simp: vs(1))
  finally show ?thesis using vs(3) len by (simp add: dispatch_work_def)
qed

lemma Dispatch_completes:
  assumes "Dispatch_run d ctx notify (Dispatch_start names) ls s"
  shows "\<exists>ls' s'. Dispatch_run d ctx notify (Dispatch_start names) (ls @ ls') s' \<and> Dispatch_done s'"
  using assms
proof (induction "dispatch_work d ctx notify names - length ls" arbitrary: ls s rule: less_induct)
  case less
  show ?case
  proof (cases "Dispatch_done s")
    case True
    with less.prems show ?thesis by (intro exI [of _ "[]"]) auto
  next
    case False
    then obtain l s1 where "Dispatch_step d ctx notify s l s1" using Dispatch_progress by blast
    with less.prems have run: "Dispatch_run d ctx notify (Dispatch_start names) (ls @ [l]) s1" by (rule Dispatch_run.step)
    have "length (ls @ [l]) \<le> dispatch_work d ctx notify names"
      by (rule pool_rep_bound [OF Dispatch_run_rep [OF run]])
    then have "dispatch_work d ctx notify names - length (ls @ [l]) < dispatch_work d ctx notify names - length ls" by simp
    from less.hyps [OF this run] show ?thesis by auto
  qed
qed

lemma Dispatch_done_rep:
  assumes "pool_rep d ctx notify names ls s" and "Dispatch_done s"
  shows "(\<forall>i < length (known d names). acts i ls = own_delivery d ctx notify names i)
    \<and> (\<forall>i \<ge> length (known d names). acts i ls = [])
    \<and> warnings ls = map log_unknown (filter (\<lambda>n. d_channels d n = None) names)"
proof -
  have todo: "po_todo s = []" "\<And>i. i < length (po_running s) \<Longrightarrow> snd (po_running s ! i) = []"
    using assms(2) by (auto simp: Dispatch_done_def)
  moreover have "length (po_running s) = length (known d names)"
    using assms(1) todo(1) unfolding pool_rep_def by (auto dest!: arg_cong [where f = length])
  ultimately show ?thesis using assms(1) unfolding pool_rep_def by auto
qed

subsection \<open>Properties\<close>

definition example_dispatcher :: "unit Dispatcher" where
  "example_dispatcher = NewDispatcher [''ops'' \<mapsto> ()] 3 500000000"

definition alive :: "goint \<Rightarrow> ctx_view" where
  "alive _ = \<lparr>cx_err = None, cx_done = None\<rparr>"

definition fails_once :: "goint \<Rightarrow> outcome" where
  "fails_once a = (if a = 1 then Panicked ''nil map'' else Returned None)"

lemma example_dispatcher_fields: "d_maxAttempts example_dispatcher = 3" "d_baseDelay example_dispatcher = 500000000"
  "d_channels example_dispatcher = [''ops'' \<mapsto> ()]"
  by (simp_all add: example_dispatcher_def NewDispatcher_def)

lemma example_delivery: "deliver example_dispatcher ''ops'' alive fails_once = [Call 1, Wait 500000000, Call 2]"
  by (simp add: deliver_def deliver_loop.simps example_dispatcher_fields alive_def fails_once_def safeNotify_def backoff_exact)

text \<open>
  A delivery is attempts 1, 2, \<dots>, each failed attempt followed by the wait of its backoff,
  up to one last attempt \<open>n\<close>: there the context is found cancelled, or the channel succeeds, or
  the wait is cut short, or \<open>n\<close> is the last allowed attempt and the exhaustion is logged with its
  error. The number \<open>n\<close> is unique and within \<open>maxAttempts\<close>; a panic counts as a failed attempt.
\<close>

lemma deliver_retry_protocol:
  assumes "1 \<le> d_maxAttempts d"
  shows "\<exists>!n. 1 \<le> n \<and> n \<le> d_maxAttempts d
     \<and> (\<forall>b \<in> {1..<n}. retried ctx notify b)
     \<and> (n < d_maxAttempts d \<longrightarrow> \<not> retried ctx notify n)
     \<and> deliver d name ctx notify = rounds d 1 (n - 1) @ last_round d name ctx notify n"
  using deliver_loop_delivery [OF assms, of name ctx notify None] delivery_unique [of d name ctx notify 1]
  unfolding deliver_def delivery_def by blast

lemma deliver_retry_protocol_witness:
  "\<exists>n. deliver example_dispatcher ''ops'' alive fails_once =
    rounds example_dispatcher 1 (n - 1) @ last_round example_dispatcher ''ops'' alive fails_once n"
  using deliver_retry_protocol [of example_dispatcher alive fails_once "''ops''"]
  by (auto simp: example_dispatcher_fields)

text \<open>
  C16. A channel is called for the \<open>m\<close>-th time exactly when \<open>m\<close> is within \<open>maxAttempts\<close>, the
  context is alive at that moment, and every earlier attempt failed and was waited out: nothing
  is sent after a success or after a cancellation.
\<close>

theorem deliver_calls_justified:
  assumes "1 \<le> d_maxAttempts d"
  shows "Call m \<in> set (deliver d name ctx notify) \<longleftrightarrow>
    1 \<le> m \<and> m \<le> d_maxAttempts d \<and> cx_err (ctx m) = None \<and> (\<forall>b \<in> {1..<m}. retried ctx notify b)"
  using deliver_loop_delivery [OF assms, of name ctx notify None]
  unfolding deliver_def by (blast dest: delivery_calls)

theorem deliver_calls_justified_witness:
  "Call 2 \<in> set (deliver example_dispatcher ''ops'' alive fails_once)"
proof -
  have "b = 1" if "1 \<le> b" "b < 2" for b :: goint using that by linarith
  then show ?thesis
    using deliver_calls_justified [of example_dispatcher 2 "''ops''" alive fails_once]
    by (auto simp: example_dispatcher_fields retried_def attempt_error_def alive_def fails_once_def)
qed



text \<open>
  C37. For base delays below \<open>2^33\<close> nanoseconds (about 8.6 seconds) the backoff of an attempt is
  the base delay doubled for each earlier attempt, up to thirty doublings, without wrap-around.
\<close>

theorem backoff_doubles:
  assumes "1 \<le> attempt" and "attempt < 2 ^ 63" and "0 \<le> d_baseDelay d" and "d_baseDelay d < 2 ^ 33"
  shows "backoff d attempt = d_baseDelay d * 2 ^ nat (min (attempt - 1) 30)"
  using backoff_exact [OF assms] .

theorem backoff_doubles_witness: "backoff example_dispatcher 3 = 2000000000"
  using backoff_doubles [of 3 example_dispatcher] by (simp add: example_dispatcher_fields)

text \<open>
  The clamp of the shift does not prevent overflow: with a base delay of ten seconds the
  thirty-first backoff is negative, and a timer with a negative delay fires at once.
\<close>

lemma backoff_overflow: "backoff (NewDispatcher channels 40 10000000000) 31 < 0"
  by (simp add: backoff_eq NewDispatcher_def wrap64_def)

text \<open>
  C5. Isolation: when a dispatch has finished, in whatever order its goroutines were scheduled,
  every known channel was delivered to exactly as if it were alone, in the order and number of
  the names given, and every unknown name produced one warning and nothing else.
\<close>

theorem Dispatch_isolates_channels:
  assumes "Dispatch_run d ctx notify (Dispatch_start names) ls s" and "Dispatch_done s"
  shows "(\<forall>i < length (known d names). acts i ls =
      deliver d (known d names ! i) (ctx i) (notify i (the (d_channels d (known d names ! i)))))
    \<and> (\<forall>i \<ge> length (known d names). acts i ls = [])
    \<and> warnings ls = map log_unknown (filter (\<lambda>n. d_channels d n = None) names)"
  using Dispatch_done_rep [OF Dispatch_run_rep [OF assms(1)] assms(2)] by (simp add: own_delivery_def Let_def)

theorem Dispatch_isolates_channels_witness:
  "\<exists>ls s. Dispatch_run example_dispatcher (\<lambda>_. alive) (\<lambda>_ _. fails_once) (Dispatch_start [''x'', ''ops'']) ls s
    \<and> Dispatch_done s \<and> acts 0 ls = [Call 1, Wait 500000000, Call 2] \<and> warnings ls = [log_unknown ''x'']"
proof -
  obtain ls s where run: "Dispatch_run example_dispatcher (\<lambda>_. alive) (\<lambda>_ _. fails_once) (Dispatch_start [''x'', ''ops'']) ls s"
    and dn: "Dispatch_done s"
    using Dispatch_completes [OF Dispatch_run.stop] by fastforce
  from Dispatch_isolates_channels [OF run dn] run dn show ?thesis
    by (intro exI [of _ ls] exI [of _ s]) (simp add: known_def example_dispatcher_fields example_delivery)
qed



end
