(* ===== verification/GoTime.thy ===== *)
theory GoTime
  imports GoStrings
begin

text \<open>
  The texts of a time in the layouts the sources use: RFC 3339 (as in mails, and with nanoseconds as
  \<^verbatim>\<open>Time.MarshalJSON\<close> writes it) and RFC 1123 with a numeric zone. A time is a number of nanoseconds since
  the start of the year 1 in UTC; \<open>zone\<close> is the offset of local time in seconds, which comes from the
  time zone database. The calendar is computed as in the library: cycles of 400, 100, 4 and 1 years, then
  the month.
\<close>

subsection \<open>The calendar\<close>

definition isLeap :: "int \<Rightarrow> bool" where
  "isLeap y \<longleftrightarrow> y mod 4 = 0 \<and> (y mod 100 \<noteq> 0 \<or> y mod 400 = 0)"

definition daysBefore :: "nat \<Rightarrow> int" where
  "daysBefore m = [0, 31, 59, 90, 120, 151, 181, 212, 243, 273, 304, 334, 365] ! m"

text \<open>The year and the day of the year, both counted from the given day since the start of the year 1.\<close>

definition absYear :: "int \<Rightarrow> int \<times> int" where
  "absYear n = (
     let d = n mod 146097;
         n100 = d div 36524; n100 = n100 - n100 div 4;
         d = d - 36524 * n100;
         n4 = d div 1461;
         d = d - 1461 * n4;
         n1 = d div 365; n1 = n1 - n1 div 4;
         d = d - 365 * n1
     in (400 * (n div 146097) + 100 * n100 + 4 * n4 + n1 + 1, d))"

definition absMonth :: "bool \<Rightarrow> int \<Rightarrow> int \<times> int" where
  "absMonth leap yday = (
     if leap \<and> yday = 31 + 29 - 1 then (2, 29)
     else let day = (if leap \<and> yday > 31 + 29 - 1 then yday - 1 else yday);
              month = nat (day div 31);
              nxt = daysBefore (month + 1)
          in if day \<ge> nxt then (int month + 2, day - nxt + 1) else (int month + 1, day - daysBefore month + 1))"

definition absDate :: "int \<Rightarrow> int \<times> int \<times> int" where
  "absDate n = (case absYear n of (year, yday) \<Rightarrow> case absMonth (isLeap year) yday of (month, day) \<Rightarrow> (year, month, day))"

text \<open>The calendar itself: the days before a year, and the number of the day with a date.\<close>

definition year_start :: "int \<Rightarrow> int" where
  "year_start y = 365 * (y - 1) + (y - 1) div 4 - (y - 1) div 100 + (y - 1) div 400"

definition day_number :: "int \<times> int \<times> int \<Rightarrow> int" where
  "day_number ymd = (case ymd of (y, m, d) \<Rightarrow>
     year_start y + daysBefore (nat (m - 1)) + (if isLeap y \<and> m > 2 then 1 else 0) + (d - 1))"

definition days_in :: "int \<Rightarrow> int \<Rightarrow> int" where
  "days_in y m = (if m = 2 \<and> isLeap y then 29 else daysBefore (nat m) - daysBefore (nat (m - 1)))"

text \<open>The step from a cycle to its parts: the last of four parts may be one day longer.\<close>

lemma quarter_cycle:
  fixes r k :: int
  assumes "0 \<le> r" and "r \<le> 4 * k" and "0 < k"
  defines "b \<equiv> r div k - r div k div 4"
  shows "0 \<le> b" "b \<le> 3" "k * b \<le> r" "r \<le> k * b + k" "b < 3 \<Longrightarrow> r < k * b + k"
proof -
  define t where "t = r div k"
  have "k * t + r mod k = r" by (simp add: t_def)
  then have t: "k * t \<le> r" "r < k * t + k" using pos_mod_bound [OF assms(3), of r] pos_mod_sign [OF assms(3), of r] by linarith+
  have t0: "0 \<le> t" using assms(1,3) by (simp add: t_def pos_imp_zdiv_nonneg_iff)
  have "k * t \<le> k * 4" using t(1) assms(2) by simp
  then have "t \<le> 4" using assms(3) by simp
  then consider "t = 4" | "t < 4" by linarith
  then have "0 \<le> b \<and> b \<le> 3 \<and> k * b \<le> r \<and> r \<le> k * b + k \<and> (b < 3 \<longrightarrow> r < k * b + k)"
  proof cases
    case 1
    then have "b = 3" by (simp add: b_def t_def)
    with 1 t assms(2) assms(3) show ?thesis by simp
  next
    case 2
    then have "b = t" using t0 by (simp add: b_def t_def [symmetric])
    with 2 t t0 show ?thesis by auto
  qed
  then show "0 \<le> b" "b \<le> 3" "k * b \<le> r" "r \<le> k * b + k" "b < 3 \<Longrightarrow> r < k * b + k" by auto
qed

lemma mod_succ_zero:
  fixes y m k q :: int
  assumes "0 \<le> k" and "k < m" and "y = m * q + k + 1"
  shows "y mod m = 0 \<longleftrightarrow> k = m - 1"
proof (cases "k = m - 1")
  case True
  then have "y = m * (q + 1)" using assms(3) by (simp add: algebra_simps)
  with True show ?thesis by simp
next
  case False
  have "y mod m = k + 1" by (rule int_mod_pos_eq [of y m q]) (use assms False in simp_all)
  with assms(1) False show ?thesis by simp
qed

lemma absYear_ok:
  assumes "absYear n = (y, d)"
  shows "year_start y + d = n \<and> 0 \<le> d \<and> d < 365 + (if isLeap y then 1 else 0)"
proof -
  define a r b c e where "a = n div 146097" and "r = n mod 146097"
    and "b = r div 36524 - r div 36524 div 4" and "c = (r - 36524 * b) div 1461"
    and "e = (r - 36524 * b - 1461 * c) div 365 - (r - 36524 * b - 1461 * c) div 365 div 4"
  have y: "y - 1 = 400 * a + (100 * b + 4 * c + e)" and d: "d = r - 36524 * b - 1461 * c - 365 * e"
    using assms by (auto simp: absYear_def Let_def a_def r_def b_def c_def e_def)
  have n: "n = 146097 * a + r" and r: "0 \<le> r" "r < 146097" by (simp_all add: a_def r_def)
  have b: "0 \<le> b" "b \<le> 3" "36524 * b \<le> r" "r \<le> 36524 * b + 36524" "b < 3 \<Longrightarrow> r < 36524 * b + 36524"
    using quarter_cycle [of r 36524, folded b_def, OF r(1)] r(2) by simp_all
  define s where "s = r - 36524 * b"
  have s: "0 \<le> s" "s \<le> 36524" "b < 3 \<Longrightarrow> s < 36524" using b r by (auto simp: s_def)
  have c: "0 \<le> c" "c \<le> 24" "1461 * c \<le> s" "s < 1461 * c + 1461" "c = 24 \<Longrightarrow> b < 3 \<Longrightarrow> s < 1461 * c + 1460"
    using s b(2) mult_div_mod_eq [of 1461 s] pos_mod_bound [of 1461 s] pos_mod_sign [of 1461 s]
    unfolding c_def s_def [symmetric] by linarith+
  define q where "q = s - 1461 * c"
  have q: "0 \<le> q" "q \<le> 1460" "c = 24 \<Longrightarrow> b < 3 \<Longrightarrow> q < 1460" using c by (auto simp: q_def)
  have e': "e = q div 365 - q div 365 div 4" unfolding e_def s_def [symmetric] q_def [symmetric] ..
  have e: "0 \<le> e" "e \<le> 3" "365 * e \<le> q" "q \<le> 365 * e + 365" "e < 3 \<Longrightarrow> q < 365 * e + 365"
    using quarter_cycle [of q 365, folded e', OF q(1)] q(2) by simp_all
  have k: "0 \<le> 4 * c + e" "4 * c + e < 100" "0 \<le> 100 * b + 4 * c + e" "100 * b + 4 * c + e < 400" using b c e by linarith+
  have divs: "(y - 1) div 4 = 100 * a + 25 * b + c" "(y - 1) div 100 = 4 * a + b" "(y - 1) div 400 = a"
    using y b c e k by (auto intro!: int_div_pos_eq)
  have leap: "isLeap y \<longleftrightarrow> e = 3 \<and> (c \<noteq> 24 \<or> b = 3)"
  proof -
    have "y = 400 * a + 100 * b + 4 * c + e + 1" using y by simp
    then have "y mod 4 = 0 \<longleftrightarrow> e = 3" "y mod 100 = 0 \<longleftrightarrow> 4 * c + e = 99" "y mod 400 = 0 \<longleftrightarrow> 100 * b + 4 * c + e = 399"
      using mod_succ_zero [of e 4 y "100 * a + 25 * b + c"] mod_succ_zero [of "4 * c + e" 100 y "4 * a + b"]
        mod_succ_zero [of "100 * b + 4 * c + e" 400 y a] e k by simp_all
    moreover have "4 * c + e = 99 \<longleftrightarrow> c = 24 \<and> e = 3" "100 * b + 4 * c + e = 399 \<longleftrightarrow> b = 3 \<and> c = 24 \<and> e = 3"
      using b c e by linarith+
    ultimately show ?thesis by (auto simp: isLeap_def)
  qed
  have "d = q - 365 * e" by (simp add: d q_def s_def)
  then have "year_start y + d = n" unfolding year_start_def divs using y by (simp add: n q_def s_def)
  moreover have "0 \<le> d" "d < 365 + (if isLeap y then 1 else 0)"
    using \<open>d = q - 365 * e\<close> e q leap b by (auto split: if_splits)
  ultimately show ?thesis by blast
qed

lemma month_of_day:
  assumes "0 \<le> day" and "day < 365"
    and "(m, d) = (let k = nat (day div 31); nxt = daysBefore (k + 1)
      in if day \<ge> nxt then (int k + 2, day - nxt + 1) else (int k + 1, day - daysBefore k + 1))"
  shows "1 \<le> m \<and> m \<le> 12 \<and> daysBefore (nat (m - 1)) + d - 1 = day
    \<and> 1 \<le> d \<and> d \<le> daysBefore (nat m) - daysBefore (nat (m - 1)) \<and> (2 < m \<longleftrightarrow> 59 \<le> day)"
proof -
  define k where "k = nat (day div 31)"
  have kd: "31 * int k \<le> day" "day < 31 * int k + 31" using assms(1) by (simp_all add: k_def) linarith+
  with assms(2) have "int k \<le> 11" by linarith
  then have "k \<in> {0, 1, 2, 3, 4, 5, 6, 7, 8, 9, 10, 11}" by simp arith
  then show ?thesis
    using kd assms(2,3) unfolding Let_def k_def [symmetric] by (auto simp: daysBefore_def nat_add_distrib split: if_splits)
qed

lemma absMonth_ok:
  assumes "0 \<le> yday" and "yday < 365 + (if leap then 1 else 0)" and "absMonth leap yday = (m, d)"
  shows "1 \<le> m \<and> m \<le> 12 \<and> daysBefore (nat (m - 1)) + (if leap \<and> m > 2 then 1 else 0) + (d - 1) = yday
    \<and> 1 \<le> d \<and> d \<le> (if m = 2 \<and> leap then 29 else daysBefore (nat m) - daysBefore (nat (m - 1)))"
proof (cases "leap \<and> yday = 31 + 29 - 1")
  case True
  with assms(3) have "m = 2" "d = 29" by (simp_all add: absMonth_def)
  with True show ?thesis by (simp add: daysBefore_def)
next
  case False
  define day where "day = (if leap \<and> yday > 31 + 29 - 1 then yday - 1 else yday)"
  have "0 \<le> day" "day < 365" using assms(1,2) False by (auto simp: day_def split: if_splits)
  moreover have "(m, d) = (let k = nat (day div 31); nxt = daysBefore (k + 1)
      in if day \<ge> nxt then (int k + 2, day - nxt + 1) else (int k + 1, day - daysBefore k + 1))"
    using assms(3) False unfolding absMonth_def day_def [symmetric] by (simp only: if_False Let_def)
  ultimately have "1 \<le> m \<and> m \<le> 12 \<and> daysBefore (nat (m - 1)) + d - 1 = day
    \<and> 1 \<le> d \<and> d \<le> daysBefore (nat m) - daysBefore (nat (m - 1)) \<and> (2 < m \<longleftrightarrow> 59 \<le> day)"
    by (rule month_of_day)
  moreover define lo hi where "lo = daysBefore (nat (m - 1))" and "hi = daysBefore (nat m)"
  moreover have "m = 2 \<Longrightarrow> hi - lo = 28" by (simp add: lo_def hi_def daysBefore_def)
  ultimately show ?thesis using False unfolding lo_def [symmetric] hi_def [symmetric] day_def by (auto split: if_splits)
qed

text \<open>The date computed for a day is a date of the calendar, and the date of that day.\<close>

lemma absDate_ok:
  assumes "absDate n = (y, m, d)"
  shows "day_number (y, m, d) = n" and "1 \<le> m" "m \<le> 12" "1 \<le> d" "d \<le> days_in y m"
proof -
  obtain yday where y: "absYear n = (y, yday)" and md: "absMonth (isLeap y) yday = (m, d)"
    using assms by (auto simp: absDate_def split: prod.splits)
  note a = absYear_ok [OF y]
  have "0 \<le> yday" "yday < 365 + (if isLeap y then 1 else 0)" using a by auto
  from absMonth_ok [OF this md] a
  show "day_number (y, m, d) = n" "1 \<le> m" "m \<le> 12" "1 \<le> d" "d \<le> days_in y m"
    by (auto simp: day_number_def days_in_def)
qed

subsection \<open>Layouts\<close>

definition appendInt :: "int \<Rightarrow> nat \<Rightarrow> string" where
  "appendInt x width = (if x < 0 then ''-'' @ pad width (nat (- x)) else pad width (nat x))"

text \<open>Seconds of local time since the start of the year 1.\<close>

definition time_abs :: "(time \<Rightarrow> int) \<Rightarrow> time \<Rightarrow> int" where
  "time_abs zone t = t div 10 ^ 9 + zone t"

definition date_text :: "int \<Rightarrow> string" where
  "date_text secs = (case absDate (secs div 86400) of (y, m, d) \<Rightarrow>
     appendInt y 4 @ ''-'' @ appendInt m 2 @ ''-'' @ appendInt d 2)"

definition clock_text :: "int \<Rightarrow> string" where
  "clock_text secs = (let s = secs mod 86400 in
     appendInt (s div 3600) 2 @ '':'' @ appendInt (s mod 3600 div 60) 2 @ '':'' @ appendInt (s mod 60) 2)"

definition nano_text :: "int \<Rightarrow> string" where
  "nano_text nanosec = (if nanosec = 0 then '''' else ''.'' @ strings_TrimRight (appendInt nanosec 9) CHR ''0'')"

text \<open>The zone: minutes, with the sign of what is left after dropping the seconds.\<close>

definition zone_text :: "string \<Rightarrow> int \<Rightarrow> string" where
  "zone_text sep offset = (let z = \<bar>offset\<bar> div 60 in
     (if offset < 0 \<and> z \<noteq> 0 then ''-'' else ''+'') @ appendInt (z div 60) 2 @ sep @ appendInt (z mod 60) 2)"

definition format_RFC3339 :: "bool \<Rightarrow> (time \<Rightarrow> int) \<Rightarrow> time \<Rightarrow> string" where
  "format_RFC3339 nanos zone t = date_text (time_abs zone t) @ ''T'' @ clock_text (time_abs zone t)
     @ (if nanos then nano_text (t mod 10 ^ 9) else '''')
     @ (if zone t = 0 then ''Z'' else zone_text '':'' (zone t))"

definition weekday_name :: "int \<Rightarrow> string" where
  "weekday_name n = [''Sun'', ''Mon'', ''Tue'', ''Wed'', ''Thu'', ''Fri'', ''Sat''] ! nat ((n + 1) mod 7)"

definition month_name :: "int \<Rightarrow> string" where
  "month_name m = [''Jan'', ''Feb'', ''Mar'', ''Apr'', ''May'', ''Jun'', ''Jul'', ''Aug'', ''Sep'', ''Oct'', ''Nov'', ''Dec''] ! nat (m - 1)"

definition format_RFC1123Z :: "(time \<Rightarrow> int) \<Rightarrow> time \<Rightarrow> string" where
  "format_RFC1123Z zone t = (let n = time_abs zone t div 86400 in case absDate n of (y, m, d) \<Rightarrow>
     weekday_name n @ '', '' @ appendInt d 2 @ '' '' @ month_name m @ '' '' @ appendInt y 4 @ '' ''
     @ clock_text (time_abs zone t) @ '' '' @ zone_text '''' (zone t))"

text \<open>\<^verbatim>\<open>Time.MarshalJSON\<close>: the text without its quotes, or the error for what RFC 3339 cannot express.\<close>

definition Time_MarshalJSON :: "(time \<Rightarrow> int) \<Rightarrow> time \<Rightarrow> string + string" where
  "Time_MarshalJSON zone t = (
     let s = format_RFC3339 True zone t in
     if s ! 4 \<noteq> CHR ''-'' then Inl ''Time.MarshalJSON: year outside of range [0,9999]''
     else if zone t \<noteq> 0 \<and> 24 \<le> \<bar>zone t\<bar> div 3600 then Inl ''Time.MarshalJSON: timezone hour outside of range [0,23]''
     else Inr s)"

end
