(* ===== verification/Channels.thy ===== *)
theory Channels
  imports Dispatcher GoURL GoTime Json
begin

text \<open>
  The four notification channels of \<^verbatim>\<open>internal/notify\<close>: \<^verbatim>\<open>console.go\<close>, \<^verbatim>\<open>webhook.go\<close>,
  \<^verbatim>\<open>smsgate.go\<close> and \<^verbatim>\<open>email.go\<close>. Sending is explicit: each \<open>Notify\<close> returns what it sent (log
  lines, HTTP requests, SMTP commands) with its error result. The HTTP client, the SMTP server, the
  offset of the local time zone and the text of a URL error are arguments.
\<close>

subsection \<open>Console\<close>

text \<open>The loggers there are: the one \<open>main\<close> makes, and the default of \<^verbatim>\<open>slog\<close>.\<close>

datatype Logger = JSONLogger | DefaultLogger

record Console =
  co_logger :: Logger

definition NewConsole :: "Logger option \<Rightarrow> Console" where
  "NewConsole logger = (let logger = (case logger of None \<Rightarrow> DefaultLogger | Some l \<Rightarrow> l) in \<lparr>co_logger = logger\<rparr>)"

definition Console_Notify :: "Alert \<Rightarrow> LogLine list \<times> string option" where
  "Console_Notify alert = (
     let level = (if al_State alert = ''UNHEALTHY'' then LevelWarn else LevelInfo)
     in ([log_line level ''alert''
           [Attr_String ''role'' (al_Role alert),
            Attr_String ''state'' (al_State alert),
            Attr_Time ''timestamp'' (al_Timestamp alert),
            Attr_String ''detail'' (al_Detail alert),
            Attr_Int ''consecutive_failures'' (al_ConsecutiveFailures alert)]], None))"

subsection \<open>HTTP channels\<close>

record HTTPRequest =
  rq_method :: string
  rq_url :: string
  rq_contentType :: string
  rq_basicAuth :: "(string \<times> string) option"
  rq_body :: string

record http =
  ht_urlError :: "string \<Rightarrow> url_error \<Rightarrow> string"     \<comment> \<open>the text of a URL error\<close>
  ht_do :: "HTTPRequest \<Rightarrow> string + goint"           \<comment> \<open>transport error or status code\<close>

record Webhook =
  wh_url :: string
  wh_timeout :: duration

definition NewWebhook :: "string \<Rightarrow> duration \<Rightarrow> Webhook" where
  "NewWebhook url timeout = \<lparr>wh_url = url, wh_timeout = timeout\<rparr>"

definition marshal_alert :: "(time \<Rightarrow> int) \<Rightarrow> Alert \<Rightarrow> string + json" where
  "marshal_alert zone alert = (case Time_MarshalJSON zone (al_Timestamp alert) of
      Inl err \<Rightarrow> Inl (''json: error calling MarshalJSON for type time.Time: '' @ err)
    | Inr timestamp \<Rightarrow> Inr (JObject
       [(''role'', JString (al_Role alert)), (''state'', JString (al_State alert)),
        (''timestamp'', JString timestamp), (''detail'', JString (al_Detail alert)),
        (''consecutive_failures'', marshal_int (al_ConsecutiveFailures alert))]))"

definition status_error :: "string \<Rightarrow> goint \<Rightarrow> string option" where
  "status_error who code = (if code < 200 \<or> 300 \<le> code
     then Some (who @ '' non-2xx status: '' @ itoa code) else None)"

text \<open>
  The request of a channel, sent: build it, which parses the URL, do it, look at the status.
\<close>

definition post :: "http \<Rightarrow> string \<Rightarrow> HTTPRequest \<Rightarrow> HTTPRequest list \<times> string option" where
  "post net who req = (case url_Parse (rq_url req) of
      Inl err \<Rightarrow> ([], Some (who @ '' request: '' @ ht_urlError net (rq_url req) err))
    | Inr _ \<Rightarrow> ([req], (case ht_do net req of
        Inl err \<Rightarrow> Some (who @ '' post: '' @ err)
      | Inr code \<Rightarrow> status_error who code)))"

definition Webhook_Notify ::
  "http \<Rightarrow> (time \<Rightarrow> int) \<Rightarrow> Webhook \<Rightarrow> Alert \<Rightarrow> HTTPRequest list \<times> string option" where
  "Webhook_Notify net zone w alert = (case marshal_alert zone alert of
      Inl err \<Rightarrow> ([], Some (''webhook marshal: '' @ err))
    | Inr body \<Rightarrow> post net ''webhook''
        \<lparr>rq_method = ''POST'', rq_url = wh_url w, rq_contentType = ''application/json'',
         rq_basicAuth = None, rq_body = json_text body\<rparr>)"

record SMSGate =
  sg_baseURL :: string
  sg_username :: string
  sg_password :: string
  sg_recipients :: "string list"
  sg_timeout :: duration

definition NewSMSGate :: "string \<Rightarrow> string \<Rightarrow> string \<Rightarrow> string list \<Rightarrow> duration \<Rightarrow> SMSGate" where
  "NewSMSGate baseURL username password recipients timeout =
     \<lparr>sg_baseURL = strings_TrimRight baseURL CHR ''/'', sg_username = username, sg_password = password,
      sg_recipients = recipients, sg_timeout = timeout\<rparr>"

definition smsMessage :: "string \<Rightarrow> string list \<Rightarrow> json" where
  "smsMessage text phones = JObject [(''message'', JString text), (''phoneNumbers'', JArray (map JString phones))]"

definition SMSGate_Notify :: "http \<Rightarrow> SMSGate \<Rightarrow> Alert \<Rightarrow> HTTPRequest list \<times> string option" where
  "SMSGate_Notify net s alert = (
     let text = ''[healthd] '' @ al_Role alert @ '' '' @ al_State alert @ '': '' @ al_Detail alert
     in post net ''smsgate''
       \<lparr>rq_method = ''POST'', rq_url = sg_baseURL s @ ''/message'', rq_contentType = ''application/json'',
        rq_basicAuth = Some (sg_username s, sg_password s), rq_body = json_text (smsMessage text (sg_recipients s))\<rparr>)"

subsection \<open>Email\<close>

definition implicitTLSPort :: goint where
  "implicitTLSPort = 465"

definition useImplicitTLS :: "goint \<Rightarrow> bool" where
  "useImplicitTLS port \<longleftrightarrow> port = implicitTLSPort"

datatype smtpSendFunc = SendMail | SendImplicitTLS

record Email =
  em_host :: string
  em_port :: goint
  em_from :: string
  em_to :: "string list"
  em_username :: string
  em_password :: string
  em_send :: smtpSendFunc

definition NewEmail :: "string \<Rightarrow> goint \<Rightarrow> string \<Rightarrow> string list \<Rightarrow> string \<Rightarrow> string \<Rightarrow> Email" where
  "NewEmail host port from to username password =
     \<lparr>em_host = host, em_port = port, em_from = from, em_to = to, em_username = username,
      em_password = password, em_send = (if useImplicitTLS port then SendImplicitTLS else SendMail)\<rparr>"

record PlainAuth =
  pa_username :: string
  pa_password :: string
  pa_host :: string

text \<open>What the implicit-TLS sender does on the wire, in order.\<close>

datatype smtp_cmd =
    Smtp_Dial string string        \<comment> \<open>address and verified server name\<close>
  | Smtp_NewClient string
  | Smtp_Auth PlainAuth
  | Smtp_Mail string
  | Smtp_Rcpt string
  | Smtp_Data
  | Smtp_Write string
  | Smtp_CloseData
  | Smtp_Quit
  | Smtp_CloseConn

text \<open>
  One call of the session: it is recorded, and its error ends the session. \<open>srv\<close> is the answer
  of the server and the library to each call.
\<close>

primrec smtp_session ::
  "(smtp_cmd \<Rightarrow> string option) \<Rightarrow> (smtp_cmd \<times> string) list \<Rightarrow> smtp_cmd list \<times> string option" where
  "smtp_session srv [] = ([], None)"
| "smtp_session srv (x # xs) = (case srv (fst x) of
     Some err \<Rightarrow> ([fst x], Some (snd x @ err))
   | None \<Rightarrow> (case smtp_session srv xs of (cmds, e) \<Rightarrow> (fst x # cmds, e)))"

definition smtp_script :: "PlainAuth option \<Rightarrow> string \<Rightarrow> string list \<Rightarrow> string \<Rightarrow> (smtp_cmd \<times> string) list" where
  "smtp_script auth from to msg =
     (case auth of None \<Rightarrow> [] | Some a \<Rightarrow> [(Smtp_Auth a, ''auth: '')])
     @ [(Smtp_Mail from, ''mail from: '')]
     @ map (\<lambda>rcpt. (Smtp_Rcpt rcpt, ''rcpt '' @ rcpt @ '': '')) to
     @ [(Smtp_Data, ''data: ''), (Smtp_Write msg, ''write body: ''), (Smtp_CloseData, ''close body: ''),
        (Smtp_Quit, '''')]"

text \<open>The deferred \<^verbatim>\<open>client.Close\<close> runs on every return.\<close>

definition sendImplicitTLS ::
  "(smtp_cmd \<Rightarrow> string option) \<Rightarrow>
    string \<Rightarrow> PlainAuth option \<Rightarrow> string \<Rightarrow> string list \<Rightarrow> string \<Rightarrow> smtp_cmd list \<times> string option" where
  "sendImplicitTLS srv addr auth from to msg = (case SplitHostPort addr of
      Inl err \<Rightarrow> ([], Some (''split host: '' @ err))
    | Inr (host, port) \<Rightarrow> (case srv (Smtp_Dial addr host) of
        Some err \<Rightarrow> ([Smtp_Dial addr host], Some (''tls dial: '' @ err))
      | None \<Rightarrow> (case srv (Smtp_NewClient host) of
          Some err \<Rightarrow> ([Smtp_Dial addr host, Smtp_NewClient host, Smtp_CloseConn], Some (''smtp client: '' @ err))
        | None \<Rightarrow> (case smtp_session srv (smtp_script auth from to msg) of
            (cmds, e) \<Rightarrow> ([Smtp_Dial addr host, Smtp_NewClient host] @ cmds @ [Smtp_CloseConn], e)))))"

definition buildMessage ::
  "(time \<Rightarrow> int) \<Rightarrow> string \<Rightarrow> string list \<Rightarrow> string \<Rightarrow> Alert \<Rightarrow> string" where
  "buildMessage zone from to subject alert =
     (''From: '' @ from) @ crlf
   @ (''To: '' @ strings_Join to '', '') @ crlf
   @ (''Subject: '' @ subject) @ crlf
   @ (''Date: '' @ format_RFC1123Z zone (al_Timestamp alert)) @ crlf
   @ ''Content-Type: text/plain; charset=UTF-8'' @ crlf
   @ '''' @ crlf
   @ (''Role: '' @ al_Role alert) @ crlf
   @ (''State: '' @ al_State alert) @ crlf
   @ (''Time: '' @ format_RFC3339 False zone (al_Timestamp alert)) @ crlf
   @ (''Consecutive failures: '' @ itoa (al_ConsecutiveFailures alert)) @ crlf
   @ (''Detail: '' @ al_Detail alert) @ crlf"

text \<open>A mail handed to a sender.\<close>

record Mail =
  ml_addr :: string
  ml_auth :: "PlainAuth option"
  ml_from :: string
  ml_to :: "string list"
  ml_msg :: string

text \<open>
  \<open>send\<close> is how the sender ends; \<open>ctx_done\<close> is the context's error when the select takes the
  cancellation branch, in which case the sender is left running.
\<close>

definition Email_Notify ::
  "(time \<Rightarrow> int) \<Rightarrow> (smtpSendFunc \<Rightarrow> Mail \<Rightarrow> outcome) \<Rightarrow> string option \<Rightarrow>
    Email \<Rightarrow> Alert \<Rightarrow> (smtpSendFunc \<times> Mail) \<times> string option" where
  "Email_Notify zone send ctx_done e alert = (
     let addr = em_host e @ '':'' @ itoa (em_port e);
         subject = ''[healthd] '' @ al_Role alert @ '' '' @ al_State alert;
         msg = buildMessage zone (em_from e) (em_to e) subject alert;
         auth = (if em_username e \<noteq> '''' then Some \<lparr>pa_username = em_username e, pa_password = em_password e,
             pa_host = em_host e\<rparr> else None);
         mail = \<lparr>ml_addr = addr, ml_auth = auth, ml_from = em_from e, ml_to = em_to e, ml_msg = msg\<rparr>
     in ((em_send e, mail),
         (case ctx_done of
            Some err \<Rightarrow> Some err
          | None \<Rightarrow> (case send (em_send e) mail of
              Returned None \<Rightarrow> None
            | Returned (Some err) \<Rightarrow> Some (''email send: '' @ err)
            | Panicked v \<Rightarrow> Some (''email send: '' @ ''email send panic: '' @ v)))))"

end
