(* ===== verification/TimeSpec.thy ===== *)
theory TimeSpec
  imports GoTime
begin

text \<open>
  What the texts of a time tell their reader: the calendar date, the clock and the zone of the layout
  determine the instant to the nanosecond, and no layout breaks a line.
\<close>

subsection \<open>Padded numbers\<close>

lemma zero_digit: "is_digit CHR ''0''" "digit_val CHR ''0'' = 0"
  by (simp_all add: is_digit_def digit_val_def)

lemma read_digits_zeros: "digits_val (replicate k CHR ''0'' @ s) = digits_val s"
proof -
  have "foldl (\<lambda>n c. 10 * n + digit_val c) 0 (replicate k CHR ''0'') = 0" by (induction k) (simp_all add: zero_digit)
  then show ?thesis by (simp add: digits_val_def)
qed

lemma appendInt_field:
  assumes "0 \<le> x" and "x < 10 ^ w" and "0 < w"
  shows "length (appendInt x w) = w" and "int (digits_val (appendInt x w)) = x" and "list_all is_digit (appendInt x w)"
proof -
  have "nat x < 10 ^ w" using assms by (simp add: nat_less_iff)
  then have "length (nat_text (nat x)) \<le> w" using nat_text_length assms(3) by blast
  then show "length (appendInt x w) = w" using assms(1) by (simp add: appendInt_def pad_def)
  show "int (digits_val (appendInt x w)) = x" using assms(1) by (simp add: appendInt_def pad_def read_digits_zeros)
  show "list_all is_digit (appendInt x w)"
    using assms(1) nat_text_digits zero_digit(1) by (auto simp: appendInt_def pad_def list_all_iff)
qed

lemma field2: "0 \<le> x \<Longrightarrow> x < 100 \<Longrightarrow> \<exists>a b. appendInt x 2 = [a, b] \<and> int (digits_val [a, b]) = x"
  using appendInt_field(1,2) [of x 2] by (auto simp: numeral_2_eq_2 length_Suc_conv)

lemma field4: "0 \<le> x \<Longrightarrow> x < 10000 \<Longrightarrow> \<exists>a b c d. appendInt x 4 = [a, b, c, d] \<and> int (digits_val [a, b, c, d]) = x"
  using appendInt_field(1,2) [of x 4] by (auto simp: numeral_eq_Suc length_Suc_conv)

subsection \<open>Reading a time\<close>

definition read_zone :: "string \<Rightarrow> int" where
  "read_zone z = (if z = ''Z'' then 0 else (if take 1 z = ''-'' then - 60 else 60)
     * (60 * int (digits_val (take 2 (drop 1 z))) + int (digits_val (take 2 (drop 4 z)))))"

definition read_nanos :: "string \<Rightarrow> int \<times> string" where
  "read_nanos s = (if take 1 s = ''.''
     then let f = takeWhile is_digit (drop 1 s)
          in (int (digits_val (f @ replicate (9 - length f) CHR ''0'')), dropWhile is_digit (drop 1 s))
     else (0, s))"

definition read_RFC3339 :: "string \<Rightarrow> time" where
  "read_RFC3339 s = (
     let num = (\<lambda>i k. int (digits_val (take k (drop i s))));
         (ns, z) = read_nanos (drop 19 s)
     in (day_number (num 0 4, num 5 2, num 8 2) * 86400 + num 11 2 * 3600 + num 14 2 * 60 + num 17 2 - read_zone z) * 10 ^ 9 + ns)"

lemma read_zone_text:
  assumes "60 dvd z" and "\<bar>z\<bar> < 86400"
  shows "read_zone (if z = 0 then ''Z'' else zone_text '':'' z) = z"
    and "\<exists>c r. (if z = 0 then ''Z'' else zone_text '':'' z) = c # r \<and> c \<noteq> CHR ''.'' \<and> \<not> is_digit c"
proof -
  obtain q where q: "z = 60 * q" using assms(1) by blast
  define m where "m = \<bar>z\<bar> div 60"
  have m: "m = \<bar>q\<bar>" using q by (simp add: m_def abs_mult)
  then have mb: "0 \<le> m" "m < 1440" using assms(2) q by (auto simp: abs_mult)
  then have "0 \<le> m div 60" "m div 60 < 100" "0 \<le> m mod 60" "m mod 60 < 100" by simp_all
  then obtain a b c d where f: "appendInt (m div 60) 2 = [a, b]" "int (digits_val [a, b]) = m div 60"
    "appendInt (m mod 60) 2 = [c, d]" "int (digits_val [c, d]) = m mod 60" using field2 by metis
  have lay: "zone_text '':'' z = (if z < 0 \<and> m \<noteq> 0 then CHR ''-'' else CHR ''+'') # [a, b, CHR '':'', c, d]"
    by (simp add: zone_text_def m_def [symmetric] f(1,3) Let_def)
  have val: "60 * (m div 60) + m mod 60 = m" by simp
  show "read_zone (if z = 0 then ''Z'' else zone_text '':'' z) = z"
    unfolding lay using f(2,4) val m q by (auto simp: read_zone_def)
  show "\<exists>c r. (if z = 0 then ''Z'' else zone_text '':'' z) = c # r \<and> c \<noteq> CHR ''.'' \<and> \<not> is_digit c"
    unfolding lay by (auto simp: is_digit_def)
qed

lemma read_nanos_text:
  assumes "0 \<le> ns" and "ns < 10 ^ 9" and "z = c # r" and "c \<noteq> CHR ''.''" and "\<not> is_digit c"
  shows "read_nanos (nano_text ns @ z) = (ns, z)"
proof (cases "ns = 0")
  case False
  define f where "f = strings_TrimRight (appendInt ns 9) CHR ''0''"
  note fld = appendInt_field [of ns 9, OF assms(1,2)]
  obtain k where k: "appendInt ns 9 = f @ replicate k CHR ''0''" using TrimRight_suffix unfolding f_def by blast
  then have kl: "k = 9 - length f" using fld(1) by (metis add_diff_cancel_left' length_append length_replicate zero_less_numeral)
  have dig: "list_all is_digit f" using fld(3) k by simp
  then have "takeWhile is_digit (f @ z) = f" "dropWhile is_digit (f @ z) = z"
    using assms(3,5) by (auto simp: list_all_iff takeWhile_append2 dropWhile_append2)
  moreover have "int (digits_val (f @ replicate (9 - length f) CHR ''0'')) = ns" using fld(2) k kl by simp
  ultimately show ?thesis using False by (simp add: read_nanos_def nano_text_def f_def [symmetric] Let_def)
qed (use assms in \<open>simp add: read_nanos_def nano_text_def\<close>)

definition year_of :: "(time \<Rightarrow> int) \<Rightarrow> time \<Rightarrow> int" where
  "year_of zone t = fst (absDate (time_abs zone t div 86400))"

lemma month_cases: "1 \<le> m \<Longrightarrow> m \<le> 12 \<Longrightarrow> m \<in> {1, 2, 3, 4, 5, 6, 7, 8, 9, 10, 11, 12 :: int}"
  by simp arith

lemma days_in_bound: "1 \<le> m \<Longrightarrow> m \<le> 12 \<Longrightarrow> days_in y m \<le> 31"
  using month_cases [of m] by (auto simp: days_in_def daysBefore_def)

lemma date_fields:
  assumes "absDate n = (y, m, d)" and "0 \<le> y" and "y < 10000"
  obtains y1 y2 y3 y4 m1 m2 d1 d2 where "appendInt y 4 = [y1, y2, y3, y4]" "int (digits_val [y1, y2, y3, y4]) = y"
    "appendInt m 2 = [m1, m2]" "int (digits_val [m1, m2]) = m" "appendInt d 2 = [d1, d2]" "int (digits_val [d1, d2]) = d"
proof -
  note ok = absDate_ok [OF assms(1)]
  have "0 \<le> d" "d < 100" "0 \<le> m" "m < 100" using ok days_in_bound [OF ok(2,3), of y] by simp_all
  then show thesis using that field4 [OF assms(2,3)] field2 [of m] field2 [of d] by blast
qed

lemma clock_fields:
  fixes secs :: int
  defines "s \<equiv> secs mod 86400"
  obtains h1 h2 m1 m2 s1 s2 where "clock_text secs = [h1, h2, CHR '':'', m1, m2, CHR '':'', s1, s2]"
    "int (digits_val [h1, h2]) * 3600 + int (digits_val [m1, m2]) * 60 + int (digits_val [s1, s2]) = s"
proof -
  have s: "0 \<le> s" "s < 86400" by (simp_all add: s_def)
  define h m c where "h = s div 3600" and "m = s mod 3600 div 60" and "c = s mod 60"
  have "0 \<le> h" "h < 100" "0 \<le> m" "m < 100" "0 \<le> c" "c < 100" using s by (simp_all add: h_def m_def c_def)
  then obtain h1 h2 m1 m2 s1 s2 where f: "appendInt h 2 = [h1, h2]" "int (digits_val [h1, h2]) = h"
    "appendInt m 2 = [m1, m2]" "int (digits_val [m1, m2]) = m" "appendInt c 2 = [s1, s2]" "int (digits_val [s1, s2]) = c"
    using field2 by metis
  have "s mod 3600 mod 60 = c" by (simp add: c_def mod_mod_cancel)
  then have "h * 3600 + m * 60 + c = s" 
    unfolding h_def m_def using div_mult_mod_eq [of s 3600] div_mult_mod_eq [of "s mod 3600" 60] by linarith
  then show thesis
    using that f by (simp add: clock_text_def Let_def s_def [symmetric] h_def [symmetric] m_def [symmetric] c_def [symmetric])
qed

text \<open>The text of a time with nanoseconds is read back as the time.\<close>

lemma read_format_RFC3339:
  assumes "0 \<le> year_of zone t" and "year_of zone t < 10000" and "60 dvd zone t" and "\<bar>zone t\<bar> < 86400"
  shows "read_RFC3339 (format_RFC3339 True zone t) = t"
    and "format_RFC3339 True zone t ! 4 = CHR ''-''"
proof -
  define secs where "secs = time_abs zone t"
  define z where "z = (if zone t = 0 then ''Z'' else zone_text '':'' (zone t))"
  obtain y m d where date: "absDate (secs div 86400) = (y, m, d)" by (metis prod_cases3)
  have y: "0 \<le> y" "y < 10000" using assms(1,2) date by (simp_all add: year_of_def secs_def)
  obtain y1 y2 y3 y4 m1 m2 d1 d2 where df: "appendInt y 4 = [y1, y2, y3, y4]" "int (digits_val [y1, y2, y3, y4]) = y"
    "appendInt m 2 = [m1, m2]" "int (digits_val [m1, m2]) = m" "appendInt d 2 = [d1, d2]" "int (digits_val [d1, d2]) = d"
    using date_fields [OF date y] by blast
  obtain h1 h2 n1 n2 s1 s2 where cf: "clock_text secs = [h1, h2, CHR '':'', n1, n2, CHR '':'', s1, s2]"
    "int (digits_val [h1, h2]) * 3600 + int (digits_val [n1, n2]) * 60 + int (digits_val [s1, s2]) = secs mod 86400"
    using clock_fields [of secs] by blast
  have lay: "format_RFC3339 True zone t = [y1, y2, y3, y4, CHR ''-'', m1, m2, CHR ''-'', d1, d2, CHR ''T'',
      h1, h2, CHR '':'', n1, n2, CHR '':'', s1, s2] @ (nano_text (t mod 10 ^ 9) @ z)"
    by (simp add: format_RFC3339_def date_text_def secs_def [symmetric] date df(1,3,5) cf(1) z_def [symmetric])
  show "format_RFC3339 True zone t ! 4 = CHR ''-''" unfolding lay by simp
  obtain c r where "z = c # r" "c \<noteq> CHR ''.''" "\<not> is_digit c" using read_zone_text(2) [OF assms(3,4)] unfolding z_def by blast
  then have ns: "read_nanos (nano_text (t mod 10 ^ 9) @ z) = (t mod 10 ^ 9, z)" by (intro read_nanos_text) simp_all
  have rz: "read_zone z = zone t" using read_zone_text(1) [OF assms(3,4)] unfolding z_def .
  have dn: "day_number (y, m, d) = secs div 86400" by (rule absDate_ok(1) [OF date])
  have "read_RFC3339 (format_RFC3339 True zone t)
      = (day_number (y, m, d) * 86400 + secs mod 86400 - zone t) * 10 ^ 9 + t mod 10 ^ 9"
    unfolding lay read_RFC3339_def Let_def using df(2,4,6) cf(2) ns rz by (simp add: add.assoc)
  also have "day_number (y, m, d) * 86400 + secs mod 86400 - zone t = t div 10 ^ 9"
    unfolding dn using div_mult_mod_eq [of secs 86400] by (simp add: secs_def time_abs_def)
  also have "t div 10 ^ 9 * 10 ^ 9 + t mod 10 ^ 9 = t" by (rule div_mult_mod_eq)
  finally show "read_RFC3339 (format_RFC3339 True zone t) = t" .
qed

lemma MarshalJSON_ok:
  assumes "0 \<le> year_of zone t" and "year_of zone t < 10000" and "60 dvd zone t" and "\<bar>zone t\<bar> < 86400"
  shows "Time_MarshalJSON zone t = Inr (format_RFC3339 True zone t)"
proof -
  have "\<bar>zone t\<bar> div 3600 < 24" using assms(4) by linarith
  with read_format_RFC3339(2) [OF assms] show ?thesis by (simp add: Time_MarshalJSON_def Let_def)
qed

subsection \<open>No line breaks\<close>

lemma one_line_digits: "list_all is_digit s \<Longrightarrow> one_line s"
  by (auto simp: one_line_def list_all_iff is_digit_def)

lemma one_line_appendInt [simp]: "one_line (appendInt x w)"
proof -
  have "one_line (pad w n)" for n
    using nat_text_digits zero_digit(1) by (intro one_line_digits) (auto simp: pad_def list_all_iff)
  then show ?thesis by (simp add: appendInt_def)
qed

lemma one_line_clock: "one_line (clock_text secs)" "one_line (zone_text '':'' z)" "one_line (zone_text '''' z)"
  by (simp_all add: clock_text_def zone_text_def Let_def)

lemma one_line_RFC3339: "one_line (format_RFC3339 False zone t)"
  using one_line_clock by (simp add: format_RFC3339_def date_text_def split: prod.split)

lemma one_line_weekday: "one_line (weekday_name n)"
proof -
  have "(n + 1) mod 7 \<in> {0, 1, 2, 3, 4, 5, 6}" by simp arith
  then show ?thesis unfolding weekday_name_def by auto
qed

lemma one_line_month: "1 \<le> m \<Longrightarrow> m \<le> 12 \<Longrightarrow> one_line (month_name m)"
  using month_cases [of m] by (auto simp: month_name_def)

lemma one_line_RFC1123Z: "one_line (format_RFC1123Z zone t)"
proof -
  obtain y m d where date: "absDate (time_abs zone t div 86400) = (y, m, d)" by (metis prod_cases3)
  note ok = absDate_ok [OF date]
  show ?thesis
    using one_line_clock one_line_weekday one_line_month [OF ok(2,3)] by (simp add: format_RFC1123Z_def Let_def date)
qed

subsection \<open>ASCII\<close>

lemma appendInt_chars: "c \<in> set (appendInt x w) \<Longrightarrow> is_digit c \<or> c = CHR ''-''"
  using nat_text_digits zero_digit(1) by (auto simp: appendInt_def pad_def split: if_splits)

lemma TrimRight_subset: "set (strings_TrimRight s c) \<subseteq> set s"
  using set_dropWhileD by (fastforce simp: strings_TrimRight_def)

lemma format_RFC3339_ascii: "list_all (\<lambda>c. of_char c < (128 :: nat)) (format_RFC3339 nanos zone t)"
proof -
  have ai: "list_all (\<lambda>c. of_char c < (128 :: nat)) (appendInt x w)" for x w
    using appendInt_chars by (fastforce simp: list_all_iff is_digit_def)
  then have "list_all (\<lambda>c. of_char c < (128 :: nat)) (strings_TrimRight (appendInt x w) c)" for x w c
    using TrimRight_subset by (fastforce simp: list_all_iff)
  with ai show ?thesis
    by (simp add: format_RFC3339_def date_text_def clock_text_def nano_text_def zone_text_def Let_def split: prod.split)
qed

end
