(* ===== verification/Protocol.thy ===== *)
theory Protocol
  imports Json
begin

text \<open>
  \<^verbatim>\<open>internal/protocol/protocol.go\<close>: the wire types, their encoding and decoding, and the response
  constructors. A message is encoded to a JSON value by the struct tags of the source; the text
  of a JSON value is that of the theory \<open>JsonText\<close>.
\<close>

definition Version :: string where "Version = ''0.1''"
definition TypePing :: string where "TypePing = ''ping''"
definition TypePong :: string where "TypePong = ''pong''"
definition TypeGetSummary :: string where "TypeGetSummary = ''get-summary''"
definition TypeSummary :: string where "TypeSummary = ''summary''"
definition TypeError :: string where "TypeError = ''error''"

lemmas protocol_consts = Version_def TypePing_def TypePong_def TypeGetSummary_def TypeSummary_def TypeError_def

subsection \<open>Messages\<close>

record Payload =
  pl_Timestamp :: goint
  pl_Message :: string

record Request =
  req_Version :: string
  req_ID :: string
  req_Type :: string
  req_Payload :: Payload

record wireSpeedSummary =
  wp_Count :: goint
  wp_MinMbps :: float64
  wp_AvgMbps :: float64
  wp_MaxMbps :: float64
  wp_LatestMbps :: float64

record wireCheckSample =
  wc_TimeMS :: goint
  wc_Success :: bool

record wireSpeedSample =
  wv_TimeMS :: goint
  wv_Mbps :: float64

record wireUnitSummary =
  wu_Name :: string
  wu_State :: string
  wu_Availability :: float64
  wu_HistoryAvailability :: float64
  wu_ConsecutiveFailures :: goint
  wu_LastSuccessMS :: goint
  wu_Speed :: "wireSpeedSummary option"
  wu_Checks :: "wireCheckSample list"
  wu_Speeds :: "wireSpeedSample list"

record wireSummary =
  ws_GeneratedAtMS :: goint
  ws_Units :: "wireUnitSummary list"

record Response =
  rsp_Version :: string
  rsp_ID :: string
  rsp_Type :: string
  rsp_Payload :: Payload
  rsp_Summary :: "wireSummary option"

definition zeroPayload :: Payload where
  "zeroPayload = \<lparr>pl_Timestamp = 0, pl_Message = ''''\<rparr>"

definition zeroRequest :: Request where
  "zeroRequest = \<lparr>req_Version = '''', req_ID = '''', req_Type = '''', req_Payload = zeroPayload\<rparr>"

definition zeroResponse :: Response where
  "zeroResponse = \<lparr>rsp_Version = '''', rsp_ID = '''', rsp_Type = '''', rsp_Payload = zeroPayload, rsp_Summary = None\<rparr>"

subsection \<open>Encoding\<close>

definition marshal_payload :: "Payload \<Rightarrow> json" where
  "marshal_payload p = JObject
     (omitempty (pl_Timestamp p = 0) ''timestamp'' (marshal_int (pl_Timestamp p))
      @ omitempty (pl_Message p = '''') ''message'' (JString (pl_Message p)) @ [])"

definition marshal_request :: "Request \<Rightarrow> json" where
  "marshal_request r = JObject
     [(''version'', JString (req_Version r)), (''id'', JString (req_ID r)), (''type'', JString (req_Type r)),
      (''payload'', marshal_payload (req_Payload r))]"

definition marshal_speed :: "wireSpeedSummary \<Rightarrow> string + json" where
  "marshal_speed s =
     or_fail (marshal_float (wp_MinMbps s)) (\<lambda>mn.
     or_fail (marshal_float (wp_AvgMbps s)) (\<lambda>av.
     or_fail (marshal_float (wp_MaxMbps s)) (\<lambda>mx.
     or_fail (marshal_float (wp_LatestMbps s)) (\<lambda>lt.
     Inr (JObject [(''count'', marshal_int (wp_Count s)), (''min_mbps'', mn), (''avg_mbps'', av), (''max_mbps'', mx),
       (''latest_mbps'', lt)])))))"

definition marshal_check :: "wireCheckSample \<Rightarrow> json" where
  "marshal_check c = JObject [(''time_ms'', marshal_int (wc_TimeMS c)), (''success'', JBool (wc_Success c))]"

definition marshal_speed_sample :: "wireSpeedSample \<Rightarrow> string + json" where
  "marshal_speed_sample s = or_fail (marshal_float (wv_Mbps s)) (\<lambda>m.
     Inr (JObject [(''time_ms'', marshal_int (wv_TimeMS s)), (''mbps'', m)]))"

definition marshal_unit :: "wireUnitSummary \<Rightarrow> string + json" where
  "marshal_unit u =
     or_fail (marshal_float (wu_Availability u)) (\<lambda>av.
     or_fail (marshal_float (wu_HistoryAvailability u)) (\<lambda>ha.
     or_fail (case wu_Speed u of None \<Rightarrow> Inr JNull | Some s \<Rightarrow> marshal_speed s) (\<lambda>sp.
     or_fail (map_err marshal_speed_sample (wu_Speeds u)) (\<lambda>sps.
     Inr (JObject
       ([(''name'', JString (wu_Name u)), (''state'', JString (wu_State u)), (''availability_pct'', av),
         (''history_availability_pct'', ha), (''consecutive_failures'', marshal_int (wu_ConsecutiveFailures u))]
        @ omitempty (wu_LastSuccessMS u = 0) ''last_success_ms'' (marshal_int (wu_LastSuccessMS u))
        @ omitempty (wu_Speed u = None) ''speed'' sp
        @ omitempty (wu_Checks u = []) ''checks'' (JArray (map marshal_check (wu_Checks u)))
        @ omitempty (wu_Speeds u = []) ''speeds'' (JArray sps) @ []))))))"

definition marshal_summary :: "wireSummary \<Rightarrow> string + json" where
  "marshal_summary s = or_fail (map_err marshal_unit (ws_Units s)) (\<lambda>us.
     Inr (JObject [(''generated_at_ms'', marshal_int (ws_GeneratedAtMS s)), (''units'', JArray us)]))"

definition marshal_response :: "Response \<Rightarrow> string + json" where
  "marshal_response r =
     or_fail (case rsp_Summary r of None \<Rightarrow> Inr JNull | Some s \<Rightarrow> marshal_summary s) (\<lambda>sm.
     Inr (JObject
       ([(''version'', JString (rsp_Version r)), (''id'', JString (rsp_ID r)), (''type'', JString (rsp_Type r)),
         (''payload'', marshal_payload (rsp_Payload r))]
        @ omitempty (rsp_Summary r = None) ''summary'' sm @ [])))"

definition EncodeRequest :: "Request \<Rightarrow> string + string" where
  "EncodeRequest r = Inr (json_text (marshal_request r))"

definition EncodeResponse :: "Response \<Rightarrow> string + string" where
  "EncodeResponse r = or_fail (marshal_response r) (\<lambda>v. Inr (json_text v))"

subsection \<open>Decoding\<close>

definition put_payload :: "string \<Rightarrow> json \<Rightarrow> Payload \<Rightarrow> Payload option" where
  "put_payload f v p = (
     if f = ''timestamp'' then map_option (\<lambda>x. p\<lparr>pl_Timestamp := x\<rparr>) (dec_int v (pl_Timestamp p))
     else map_option (\<lambda>x. p\<lparr>pl_Message := x\<rparr>) (dec_string v (pl_Message p)))"

definition dec_payload :: "json \<Rightarrow> Payload \<Rightarrow> Payload option" where
  "dec_payload = dec_struct [''timestamp'', ''message''] put_payload"

definition put_request :: "string \<Rightarrow> json \<Rightarrow> Request \<Rightarrow> Request option" where
  "put_request f v r = (
     if f = ''version'' then map_option (\<lambda>x. r\<lparr>req_Version := x\<rparr>) (dec_string v (req_Version r))
     else if f = ''id'' then map_option (\<lambda>x. r\<lparr>req_ID := x\<rparr>) (dec_string v (req_ID r))
     else if f = ''type'' then map_option (\<lambda>x. r\<lparr>req_Type := x\<rparr>) (dec_string v (req_Type r))
     else map_option (\<lambda>x. r\<lparr>req_Payload := x\<rparr>) (dec_payload v (req_Payload r)))"

definition dec_request :: "json \<Rightarrow> Request \<Rightarrow> Request option" where
  "dec_request = dec_struct [''version'', ''id'', ''type'', ''payload''] put_request"

definition put_speed :: "string \<Rightarrow> json \<Rightarrow> wireSpeedSummary \<Rightarrow> wireSpeedSummary option" where
  "put_speed f v s = (
     if f = ''count'' then map_option (\<lambda>x. s\<lparr>wp_Count := x\<rparr>) (dec_int v (wp_Count s))
     else if f = ''min_mbps'' then map_option (\<lambda>x. s\<lparr>wp_MinMbps := x\<rparr>) (dec_float v (wp_MinMbps s))
     else if f = ''avg_mbps'' then map_option (\<lambda>x. s\<lparr>wp_AvgMbps := x\<rparr>) (dec_float v (wp_AvgMbps s))
     else if f = ''max_mbps'' then map_option (\<lambda>x. s\<lparr>wp_MaxMbps := x\<rparr>) (dec_float v (wp_MaxMbps s))
     else map_option (\<lambda>x. s\<lparr>wp_LatestMbps := x\<rparr>) (dec_float v (wp_LatestMbps s)))"

definition dec_speed :: "json \<Rightarrow> wireSpeedSummary \<Rightarrow> wireSpeedSummary option" where
  "dec_speed = dec_struct [''count'', ''min_mbps'', ''avg_mbps'', ''max_mbps'', ''latest_mbps''] put_speed"

definition zeroSpeedSummary :: wireSpeedSummary where
  "zeroSpeedSummary = \<lparr>wp_Count = 0, wp_MinMbps = Fin 0, wp_AvgMbps = Fin 0, wp_MaxMbps = Fin 0, wp_LatestMbps = Fin 0\<rparr>"

definition put_check :: "string \<Rightarrow> json \<Rightarrow> wireCheckSample \<Rightarrow> wireCheckSample option" where
  "put_check f v c = (
     if f = ''time_ms'' then map_option (\<lambda>x. c\<lparr>wc_TimeMS := x\<rparr>) (dec_int v (wc_TimeMS c))
     else map_option (\<lambda>x. c\<lparr>wc_Success := x\<rparr>) (dec_bool v (wc_Success c)))"

definition dec_check :: "json \<Rightarrow> wireCheckSample \<Rightarrow> wireCheckSample option" where
  "dec_check = dec_struct [''time_ms'', ''success''] put_check"

definition zeroWireCheck :: wireCheckSample where
  "zeroWireCheck = \<lparr>wc_TimeMS = 0, wc_Success = False\<rparr>"

definition put_speed_sample :: "string \<Rightarrow> json \<Rightarrow> wireSpeedSample \<Rightarrow> wireSpeedSample option" where
  "put_speed_sample f v s = (
     if f = ''time_ms'' then map_option (\<lambda>x. s\<lparr>wv_TimeMS := x\<rparr>) (dec_int v (wv_TimeMS s))
     else map_option (\<lambda>x. s\<lparr>wv_Mbps := x\<rparr>) (dec_float v (wv_Mbps s)))"

definition dec_speed_sample :: "json \<Rightarrow> wireSpeedSample \<Rightarrow> wireSpeedSample option" where
  "dec_speed_sample = dec_struct [''time_ms'', ''mbps''] put_speed_sample"

definition zeroWireSpeed :: wireSpeedSample where
  "zeroWireSpeed = \<lparr>wv_TimeMS = 0, wv_Mbps = Fin 0\<rparr>"

definition put_unit :: "string \<Rightarrow> json \<Rightarrow> wireUnitSummary \<Rightarrow> wireUnitSummary option" where
  "put_unit f v u = (
     if f = ''name'' then map_option (\<lambda>x. u\<lparr>wu_Name := x\<rparr>) (dec_string v (wu_Name u))
     else if f = ''state'' then map_option (\<lambda>x. u\<lparr>wu_State := x\<rparr>) (dec_string v (wu_State u))
     else if f = ''availability_pct'' then map_option (\<lambda>x. u\<lparr>wu_Availability := x\<rparr>) (dec_float v (wu_Availability u))
     else if f = ''history_availability_pct''
       then map_option (\<lambda>x. u\<lparr>wu_HistoryAvailability := x\<rparr>) (dec_float v (wu_HistoryAvailability u))
     else if f = ''consecutive_failures''
       then map_option (\<lambda>x. u\<lparr>wu_ConsecutiveFailures := x\<rparr>) (dec_int v (wu_ConsecutiveFailures u))
     else if f = ''last_success_ms'' then map_option (\<lambda>x. u\<lparr>wu_LastSuccessMS := x\<rparr>) (dec_int v (wu_LastSuccessMS u))
     else if f = ''speed'' then map_option (\<lambda>x. u\<lparr>wu_Speed := x\<rparr>) (dec_ptr zeroSpeedSummary dec_speed v (wu_Speed u))
     else if f = ''checks'' then map_option (\<lambda>x. u\<lparr>wu_Checks := x\<rparr>) (dec_list dec_check zeroWireCheck v (wu_Checks u))
     else map_option (\<lambda>x. u\<lparr>wu_Speeds := x\<rparr>) (dec_list dec_speed_sample zeroWireSpeed v (wu_Speeds u)))"

definition unit_fields :: "string list" where
  "unit_fields = [''name'', ''state'', ''availability_pct'', ''history_availability_pct'', ''consecutive_failures'',
     ''last_success_ms'', ''speed'', ''checks'', ''speeds'']"

definition zeroUnitSummary :: wireUnitSummary where
  "zeroUnitSummary = \<lparr>wu_Name = '''', wu_State = '''', wu_Availability = Fin 0, wu_HistoryAvailability = Fin 0,
     wu_ConsecutiveFailures = 0, wu_LastSuccessMS = 0, wu_Speed = None, wu_Checks = [], wu_Speeds = []\<rparr>"

definition dec_unit :: "json \<Rightarrow> wireUnitSummary \<Rightarrow> wireUnitSummary option" where
  "dec_unit = dec_struct unit_fields put_unit"

definition put_summary :: "string \<Rightarrow> json \<Rightarrow> wireSummary \<Rightarrow> wireSummary option" where
  "put_summary f v s = (
     if f = ''generated_at_ms'' then map_option (\<lambda>x. s\<lparr>ws_GeneratedAtMS := x\<rparr>) (dec_int v (ws_GeneratedAtMS s))
     else map_option (\<lambda>x. s\<lparr>ws_Units := x\<rparr>) (dec_list dec_unit zeroUnitSummary v (ws_Units s)))"

definition dec_summary :: "json \<Rightarrow> wireSummary \<Rightarrow> wireSummary option" where
  "dec_summary = dec_struct [''generated_at_ms'', ''units''] put_summary"

definition zeroSummary :: wireSummary where
  "zeroSummary = \<lparr>ws_GeneratedAtMS = 0, ws_Units = []\<rparr>"

definition put_response :: "string \<Rightarrow> json \<Rightarrow> Response \<Rightarrow> Response option" where
  "put_response f v r = (
     if f = ''version'' then map_option (\<lambda>x. r\<lparr>rsp_Version := x\<rparr>) (dec_string v (rsp_Version r))
     else if f = ''id'' then map_option (\<lambda>x. r\<lparr>rsp_ID := x\<rparr>) (dec_string v (rsp_ID r))
     else if f = ''type'' then map_option (\<lambda>x. r\<lparr>rsp_Type := x\<rparr>) (dec_string v (rsp_Type r))
     else if f = ''payload'' then map_option (\<lambda>x. r\<lparr>rsp_Payload := x\<rparr>) (dec_payload v (rsp_Payload r))
     else map_option (\<lambda>x. r\<lparr>rsp_Summary := x\<rparr>) (dec_ptr zeroSummary dec_summary v (rsp_Summary r)))"

definition dec_response :: "json \<Rightarrow> Response \<Rightarrow> Response option" where
  "dec_response = dec_struct [''version'', ''id'', ''type'', ''payload'', ''summary''] put_response"

datatype DecodeError = DecodeFailed string | VersionMismatch string

text \<open>The request comes back even on a version mismatch.\<close>

definition DecodeRequest :: "string \<Rightarrow> Request \<times> DecodeError option" where
  "DecodeRequest line = (case json_unmarshal line of
      Inl err \<Rightarrow> (zeroRequest, Some (DecodeFailed err))
    | Inr v \<Rightarrow> (case dec_request v zeroRequest of
        None \<Rightarrow> (zeroRequest, Some (DecodeFailed ''json: cannot unmarshal''))
      | Some r \<Rightarrow> if req_Version r \<noteq> Version then (r, Some (VersionMismatch (req_Version r))) else (r, None)))"

definition DecodeResponse :: "string \<Rightarrow> string + Response" where
  "DecodeResponse line = (case json_unmarshal line of
      Inl err \<Rightarrow> Inl (''decode response: '' @ err)
    | Inr v \<Rightarrow> (case dec_response v zeroResponse of
        None \<Rightarrow> Inl ''decode response: json: cannot unmarshal''
      | Some r \<Rightarrow> Inr r))"

subsection \<open>Responses\<close>

definition NewPong :: "Request \<Rightarrow> Response" where
  "NewPong req = \<lparr>rsp_Version = Version, rsp_ID = req_ID req, rsp_Type = TypePong,
     rsp_Payload = zeroPayload\<lparr>pl_Timestamp := pl_Timestamp (req_Payload req)\<rparr>, rsp_Summary = None\<rparr>"

definition NewSummary :: "string \<Rightarrow> wireSummary \<Rightarrow> Response" where
  "NewSummary ident s = \<lparr>rsp_Version = Version, rsp_ID = ident, rsp_Type = TypeSummary,
     rsp_Payload = zeroPayload, rsp_Summary = Some s\<rparr>"

definition NewError :: "string \<Rightarrow> string \<Rightarrow> Response" where
  "NewError ident msg = \<lparr>rsp_Version = Version, rsp_ID = ident, rsp_Type = TypeError,
     rsp_Payload = zeroPayload\<lparr>pl_Message := msg\<rparr>, rsp_Summary = None\<rparr>"

end
