(* ===== verification/ProtocolSpec.thy ===== *)
theory ProtocolSpec
  imports Protocol
begin

text \<open>
  Round trips of the wire format: decoding an encoded message gives the message back, for
  requests and for responses with any summary of 64-bit integers and doubles.
\<close>

named_theorems dec_simps \<open>one-step facts about decoding a field\<close>

lemma dec_scalar [dec_simps]:
  "dec_string (JString s) t = Some s" "dec_bool (JBool b) c = Some b"
  by (simp_all add: dec_string_def dec_bool_def)

lemma wire_keys [simp]:
  "valid_utf8 ''version''" "valid_utf8 ''id''" "valid_utf8 ''type''" "valid_utf8 ''payload''" "valid_utf8 ''timestamp''"
  "valid_utf8 ''message''" "valid_utf8 ''summary''" "valid_utf8 ''generated_at_ms''" "valid_utf8 ''units''" "valid_utf8 ''name''"
  "valid_utf8 ''state''" "valid_utf8 ''availability_pct''" "valid_utf8 ''history_availability_pct''"
  "valid_utf8 ''consecutive_failures''" "valid_utf8 ''last_success_ms''" "valid_utf8 ''speed''" "valid_utf8 ''checks''"
  "valid_utf8 ''speeds''" "valid_utf8 ''time_ms''" "valid_utf8 ''success''" "valid_utf8 ''mbps''" "valid_utf8 ''count''"
  "valid_utf8 ''min_mbps''" "valid_utf8 ''avg_mbps''" "valid_utf8 ''max_mbps''" "valid_utf8 ''latest_mbps''"
  by (rule valid_key; simp)+

text \<open>A message that reads back: its JSON value is well-formed, and no deeper than the bound.\<close>

definition wire_json :: "nat \<Rightarrow> json \<Rightarrow> bool" where
  "wire_json n v \<longleftrightarrow> good_json v \<and> depth v \<le> n"

lemma wire_json_object:
  assumes "\<And>k v. (k, v) \<in> set kvs \<Longrightarrow> valid_utf8 k \<and> wire_json n v"
  shows "wire_json (Suc n) (JObject kvs)"
  using assms depth_le(2) [of kvs n] by (fastforce simp: wire_json_def list_all_iff)

lemma wire_json_array: "(\<And>v. v \<in> set vs \<Longrightarrow> wire_json n v) \<Longrightarrow> wire_json (Suc n) (JArray vs)"
  using depth_le(1) [of vs n] by (auto simp: wire_json_def list_all_iff)

lemma wire_json_scalar [simp]:
  "wire_json n (marshal_int i)" "wire_json n (JBool b)" "wire_json n (JString s) \<longleftrightarrow> valid_utf8 s"
  "is_double f \<Longrightarrow> marshal_float f = Inr v \<Longrightarrow> wire_json n v"
  by (auto simp: wire_json_def good_marshal_float)

lemma wire_json_omitempty:
  "(k, w) \<in> set (omitempty b k' v) \<Longrightarrow> valid_utf8 k' \<Longrightarrow> (\<not> b \<Longrightarrow> wire_json n v) \<Longrightarrow> valid_utf8 k \<and> wire_json n w"
  by (auto simp: omitempty_def split: if_splits)

lemma wire_json_mono: "wire_json m v \<Longrightarrow> m \<le> n \<Longrightarrow> wire_json n v"
  by (auto simp: wire_json_def)

lemma put_payload_simps [dec_simps]:
  "put_payload ''timestamp'' v p = map_option (\<lambda>x. p\<lparr>pl_Timestamp := x\<rparr>) (dec_int v (pl_Timestamp p))"
  "put_payload ''message'' v p = map_option (\<lambda>x. p\<lparr>pl_Message := x\<rparr>) (dec_string v (pl_Message p))"
  by (simp_all add: put_payload_def)

lemma put_request_simps [dec_simps]:
  "put_request ''version'' v r = map_option (\<lambda>x. r\<lparr>req_Version := x\<rparr>) (dec_string v (req_Version r))"
  "put_request ''id'' v r = map_option (\<lambda>x. r\<lparr>req_ID := x\<rparr>) (dec_string v (req_ID r))"
  "put_request ''type'' v r = map_option (\<lambda>x. r\<lparr>req_Type := x\<rparr>) (dec_string v (req_Type r))"
  "put_request ''payload'' v r = map_option (\<lambda>x. r\<lparr>req_Payload := x\<rparr>) (dec_payload v (req_Payload r))"
  by (simp_all add: put_request_def)

lemma dec_payload_marshal [dec_simps]:
  assumes "in_int64 (pl_Timestamp p)"
  shows "dec_payload (marshal_payload p) zeroPayload = Some p"
  using assms unfolding dec_payload_def marshal_payload_def dec_object_def zeroPayload_def omitempty_def
  by (simp add: dec_simps)

lemma wire_payload: "valid_utf8 (pl_Message p) \<Longrightarrow> wire_json (Suc 0) (marshal_payload p)"
  unfolding marshal_payload_def by (rule wire_json_object) (auto dest!: wire_json_omitempty [where n = 0])

lemma dec_request_marshal:
  assumes "in_int64 (pl_Timestamp (req_Payload r))"
  shows "dec_request (marshal_request r) zeroRequest = Some r"
  unfolding dec_request_def marshal_request_def dec_object_def zeroRequest_def
  by (simp add: dec_simps assms)

definition request_wire_ok :: "Request \<Rightarrow> bool" where
  "request_wire_ok r \<longleftrightarrow> in_int64 (pl_Timestamp (req_Payload r)) \<and> valid_utf8 (req_Version r) \<and> valid_utf8 (req_ID r)
     \<and> valid_utf8 (req_Type r) \<and> valid_utf8 (pl_Message (req_Payload r))"

lemma wire_request: "request_wire_ok r \<Longrightarrow> wire_json 2 (marshal_request r)"
  unfolding marshal_request_def numeral_2_eq_2
  by (rule wire_json_object) (auto simp: request_wire_ok_def wire_payload)

subsection \<open>Summaries\<close>

definition speed_wire_ok :: "wireSpeedSummary \<Rightarrow> bool" where
  "speed_wire_ok s \<longleftrightarrow> in_int64 (wp_Count s) \<and> is_double (wp_MinMbps s) \<and> is_double (wp_AvgMbps s)
     \<and> is_double (wp_MaxMbps s) \<and> is_double (wp_LatestMbps s)"

definition unit_wire_ok :: "wireUnitSummary \<Rightarrow> bool" where
  "unit_wire_ok u \<longleftrightarrow> valid_utf8 (wu_Name u) \<and> valid_utf8 (wu_State u)
     \<and> is_double (wu_Availability u) \<and> is_double (wu_HistoryAvailability u)
     \<and> in_int64 (wu_ConsecutiveFailures u) \<and> in_int64 (wu_LastSuccessMS u)
     \<and> (case wu_Speed u of None \<Rightarrow> True | Some s \<Rightarrow> speed_wire_ok s)
     \<and> (\<forall>c \<in> set (wu_Checks u). in_int64 (wc_TimeMS c))
     \<and> (\<forall>s \<in> set (wu_Speeds u). in_int64 (wv_TimeMS s) \<and> is_double (wv_Mbps s))"

definition response_wire_ok :: "Response \<Rightarrow> bool" where
  "response_wire_ok r \<longleftrightarrow> in_int64 (pl_Timestamp (rsp_Payload r)) \<and> valid_utf8 (rsp_Version r) \<and> valid_utf8 (rsp_ID r)
     \<and> valid_utf8 (rsp_Type r) \<and> valid_utf8 (pl_Message (rsp_Payload r))
     \<and> (case rsp_Summary r of None \<Rightarrow> True
        | Some s \<Rightarrow> in_int64 (ws_GeneratedAtMS s) \<and> (\<forall>u \<in> set (ws_Units s). unit_wire_ok u))"

text \<open>A double has a JSON number that reads back as it.\<close>

lemma wire_float:
  assumes "is_double f"
  obtains v where "marshal_float f = Inr v" and "\<And>old. dec_float v old = Some f" and "\<And>n. wire_json n v"
  using dec_float_marshal [OF assms] wire_json_scalar(4) [OF assms] by metis

lemma dec_speed_marshal:
  assumes "speed_wire_ok s"
  shows "\<exists>v. marshal_speed s = Inr v \<and> dec_speed v old = Some s \<and> v \<noteq> JNull \<and> wire_json 1 v"
proof -
  have ok: "in_int64 (wp_Count s)" "is_double (wp_MinMbps s)" "is_double (wp_AvgMbps s)"
    "is_double (wp_MaxMbps s)" "is_double (wp_LatestMbps s)" using assms by (simp_all add: speed_wire_ok_def)
  obtain mn where mn: "marshal_float (wp_MinMbps s) = Inr mn" "\<And>old. dec_float mn old = Some (wp_MinMbps s)" "\<And>n. wire_json n mn"
    using wire_float [OF ok(2)] by blast
  obtain av where av: "marshal_float (wp_AvgMbps s) = Inr av" "\<And>old. dec_float av old = Some (wp_AvgMbps s)" "\<And>n. wire_json n av"
    using wire_float [OF ok(3)] by blast
  obtain mx where mx: "marshal_float (wp_MaxMbps s) = Inr mx" "\<And>old. dec_float mx old = Some (wp_MaxMbps s)" "\<And>n. wire_json n mx"
    using wire_float [OF ok(4)] by blast
  obtain lt where lt: "marshal_float (wp_LatestMbps s) = Inr lt" "\<And>old. dec_float lt old = Some (wp_LatestMbps s)" "\<And>n. wire_json n lt"
    using wire_float [OF ok(5)] by blast
  have "wire_json (Suc 0) (JObject [(''count'', marshal_int (wp_Count s)), (''min_mbps'', mn), (''avg_mbps'', av),
      (''max_mbps'', mx), (''latest_mbps'', lt)])"
    by (rule wire_json_object) (auto simp: mn av mx lt)
  with mn(1,2) av(1,2) mx(1,2) lt(1,2) ok(1) show ?thesis
    unfolding marshal_speed_def dec_speed_def dec_object_def by (simp add: put_speed_def)
qed

lemma dec_check_marshal: "in_int64 (wc_TimeMS c) \<Longrightarrow> dec_check (marshal_check c) old = Some c"
  by (simp add: dec_check_def marshal_check_def dec_object_def put_check_def dec_simps)

lemma wire_check: "wire_json (Suc 0) (marshal_check c)"
  unfolding marshal_check_def by (rule wire_json_object) auto

lemma dec_speed_sample_marshal:
  assumes "in_int64 (wv_TimeMS s)" and "is_double (wv_Mbps s)"
  shows "\<exists>v. marshal_speed_sample s = Inr v \<and> dec_speed_sample v old = Some s \<and> wire_json 1 v"
proof -
  obtain m where m: "marshal_float (wv_Mbps s) = Inr m" "\<And>old. dec_float m old = Some (wv_Mbps s)" "\<And>n. wire_json n m"
    using wire_float [OF assms(2)] by blast
  have "wire_json (Suc 0) (JObject [(''time_ms'', marshal_int (wv_TimeMS s)), (''mbps'', m)])"
    by (rule wire_json_object) (auto simp: m)
  with m(1,2) assms(1) show ?thesis
    by (simp add: marshal_speed_sample_def dec_speed_sample_def dec_object_def put_speed_sample_def)
qed

lemma map_err_dec:
  assumes "\<And>x. x \<in> set xs \<Longrightarrow> \<exists>v. m x = Inr v \<and> d v zero = Some x \<and> P v"
  shows "\<exists>vs. map_err m xs = Inr vs \<and> dec_elems d zero [] vs = Some xs \<and> (\<forall>v \<in> set vs. P v)"
  using assms by (induction xs) (fastforce split: sum.splits)+

lemma put_unit_simps [dec_simps]:
  "put_unit ''name'' v u = map_option (\<lambda>x. u\<lparr>wu_Name := x\<rparr>) (dec_string v (wu_Name u))"
  "put_unit ''state'' v u = map_option (\<lambda>x. u\<lparr>wu_State := x\<rparr>) (dec_string v (wu_State u))"
  "put_unit ''availability_pct'' v u = map_option (\<lambda>x. u\<lparr>wu_Availability := x\<rparr>) (dec_float v (wu_Availability u))"
  "put_unit ''history_availability_pct'' v u =
     map_option (\<lambda>x. u\<lparr>wu_HistoryAvailability := x\<rparr>) (dec_float v (wu_HistoryAvailability u))"
  "put_unit ''consecutive_failures'' v u =
     map_option (\<lambda>x. u\<lparr>wu_ConsecutiveFailures := x\<rparr>) (dec_int v (wu_ConsecutiveFailures u))"
  "put_unit ''last_success_ms'' v u = map_option (\<lambda>x. u\<lparr>wu_LastSuccessMS := x\<rparr>) (dec_int v (wu_LastSuccessMS u))"
  "put_unit ''speed'' v u = map_option (\<lambda>x. u\<lparr>wu_Speed := x\<rparr>) (dec_ptr zeroSpeedSummary dec_speed v (wu_Speed u))"
  "put_unit ''checks'' v u = map_option (\<lambda>x. u\<lparr>wu_Checks := x\<rparr>) (dec_list dec_check zeroWireCheck v (wu_Checks u))"
  "put_unit ''speeds'' v u = map_option (\<lambda>x. u\<lparr>wu_Speeds := x\<rparr>) (dec_list dec_speed_sample zeroWireSpeed v (wu_Speeds u))"
  by (simp_all add: put_unit_def)

text \<open>The optional tail of a unit: each absent field keeps its zero value.\<close>

lemma dec_unit_tail:
  assumes "in_int64 (wu_LastSuccessMS u)"
    and "case wu_Speed u of None \<Rightarrow> True | Some s \<Rightarrow> dec_speed sp zeroSpeedSummary = Some s \<and> sp \<noteq> JNull"
    and "dec_elems dec_check zeroWireCheck [] cks = Some (wu_Checks u)"
    and "dec_elems dec_speed_sample zeroWireSpeed [] sps = Some (wu_Speeds u)"
    and "wu_LastSuccessMS z = 0" "wu_Speed z = None" "wu_Checks z = []" "wu_Speeds z = []"
  shows "dec_fields unit_fields put_unit
     (omitempty (wu_LastSuccessMS u = 0) ''last_success_ms'' (marshal_int (wu_LastSuccessMS u))
      @ omitempty (wu_Speed u = None) ''speed'' sp
      @ omitempty (wu_Checks u = []) ''checks'' (JArray cks)
      @ omitempty (wu_Speeds u = []) ''speeds'' (JArray sps) @ []) z =
    Some (z\<lparr>wu_LastSuccessMS := wu_LastSuccessMS u, wu_Speed := wu_Speed u, wu_Checks := wu_Checks u, wu_Speeds := wu_Speeds u\<rparr>)"
proof -
  have sp: "dec_ptr zeroSpeedSummary dec_speed sp None = Some (wu_Speed u)" if "wu_Speed u \<noteq> None"
    using assms(2) that by (cases sp) (auto simp: dec_ptr_def)
  have mem: "''last_success_ms'' \<in> set unit_fields" "''speed'' \<in> set unit_fields" "''checks'' \<in> set unit_fields"
    "''speeds'' \<in> set unit_fields" by (simp_all add: unit_fields_def)
  show ?thesis
    using assms sp unfolding omitempty_def
    by (auto simp: dec_simps dec_list_def mem intro!: wireUnitSummary.equality)
qed

lemma wire_unit:
  assumes "unit_wire_ok u" and "wire_json 2 av" "wire_json 2 ha" "wu_Speed u \<noteq> None \<Longrightarrow> wire_json 2 sp" "wire_json 2 (JArray sps)"
  shows "wire_json 3 (JObject
       ([(''name'', JString (wu_Name u)), (''state'', JString (wu_State u)), (''availability_pct'', av),
         (''history_availability_pct'', ha), (''consecutive_failures'', marshal_int (wu_ConsecutiveFailures u))]
        @ omitempty (wu_LastSuccessMS u = 0) ''last_success_ms'' (marshal_int (wu_LastSuccessMS u))
        @ omitempty (wu_Speed u = None) ''speed'' sp
        @ omitempty (wu_Checks u = []) ''checks'' (JArray (map marshal_check (wu_Checks u)))
        @ omitempty (wu_Speeds u = []) ''speeds'' (JArray sps) @ []))"
proof -
  have "wire_json 2 (JArray (map marshal_check (wu_Checks u)))"
    unfolding numeral_2_eq_2 by (rule wire_json_array) (auto simp: wire_check)
  with assms show ?thesis
    unfolding numeral_3_eq_3 unit_wire_ok_def
    by (intro wire_json_object) (auto simp: numeral_2_eq_2 dest!: wire_json_omitempty [where n = "Suc (Suc 0)"])
qed

lemma dec_unit_marshal:
  assumes "unit_wire_ok u"
  shows "\<exists>v. marshal_unit u = Inr v \<and> dec_unit v zeroUnitSummary = Some u \<and> wire_json 3 v"
proof -
  obtain av where av: "marshal_float (wu_Availability u) = Inr av" "\<And>old. dec_float av old = Some (wu_Availability u)" "wire_json 2 av"
    using assms wire_float unfolding unit_wire_ok_def by metis
  obtain ha where ha: "marshal_float (wu_HistoryAvailability u) = Inr ha" "\<And>old. dec_float ha old = Some (wu_HistoryAvailability u)" "wire_json 2 ha"
    using assms wire_float unfolding unit_wire_ok_def by metis
  obtain sp where sp: "(case wu_Speed u of None \<Rightarrow> Inr JNull | Some s \<Rightarrow> marshal_speed s) = Inr sp"
    "case wu_Speed u of None \<Rightarrow> True | Some s \<Rightarrow> dec_speed sp zeroSpeedSummary = Some s \<and> sp \<noteq> JNull"
    "wu_Speed u \<noteq> None \<Longrightarrow> wire_json 2 sp"
  proof (cases "wu_Speed u")
    case (Some s)
    with assms have "speed_wire_ok s" by (simp add: unit_wire_ok_def)
    from dec_speed_marshal [OF this, of zeroSpeedSummary] Some that show ?thesis
      by (fastforce dest: wire_json_mono [of 1 _ 2])
  qed (use that in simp)
  obtain sps where sps: "map_err marshal_speed_sample (wu_Speeds u) = Inr sps"
    "dec_elems dec_speed_sample zeroWireSpeed [] sps = Some (wu_Speeds u)" "\<forall>v \<in> set sps. wire_json 1 v"
    using map_err_dec [of "wu_Speeds u" marshal_speed_sample dec_speed_sample zeroWireSpeed "wire_json 1"] assms dec_speed_sample_marshal
    unfolding unit_wire_ok_def by blast
  have "wire_json (Suc 1) (JArray sps)" using sps(3) by (intro wire_json_array) blast
  then have w: "wire_json 2 (JArray sps)" by (simp add: numeral_2_eq_2)
  have cks: "dec_elems dec_check zeroWireCheck [] (map marshal_check (wu_Checks u)) = Some (wu_Checks u)"
    using assms by (intro dec_elems_map dec_check_marshal) (simp add: unit_wire_ok_def)
  have int: "in_int64 (wu_ConsecutiveFailures u)" "in_int64 (wu_LastSuccessMS u)" using assms by (simp_all add: unit_wire_ok_def)
  have mem: "''name'' \<in> set unit_fields" "''state'' \<in> set unit_fields" "''availability_pct'' \<in> set unit_fields"
    "''history_availability_pct'' \<in> set unit_fields" "''consecutive_failures'' \<in> set unit_fields" by (simp_all add: unit_fields_def)
  note tail = dec_unit_tail [OF int(2) sp(2) cks sps(2), of "\<lparr>wu_Name = wu_Name u, wu_State = wu_State u,
    wu_Availability = wu_Availability u, wu_HistoryAvailability = wu_HistoryAvailability u,
    wu_ConsecutiveFailures = wu_ConsecutiveFailures u, wu_LastSuccessMS = 0, wu_Speed = None, wu_Checks = [], wu_Speeds = []\<rparr>", simplified]
  show ?thesis
    using wire_unit [OF assms av(3) ha(3) sp(3) w]
    unfolding marshal_unit_def dec_unit_def dec_object_def zeroUnitSummary_def
    by (simp add: av(1,2) ha(1,2) sp(1) sps(1) mem dec_simps int(1) tail)
qed

lemma dec_summary_marshal:
  assumes "in_int64 (ws_GeneratedAtMS s)" and "\<And>u. u \<in> set (ws_Units s) \<Longrightarrow> unit_wire_ok u"
  shows "\<exists>v. marshal_summary s = Inr v \<and> dec_summary v zeroSummary = Some s \<and> v \<noteq> JNull \<and> wire_json 5 v"
proof -
  obtain us where us: "map_err marshal_unit (ws_Units s) = Inr us" "dec_elems dec_unit zeroUnitSummary [] us = Some (ws_Units s)"
    "\<forall>v \<in> set us. wire_json 3 v"
    using map_err_dec [of "ws_Units s" marshal_unit dec_unit zeroUnitSummary "wire_json 3"] assms(2) dec_unit_marshal by blast
  then have "wire_json (Suc 3) (JArray us)" by (intro wire_json_array) blast
  then have "wire_json (Suc (Suc 3)) (JObject [(''generated_at_ms'', marshal_int (ws_GeneratedAtMS s)), (''units'', JArray us)])"
    by (intro wire_json_object) auto
  with us(1,2) assms(1) show ?thesis
    by (simp add: marshal_summary_def dec_summary_def dec_object_def zeroSummary_def put_summary_def dec_list_def)
qed

lemma wire_response:
  assumes "response_wire_ok r" and "rsp_Summary r \<noteq> None \<Longrightarrow> wire_json 5 sm"
  shows "wire_json 6 (JObject
       ([(''version'', JString (rsp_Version r)), (''id'', JString (rsp_ID r)), (''type'', JString (rsp_Type r)),
         (''payload'', marshal_payload (rsp_Payload r))] @ omitempty (rsp_Summary r = None) ''summary'' sm @ []))"
proof -
  have "wire_json 5 (marshal_payload (rsp_Payload r))"
    using wire_json_mono [OF wire_payload, of "rsp_Payload r" 5] assms(1) by (simp add: response_wire_ok_def)
  with assms have "wire_json (Suc 5) (JObject
       ([(''version'', JString (rsp_Version r)), (''id'', JString (rsp_ID r)), (''type'', JString (rsp_Type r)),
         (''payload'', marshal_payload (rsp_Payload r))] @ omitempty (rsp_Summary r = None) ''summary'' sm @ []))"
    unfolding response_wire_ok_def by (intro wire_json_object) (auto dest!: wire_json_omitempty [where n = 5])
  then show ?thesis by simp
qed

lemma dec_response_marshal:
  assumes "response_wire_ok r"
  shows "\<exists>v. marshal_response r = Inr v \<and> dec_response v zeroResponse = Some r \<and> wire_json 6 v"
proof (cases "rsp_Summary r")
  case None
  with assms wire_response [OF assms, of JNull] show ?thesis
    by (auto simp: marshal_response_def dec_response_def dec_object_def zeroResponse_def put_response_def
        omitempty_def response_wire_ok_def dec_simps)
next
  case (Some s)
  obtain v where v: "marshal_summary s = Inr v" "dec_summary v zeroSummary = Some s" "v \<noteq> JNull" "wire_json 5 v"
    using dec_summary_marshal [of s] assms by (auto simp: response_wire_ok_def Some)
  then have "dec_ptr zeroSummary dec_summary v None = Some (Some s)"
    by (cases v) (auto simp: dec_ptr_def)
  with v(1) assms Some wire_response [OF assms v(4)] show ?thesis
    by (auto simp: marshal_response_def dec_response_def dec_object_def zeroResponse_def put_response_def
        omitempty_def response_wire_ok_def dec_simps)
qed

lemma unmarshal_wire:
  assumes "wire_json n v" and "n \<le> 10000" and "list_all is_space sp"
  shows "json_unmarshal (json_text v @ sp) = Inr v"
  using unmarshal_good [of v sp] assms by (simp add: wire_json_def maxNestingDepth_def)

lemma wire_plain: "wire_json n v \<Longrightarrow> plain (json_text v)"
  using good_json_norm plain_text by (auto simp: wire_json_def)

subsection \<open>Properties\<close>

text \<open>
  C23. An encoded request is one line without control characters, and decoding that line, with the
  newline of the framing or any other white space after it, gives the request back, with a version
  error exactly when its version is not the one spoken; the request is returned in both cases.
\<close>

theorem DecodeRequest_EncodeRequest:
  assumes "request_wire_ok r" and "list_all is_space sp"
  shows "\<exists>line. EncodeRequest r = Inr line \<and> plain line \<and> DecodeRequest (line @ sp) =
    (r, if req_Version r = Version then None else Some (VersionMismatch (req_Version r)))"
  using wire_plain [OF wire_request [OF assms(1)]] unmarshal_wire [OF wire_request [OF assms(1)] _ assms(2)]
    dec_request_marshal [of r] assms(1)
  by (simp add: EncodeRequest_def DecodeRequest_def request_wire_ok_def)

definition example_request :: Request where
  "example_request = \<lparr>req_Version = Version, req_ID = ''7'', req_Type = TypePing,
     req_Payload = \<lparr>pl_Timestamp = 1700000000000, pl_Message = ''''\<rparr>\<rparr>"

theorem DecodeRequest_EncodeRequest_witness:
  "\<exists>line. EncodeRequest example_request = Inr line \<and> DecodeRequest (line @ [CHR 0x0A]) = (example_request, None)"
proof -
  have "request_wire_ok example_request"
    unfolding request_wire_ok_def by (auto simp: example_request_def in_int64_def protocol_consts intro!: valid_key)
  from DecodeRequest_EncodeRequest [OF this, of "[CHR 0x0A]"] show ?thesis by (auto simp: is_space_def example_request_def)
qed

text \<open>
  C24. Every response whose integers fit 64 bits, whose measurements are doubles and whose strings
  are well-formed UTF-8 is encoded as one line without control characters, and decoding that line,
  with white space after it, gives the response back, with all units, samples and aggregates of a
  summary.
\<close>

theorem DecodeResponse_EncodeResponse:
  assumes "response_wire_ok r" and "list_all is_space sp"
  shows "\<exists>line. EncodeResponse r = Inr line \<and> plain line \<and> DecodeResponse (line @ sp) = Inr r"
proof -
  obtain v where v: "marshal_response r = Inr v" "dec_response v zeroResponse = Some r" "wire_json 6 v"
    using dec_response_marshal [OF assms(1)] by blast
  with wire_plain [OF v(3)] unmarshal_wire [OF v(3) _ assms(2)] show ?thesis
    by (simp add: EncodeResponse_def DecodeResponse_def)
qed

definition example_response :: Response where
  "example_response = NewSummary ''7'' \<lparr>ws_GeneratedAtMS = 5, ws_Units = [zeroUnitSummary
     \<lparr>wu_Name := ''u'', wu_Checks := [\<lparr>wc_TimeMS = 1, wc_Success = True\<rparr>]\<rparr>]\<rparr>"

lemma example_response_ok: "response_wire_ok example_response"
proof -
  have "is_double (Fin 0)" unfolding is_double_def by (simp add: fl_def rnd_def)
  moreover have "valid_utf8 ''u''" "valid_utf8 ''7''" "valid_utf8 ''0.1''" by (rule valid_key; simp)+
  ultimately show ?thesis
    by (simp add: response_wire_ok_def example_response_def NewSummary_def unit_wire_ok_def zeroUnitSummary_def
        zeroPayload_def in_int64_def protocol_consts)
qed

theorem DecodeResponse_EncodeResponse_witness:
  "\<exists>line. EncodeResponse example_response = Inr line \<and> DecodeResponse line = Inr example_response"
  using DecodeResponse_EncodeResponse [OF example_response_ok, of "[]"] by auto

end
