(* ===== verification/ChannelsSpec.thy ===== *)
theory ChannelsSpec
  imports Channels TimeSpec ProtocolSpec "HOL-Library.Sublist"
begin

text \<open>
  What the channels promise: an HTTP channel reports success exactly for one request answered
  with a 2xx status; the implicit-TLS sender transfers the message only after the sender and every
  recipient were accepted and closes what it opened; the text of an alert cannot add mail headers.
\<close>

subsection \<open>HTTP\<close>

lemma status_error_None: "status_error who code = None \<longleftrightarrow> 200 \<le> code \<and> code < 300"
  by (auto simp: status_error_def)

lemma post_ok:
  "snd (post net who req) = None \<longleftrightarrow> (\<exists>u. url_Parse (rq_url req) = Inr u)
     \<and> (\<exists>code. ht_do net req = Inr code \<and> 200 \<le> code \<and> code < 300)"
  "set (fst (post net who req)) \<subseteq> {req}"
  "snd (post net who req) = None \<Longrightarrow> fst (post net who req) = [req]"
  by (auto simp: post_def status_error_None split: option.splits sum.splits)

subsection \<open>SMTP\<close>

lemma smtp_session_prefix: "prefix (fst (smtp_session srv xs)) (map fst xs)"
  by (induction xs) (auto split: option.splits prod.splits)

lemma smtp_session_accepted:
  assumes "i < length xs" and "fst (xs ! i) \<in> set (fst (smtp_session srv xs))" and "distinct (map fst xs)"
    and "j < i"
  shows "srv (fst (xs ! j)) = None"
  using assms
proof (induction xs arbitrary: i j)
  case (Cons x xs)
  from Cons.prems obtain i' where i: "i = Suc i'" "i' < length xs" by (cases i) auto
  have ne: "fst (xs ! i') \<noteq> fst x" using Cons.prems(3) i(2) by (metis distinct.simps(2) list.simps(9) nth_map nth_mem length_map)
  then have acc: "srv (fst x) = None" and mem: "fst (xs ! i') \<in> set (fst (smtp_session srv xs))"
    using Cons.prems(2) i by (auto split: option.splits prod.splits)
  show ?case
  proof (cases j)
    case (Suc j')
    with Cons.IH [OF i(2) mem, of j'] Cons.prems(3,4) i show ?thesis by simp
  qed (use acc in simp)
qed simp

lemma smtp_session_None:
  "snd (smtp_session srv xs) = None \<longleftrightarrow> (\<forall>x \<in> set xs. srv (fst x) = None)"
  "snd (smtp_session srv xs) = None \<Longrightarrow> fst (smtp_session srv xs) = map fst xs"
  by (induction xs) (auto split: option.splits prod.splits)

text \<open>A command is issued only when everything before its first occurrence was accepted.\<close>

lemma smtp_session_issued:
  assumes "c \<in> set (fst (smtp_session srv (xs @ ys)))" and "c \<notin> set (map fst xs)"
  shows "\<forall>x \<in> set xs. srv (fst x) = None"
  using assms by (induction xs) (auto split: option.splits prod.splits)

subsection \<open>Mail text\<close>

lemma lines_of_concat:
  "(\<And>l. l \<in> set ls \<Longrightarrow> one_line l) \<Longrightarrow> lines_of (concat (map (\<lambda>l. l @ crlf) ls) @ s) = ls @ lines_of s"
  by (induction ls) (simp_all add: lines_of_line)

definition message_lines :: "(time \<Rightarrow> int) \<Rightarrow> string \<Rightarrow> string list \<Rightarrow> string \<Rightarrow> Alert \<Rightarrow> string list" where
  "message_lines zone from to subject alert =
    [''From: '' @ from, ''To: '' @ strings_Join to '', '', ''Subject: '' @ subject,
     ''Date: '' @ format_RFC1123Z zone (al_Timestamp alert), ''Content-Type: text/plain; charset=UTF-8'', '''',
     ''Role: '' @ al_Role alert, ''State: '' @ al_State alert, ''Time: '' @ format_RFC3339 False zone (al_Timestamp alert),
     ''Consecutive failures: '' @ itoa (al_ConsecutiveFailures alert)]"

lemma lines_of_message:
  assumes "one_line from" and "\<And>t. t \<in> set to \<Longrightarrow> one_line t" and "one_line subject"
    and "one_line (al_Role alert)" and "one_line (al_State alert)"
  shows "lines_of (buildMessage zone from to subject alert) =
    message_lines zone from to subject alert @ lines_of (''Detail: '' @ al_Detail alert @ crlf)"
proof -
  have "one_line (strings_Join to '', '')" using assms(2) by (intro one_line_Join) auto
  then have ok: "one_line l" if "l \<in> set (message_lines zone from to subject alert)" for l
    using that assms one_line_RFC1123Z one_line_RFC3339 by (auto simp: message_lines_def)
  have eq: "buildMessage zone from to subject alert =
      concat (map (\<lambda>l. l @ crlf) (message_lines zone from to subject alert)) @ (''Detail: '' @ al_Detail alert @ crlf)"
    by (simp add: buildMessage_def message_lines_def)
  show ?thesis unfolding eq by (rule lines_of_concat) (rule ok)
qed

lemma sendImplicitTLS_ok:
  "snd (sendImplicitTLS srv addr auth from to msg) = None \<longleftrightarrow>
    (\<exists>host port. SplitHostPort addr = Inr (host, port) \<and> srv (Smtp_Dial addr host) = None \<and> srv (Smtp_NewClient host) = None
      \<and> (\<forall>x \<in> set (smtp_script auth from to msg). srv (fst x) = None))"
  by (auto simp: sendImplicitTLS_def smtp_session_None(1) [symmetric] split: sum.splits option.splits prod.splits)

lemma sendImplicitTLS_data:
  assumes "Smtp_Data \<in> set (fst (sendImplicitTLS srv addr auth from to msg))"
  shows "srv (Smtp_Mail from) = None \<and> (\<forall>r \<in> set to. srv (Smtp_Rcpt r) = None)"
proof -
  define pre where "pre = (case auth of None \<Rightarrow> [] | Some a \<Rightarrow> [(Smtp_Auth a, ''auth: '')])
     @ [(Smtp_Mail from, ''mail from: '')] @ map (\<lambda>rcpt. (Smtp_Rcpt rcpt, ''rcpt '' @ rcpt @ '': '')) to"
  define post where "post = [(Smtp_Data, ''data: ''), (Smtp_Write msg, ''write body: ''), (Smtp_CloseData, ''close body: ''),
        (Smtp_Quit, '''')]"
  have script: "smtp_script auth from to msg = pre @ post" by (simp add: smtp_script_def pre_def post_def)
  have "Smtp_Data \<in> set (fst (smtp_session srv (pre @ post)))"
    using assms by (auto simp: sendImplicitTLS_def script split: sum.splits option.splits prod.splits)
  moreover have "Smtp_Data \<notin> set (map fst pre)" by (auto simp: pre_def split: option.splits)
  ultimately have "\<forall>x \<in> set pre. srv (fst x) = None" by (rule smtp_session_issued)
  then show ?thesis unfolding pre_def by (cases auth) auto
qed

subsection \<open>The body of a webhook request\<close>

text \<open>What the receiver of the JSON object reads.\<close>

definition read_alert :: "json \<Rightarrow> Alert option" where
  "read_alert v = (case v of JObject kvs \<Rightarrow>
     (case (map_of kvs ''role'', map_of kvs ''state'', map_of kvs ''timestamp'', map_of kvs ''detail'', map_of kvs ''consecutive_failures'') of
        (Some (JString role), Some (JString state), Some (JString timestamp), Some (JString detail), Some n) \<Rightarrow>
          map_option (\<lambda>k. \<lparr>al_Role = role, al_State = state, al_Timestamp = read_RFC3339 timestamp, al_Detail = detail,
            al_ConsecutiveFailures = k\<rparr>) (dec_int n 0)
      | _ \<Rightarrow> None)
   | _ \<Rightarrow> None)"

definition alert_wire_ok :: "(time \<Rightarrow> int) \<Rightarrow> Alert \<Rightarrow> bool" where
  "alert_wire_ok zone alert \<longleftrightarrow> valid_utf8 (al_Role alert) \<and> valid_utf8 (al_State alert) \<and> valid_utf8 (al_Detail alert)
     \<and> in_int64 (al_ConsecutiveFailures alert)
     \<and> 0 \<le> year_of zone (al_Timestamp alert) \<and> year_of zone (al_Timestamp alert) < 10000
     \<and> 60 dvd zone (al_Timestamp alert) \<and> \<bar>zone (al_Timestamp alert)\<bar> < 86400"

lemma marshal_alert_read:
  assumes "alert_wire_ok zone alert"
  shows "\<exists>v. marshal_alert zone alert = Inr v \<and> read_alert v = Some alert \<and> wire_json 1 v"
proof -
  let ?t = "al_Timestamp alert"
  have z: "0 \<le> year_of zone ?t" "year_of zone ?t < 10000" "60 dvd zone ?t" "\<bar>zone ?t\<bar> < 86400"
    using assms by (simp_all add: alert_wire_ok_def)
  define ts where "ts = format_RFC3339 True zone ?t"
  have ts: "Time_MarshalJSON zone ?t = Inr ts" "read_RFC3339 ts = ?t" "valid_utf8 ts"
    using MarshalJSON_ok [OF z] read_format_RFC3339(1) [OF z] valid_key [OF format_RFC3339_ascii] by (simp_all add: ts_def)
  have keys: "valid_utf8 ''role''" "valid_utf8 ''state''" "valid_utf8 ''timestamp''" "valid_utf8 ''detail''" "valid_utf8 ''consecutive_failures''"
    by (rule valid_key; simp)+
  let ?v = "JObject [(''role'', JString (al_Role alert)), (''state'', JString (al_State alert)), (''timestamp'', JString ts),
    (''detail'', JString (al_Detail alert)), (''consecutive_failures'', marshal_int (al_ConsecutiveFailures alert))]"
  have "wire_json (Suc 0) ?v" using keys ts(3) assms by (intro wire_json_object) (auto simp: alert_wire_ok_def)
  moreover have "read_alert ?v = Some alert" using ts(2) assms by (simp add: read_alert_def alert_wire_ok_def)
  moreover have "marshal_alert zone alert = Inr ?v" by (simp add: marshal_alert_def ts(1))
  ultimately show ?thesis by auto
qed

subsection \<open>Addresses\<close>

text \<open>
  The address the mail channel builds from its host and port is split into them when the host has no
  colon or bracket; with an IPv6 address as host no implicit-TLS mail is ever sent.
\<close>

lemma SplitHostPort_plain:
  assumes "set host \<inter> set '':[]'' = {}" and "list_all is_digit port"
  shows "SplitHostPort (host @ '':'' @ port) = Inr (host, port)"
proof -
  have "CHR '':'' \<notin> set port" "CHR ''['' \<notin> set port" "CHR '']'' \<notin> set port" using assms(2) by (auto simp: list_all_iff is_digit_def)
  moreover have "CHR '':'' \<notin> set host" "CHR ''['' \<notin> set host" "CHR '']'' \<notin> set host" using assms(1) by auto
  moreover from this have "take 1 (host @ CHR '':'' # port) \<noteq> ''[''" by (cases host) auto
  ultimately show ?thesis
    using cut_last_append [of "CHR '':''" port host] by (simp add: SplitHostPort_def Let_def)
qed

lemma SplitHostPort_colons:
  assumes "CHR '':'' \<in> set host" and "take 1 host \<noteq> ''[''" and "list_all is_digit port"
  shows "\<exists>err. SplitHostPort (host @ '':'' @ port) = Inl err"
proof -
  have "CHR '':'' \<notin> set port" using assms(3) by (auto simp: list_all_iff is_digit_def)
  moreover have "take 1 (host @ CHR '':'' # port) \<noteq> ''[''" using assms(1,2) by (cases host) auto
  ultimately show ?thesis
    using cut_last_append [of "CHR '':''" port host] assms(1) by (simp add: SplitHostPort_def Let_def)
qed

lemma implicitTLS_ipv6_never_sends:
  assumes "CHR '':'' \<in> set host" and "take 1 host \<noteq> ''[''" and "0 \<le> port"
  shows "fst (sendImplicitTLS srv (host @ '':'' @ itoa port) auth from to msg) = []
    \<and> snd (sendImplicitTLS srv (host @ '':'' @ itoa port) auth from to msg) \<noteq> None"
proof -
  have "list_all is_digit (itoa port)" using assms(3) nat_text_digits by (auto simp: itoa_def list_all_iff)
  from SplitHostPort_colons [OF assms(1,2) this] show ?thesis by (auto simp: sendImplicitTLS_def)
qed

subsection \<open>Properties\<close>

text \<open>
  A webhook or SMS notification sends at most one request, and reports success exactly when
  that one request was answered with a 2xx status.
\<close>

lemma http_channels_succeed_on_2xx:
  "(snd (Webhook_Notify net zone w alert) = None \<longleftrightarrow>
      (\<exists>req code. fst (Webhook_Notify net zone w alert) = [req]
        \<and> ht_do net req = Inr code \<and> 200 \<le> code \<and> code < 300))
   \<and> (snd (SMSGate_Notify net s alert) = None \<longleftrightarrow>
      (\<exists>req code. fst (SMSGate_Notify net s alert) = [req]
        \<and> ht_do net req = Inr code \<and> 200 \<le> code \<and> code < 300))
   \<and> length (fst (Webhook_Notify net zone w alert)) \<le> 1
   \<and> length (fst (SMSGate_Notify net s alert)) \<le> 1"
  by (auto simp: Webhook_Notify_def SMSGate_Notify_def post_def Let_def status_error_def
      split: sum.splits option.splits if_splits)

text \<open>
  C39. The implicit-TLS sender transfers no message data unless the sender address and every
  recipient were accepted, closes the connection of every session it has opened, and reports
  success only when the complete session (authentication if configured, envelope, data, quit) was
  carried out and accepted.
\<close>

theorem sendImplicitTLS_session:
  assumes "sendImplicitTLS srv addr auth from to msg = (cmds, e)"
  shows "(Smtp_Data \<in> set cmds \<longrightarrow> srv (Smtp_Mail from) = None \<and> (\<forall>r \<in> set to. srv (Smtp_Rcpt r) = None))
    \<and> (Smtp_NewClient host \<in> set cmds \<longrightarrow> last cmds = Smtp_CloseConn)
    \<and> (e = None \<longrightarrow> (\<exists>host. cmds = [Smtp_Dial addr host, Smtp_NewClient host]
         @ map fst (smtp_script auth from to msg) @ [Smtp_CloseConn] \<and> (\<forall>c \<in> set (butlast cmds). srv c = None)))"
proof (intro conjI impI)
  show "Smtp_Data \<in> set cmds \<Longrightarrow> srv (Smtp_Mail from) = None"
    "Smtp_Data \<in> set cmds \<Longrightarrow> \<forall>r \<in> set to. srv (Smtp_Rcpt r) = None"
    using sendImplicitTLS_data [of srv addr auth "from" to msg] assms by simp_all
  show "Smtp_NewClient host \<in> set cmds \<Longrightarrow> last cmds = Smtp_CloseConn"
    using assms by (auto simp: sendImplicitTLS_def split: sum.splits option.splits prod.splits)
  assume "e = None"
  with assms obtain h port where h: "SplitHostPort addr = Inr (h, port)" "srv (Smtp_Dial addr h) = None" "srv (Smtp_NewClient h) = None"
    and acc: "\<forall>x \<in> set (smtp_script auth from to msg). srv (fst x) = None"
    using sendImplicitTLS_ok [of srv addr auth "from" to msg] by auto
  have none: "snd (smtp_session srv (smtp_script auth from to msg)) = None" using acc by (simp add: smtp_session_None(1))
  have "cmds = [Smtp_Dial addr h, Smtp_NewClient h] @ map fst (smtp_script auth from to msg) @ [Smtp_CloseConn]"
    using assms h none smtp_session_None(2) [OF none]
    by (auto simp: sendImplicitTLS_def split: prod.splits)
  then show "\<exists>host. cmds = [Smtp_Dial addr host, Smtp_NewClient host]
      @ map fst (smtp_script auth from to msg) @ [Smtp_CloseConn] \<and> (\<forall>c \<in> set (butlast cmds). srv c = None)"
    using h acc by (intro exI [of _ h]) (auto simp: butlast_append)
qed

theorem sendImplicitTLS_session_witness:
  "\<exists>cmds. sendImplicitTLS (\<lambda>c. if c = Smtp_Rcpt ''b'' then Some ''550'' else None)
      ''h:465'' None ''f'' [''a'', ''b''] ''m'' = (cmds, Some ''rcpt b: 550'')
    \<and> Smtp_Data \<notin> set cmds \<and> last cmds = Smtp_CloseConn"
proof -
  have run: "sendImplicitTLS (\<lambda>c. if c = Smtp_Rcpt ''b'' then Some ''550'' else None)
      ''h:465'' None ''f'' [''a'', ''b''] ''m'' =
    ([Smtp_Dial ''h:465'' ''h'', Smtp_NewClient ''h'', Smtp_Mail ''f'', Smtp_Rcpt ''a'', Smtp_Rcpt ''b'', Smtp_CloseConn],
     Some ''rcpt b: 550'')"
    by (simp add: sendImplicitTLS_def smtp_script_def SplitHostPort_def cut_last_def strings_Cut_def)
  from sendImplicitTLS_session [OF run, of "''h''"] show ?thesis by (simp add: run)
qed

text \<open>
  C40. When the configured addresses and the unit name contain no line breaks,
  the mail an alert becomes has exactly the five header lines, an empty line and the body that
  begins with the role: a line break in the alert's detail can only extend the body.
\<close>

theorem Email_headers_intact:
  assumes "one_line (em_from e)" and "\<And>t. t \<in> set (em_to e) \<Longrightarrow> one_line t"
    and "one_line (al_Role alert)" and "one_line (al_State alert)"
  shows "\<exists>body. lines_of (ml_msg (snd (fst (Email_Notify zone send ctx_done e alert)))) =
      [''From: '' @ em_from e, ''To: '' @ strings_Join (em_to e) '', '',
       ''Subject: '' @ ''[healthd] '' @ al_Role alert @ '' '' @ al_State alert,
       ''Date: '' @ format_RFC1123Z zone (al_Timestamp alert), ''Content-Type: text/plain; charset=UTF-8'', '''',
       ''Role: '' @ al_Role alert, ''State: '' @ al_State alert] @ body"
proof -
  have "one_line (''[healthd] '' @ al_Role alert @ '' '' @ al_State alert)" using assms(3,4) by simp
  from lines_of_message [OF assms(1,2) this assms(3,4)] show ?thesis
    by (simp add: Email_Notify_def Let_def message_lines_def)
qed

theorem Email_headers_intact_witness:
  "\<exists>body. lines_of (ml_msg (snd (fst (Email_Notify (\<lambda>_. 3600) (\<lambda>_ _. Returned None) None
      (NewEmail ''h'' 465 ''f'' [''a'', ''b''] ''u'' ''p'')
      \<lparr>al_Role = ''r'', al_State = ''HEALTHY'', al_Timestamp = 1, al_Detail = crlf @ ''Bcc: x'', al_ConsecutiveFailures = 0\<rparr>)))) =
      [''From: f'', ''To: a, b'', ''Subject: [healthd] r HEALTHY'', ''Date: '' @ format_RFC1123Z (\<lambda>_. 3600) 1,
       ''Content-Type: text/plain; charset=UTF-8'', '''', ''Role: r'', ''State: HEALTHY''] @ body"
proof -
  let ?e = "NewEmail ''h'' 465 ''f'' [''a'', ''b''] ''u'' ''p''"
  let ?a = "\<lparr>al_Role = ''r'', al_State = ''HEALTHY'', al_Timestamp = 1, al_Detail = crlf @ ''Bcc: x'', al_ConsecutiveFailures = 0\<rparr> :: Alert"
  have "one_line (em_from ?e)" "\<And>t. t \<in> set (em_to ?e) \<Longrightarrow> one_line t" "one_line (al_Role ?a)" "one_line (al_State ?a)"
    by (auto simp: NewEmail_def)
  from Email_headers_intact [OF this, of "\<lambda>_. 3600" "\<lambda>_ _. Returned None" None]
  show ?thesis by (simp add: NewEmail_def)
qed

text \<open>
  C38. The request a webhook alert becomes carries the alert: a receiver that parses its body as JSON
  reads the role, the state, the detail, the number of failures and the instant of the alert, to
  the nanosecond, whatever the time zone of the sender. The channel reports success exactly when
  that request is answered with a 2xx status.
\<close>

theorem Webhook_carries_alert:
  assumes "alert_wire_ok zone alert" and "url_Parse (wh_url w) = Inr u"
  shows "\<exists>req v. fst (Webhook_Notify net zone w alert) = [req] \<and> rq_method req = ''POST'' \<and> rq_url req = wh_url w
    \<and> json_unmarshal (rq_body req) = Inr v \<and> read_alert v = Some alert
    \<and> (snd (Webhook_Notify net zone w alert) = None \<longleftrightarrow> (\<exists>code. ht_do net req = Inr code \<and> 200 \<le> code \<and> code < 300))"
proof -
  obtain v where v: "marshal_alert zone alert = Inr v" "read_alert v = Some alert" "wire_json 1 v"
    using marshal_alert_read [OF assms(1)] by blast
  have "json_unmarshal (json_text v) = Inr v" using unmarshal_wire [OF v(3), of "[]"] by simp
  with v assms(2) show ?thesis
    by (auto simp: Webhook_Notify_def post_def status_error_def split: sum.split)
qed

definition example_alert :: Alert where
  "example_alert = \<lparr>al_Role = ''ping_monitor'', al_State = ''UNHEALTHY'', al_Timestamp = 63000000000 * 10 ^ 9 + 120,
     al_Detail = ''ping failed'', al_ConsecutiveFailures = 3\<rparr>"

lemma example_alert_ok: "alert_wire_ok (\<lambda>_. 7200) example_alert"
proof -
  have "valid_utf8 ''ping_monitor''" "valid_utf8 ''UNHEALTHY''" "valid_utf8 ''ping failed''" by (rule valid_key; simp)+
  moreover have "year_of (\<lambda>_. 7200) (63000000000 * 10 ^ 9 + 120) = 1997"
    by (simp add: year_of_def time_abs_def absDate_def absYear_def Let_def split: prod.split)
  ultimately show ?thesis by (simp add: alert_wire_ok_def example_alert_def in_int64_def)
qed

theorem Webhook_carries_alert_witness:
  "\<exists>req v. fst (Webhook_Notify \<lparr>ht_urlError = (\<lambda>_ _. ''''), ht_do = (\<lambda>_. Inr 200)\<rparr> (\<lambda>_. 7200) (NewWebhook ''http://h/'' 1) example_alert) = [req]
    \<and> json_unmarshal (rq_body req) = Inr v \<and> read_alert v = Some example_alert"
proof -
  have "list_all is_alpha ''http''" "list_all host_char ''h''" "list_all path_char ''/''"
    by (simp_all add: is_alpha_def host_char_def path_char_def is_control_def byte_def)
  from url_Parse_plain [OF this(1) _ this(2) _ this(3), of None]
  have "\<exists>u. url_Parse (wh_url (NewWebhook ''http://h/'' 1)) = Inr u" by (simp add: port_text_def NewWebhook_def)
  then show ?thesis using Webhook_carries_alert [OF example_alert_ok] by blast
qed

end
