(* ===== verification/Window.thy ===== *)
theory Window
  imports Float64
begin

text \<open>
  \<open>internal/monitor/window.go\<close>: the rolling window of check results. The Go struct is the
  record \<open>window\<close>; each method is one definition, in the option monad because indexing and
  the remainder may panic. The invariant ties the running success count to the buffer, and
  the window is shown to be a bounded log of the most recent results.
\<close>

section \<open>The window and its methods\<close>

record window =
  w_buf :: "bool list"
  w_size :: goint
  w_head :: goint
  w_len :: goint
  w_sum :: goint

definition newWindow :: "goint \<Rightarrow> window option" where
  "newWindow sz = do {
     buf \<leftarrow> go_make False sz;
     Some \<lparr>w_buf = buf, w_size = sz, w_head = 0, w_len = 0, w_sum = 0\<rparr>
   }"

definition Window_Add :: "window \<Rightarrow> bool \<Rightarrow> window option" where
  "Window_Add w success = do {
     w1 \<leftarrow> (if w_len w = w_size w then do {
               oldest \<leftarrow> go_index (w_buf w) (w_head w);
               Some (if oldest then w\<lparr>w_sum := go_sub (w_sum w) 1\<rparr> else w)
             }
             else Some (w\<lparr>w_len := go_add (w_len w) 1\<rparr>));
     buf \<leftarrow> go_store (w_buf w1) (w_head w1) success;
     let w2 = w1\<lparr>w_buf := buf\<rparr>;
     let w3 = (if success then w2\<lparr>w_sum := go_add (w_sum w2) 1\<rparr> else w2);
     head \<leftarrow> go_rem (go_add (w_head w3) 1) (w_size w3);
     Some (w3\<lparr>w_head := head\<rparr>)
   }"

definition Window_Full :: "window \<Rightarrow> bool" where
  "Window_Full w \<longleftrightarrow> w_len w = w_size w"

definition Window_Len :: "window \<Rightarrow> goint" where
  "Window_Len w = w_len w"

definition Window_Availability :: "window \<Rightarrow> float64" where
  "Window_Availability w =
     (if w_len w = 0 then Fin 100
      else fl_mul (fl_div (fl_of_int (w_sum w)) (fl_of_int (w_len w))) (Fin 100))"

section \<open>Contents and invariant\<close>

definition window_list :: "window \<Rightarrow> bool list" where
  "window_list w = circ (w_buf w) (nat (w_head w)) (nat (w_len w))"

definition window_cap :: "window \<Rightarrow> nat" where
  "window_cap w = nat (w_size w)"

definition window_inv :: "window \<Rightarrow> bool" where
  "window_inv w \<longleftrightarrow>
     1 \<le> w_size w \<and> w_size w < 2 ^ 63 \<and> int (length (w_buf w)) = w_size w \<and>
     0 \<le> w_head w \<and> w_head w < w_size w \<and> 0 \<le> w_len w \<and> w_len w \<le> w_size w \<and>
     w_sum w = int (length (filter id (window_list w)))"

text \<open>The reference definition: keep the last \<open>n\<close> results, count the successes among them.\<close>

definition successes :: "bool list \<Rightarrow> nat" where
  "successes xs = length (filter id xs)"

definition availability_of :: "bool list \<Rightarrow> float64" where
  "availability_of xs = (if xs = [] then Fin 100 else pct (int (successes xs)) (int (length xs)))"

lemma successes_le: "successes xs \<le> length xs"
  by (simp add: successes_def)

lemma successes_append [simp]: "successes (xs @ ys) = successes xs + successes ys"
  and successes_Nil [simp]: "successes [] = 0"
  and successes_Cons [simp]: "successes (x # xs) = (if x then 1 else 0) + successes xs"
  by (simp_all add: successes_def)

lemma successes_eq_length: "successes xs = length xs \<longleftrightarrow> False \<notin> set xs"
proof (induction xs)
  case (Cons x xs)
  with successes_le [of xs] show ?case by auto
qed simp

lemma window_inv_sum: "window_inv w \<Longrightarrow> w_sum w = int (successes (window_list w))"
  by (simp add: window_inv_def successes_def)

lemma length_window_list: "window_inv w \<Longrightarrow> int (length (window_list w)) = w_len w"
  by (simp add: window_inv_def window_list_def)

lemma newWindow_ok:
  assumes "1 \<le> sz" and "sz < 2 ^ 63"
  shows "\<exists>w. newWindow sz = Some w \<and> window_inv w \<and> window_list w = [] \<and> w_size w = sz"
  using assms by (simp add: newWindow_def go_make_def window_inv_def window_list_def circ_def)

lemma window_invD:
  assumes "window_inv w"
  shows "1 \<le> w_size w" "w_size w < 2 ^ 63" "0 \<le> w_head w" "w_head w < w_size w" "0 \<le> w_len w"
    "w_len w \<le> w_size w" "length (w_buf w) = window_cap w" "0 < window_cap w"
    "nat (w_head w) < window_cap w" "nat (w_len w) \<le> window_cap w"
    "length (window_list w) = nat (w_len w)"
  using assms by (auto simp: window_inv_def window_cap_def window_list_def)

text \<open>When the window is full, the slot about to be overwritten holds the oldest result.\<close>

lemma window_oldest:
  assumes "window_inv w" and "w_len w = w_size w"
  shows "window_list w = w_buf w ! nat (w_head w) # tl (window_list w)"
  using circ_full_hd [of "nat (w_head w)" "w_buf w"] window_invD(7,9) [OF assms(1)] assms(2)
  by (simp add: window_list_def window_cap_def)

text \<open>The bounds that keep the running count inside \<open>int\<close>.\<close>

lemma window_sum_bounds:
  assumes inv: "window_inv w"
  defines "evicts \<equiv> w_len w = w_size w \<and> w_buf w ! nat (w_head w)"
  shows "w_sum w \<le> w_size w" and "evicts \<Longrightarrow> 1 \<le> w_sum w"
    and "\<not> evicts \<Longrightarrow> w_sum w < w_size w"
proof -
  note r = window_invD [OF inv] and s = window_inv_sum [OF inv]
  have len: "successes (window_list w) \<le> nat (w_len w)"
    using successes_le [of "window_list w"] r(11) by simp
  with s r(5,6) show "w_sum w \<le> w_size w" by linarith
  show "1 \<le> w_sum w" if evicts
  proof -
    from that obtain xs where "window_list w = True # xs"
      using window_oldest [OF inv] by (auto simp: evicts_def)
    with s show ?thesis by simp
  qed
  show "w_sum w < w_size w" if "\<not> evicts"
  proof (cases "w_len w = w_size w")
    case True
    with that obtain xs where xs: "window_list w = False # xs"
      using window_oldest [OF inv] by (auto simp: evicts_def)
    with successes_le [of xs] s r(5,11) True show ?thesis by simp
  next
    case False
    with len s r(5,6) show ?thesis by linarith
  qed
qed

lemma Window_Add_eval:
  assumes inv: "window_inv w"
  shows "Window_Add w b = Some \<lparr>w_buf = (w_buf w)[nat (w_head w) := b], w_size = w_size w,
      w_head = (w_head w + 1) mod w_size w, w_len = min (w_size w) (w_len w + 1),
      w_sum = w_sum w + (if b then 1 else 0)
        - (if w_len w = w_size w \<and> w_buf w ! nat (w_head w) then 1 else 0)\<rparr>"
proof -
  note r = window_invD [OF inv] and s = window_sum_bounds [OF inv]
  have idx: "0 \<le> w_head w" "w_head w < int (length (w_buf w))"
    using r by (simp_all add: window_cap_def)
  have s0: "0 \<le> w_sum w" using window_inv_sum [OF inv] by simp
  have head: "go_rem (go_add (w_head w) 1) (w_size w) = Some ((w_head w + 1) mod w_size w)"
    using r by (simp add: go_simps in_int64_def)
  have "go_sub (w_sum w) 1 = w_sum w - 1" "go_add (w_sum w - 1) 1 = w_sum w"
    using s(1) s0 r(2) by (simp_all add: go_simps in_int64_def)
  moreover have "go_add (w_sum w) 1 = w_sum w + 1"
    if "\<not> (w_len w = w_size w \<and> w_buf w ! nat (w_head w))"
    using s(3) [OF that] s0 r(2) by (simp add: go_simps in_int64_def)
  moreover have "go_add (w_len w) 1 = w_len w + 1" if "w_len w \<noteq> w_size w"
    using that r(2,5,6) by (simp add: go_simps in_int64_def)
  ultimately show ?thesis using r(6) head
    by (cases "w_len w = w_size w"; cases "w_buf w ! nat (w_head w)"; cases b)
      (simp_all add: Window_Add_def go_index_in [OF idx] go_store_in [OF idx])
qed

lemma Window_Add_ok:
  assumes inv: "window_inv w"
  shows "\<exists>w'. Window_Add w b = Some w' \<and> window_inv w' \<and> window_cap w' = window_cap w
    \<and> window_list w' = lastn (window_cap w) (window_list w @ [b])"
proof -
  note r = window_invD [OF inv]
  obtain w' where w': "Window_Add w b = Some w'" using Window_Add_eval [OF inv] by simp
  note f = Window_Add_eval [OF inv, of b, unfolded w', simplified]
  have "nat ((w_head w + 1) mod w_size w) = (nat (w_head w) + 1) mod window_cap w"
    using r by (simp add: window_cap_def nat_mod_distrib nat_add_distrib)
  moreover have "nat (min (w_size w) (w_len w + 1)) = min (window_cap w) (Suc (nat (w_len w)))"
    using r(5,6) unfolding window_cap_def by linarith
  ultimately have list: "window_list w' = lastn (window_cap w) (window_list w @ [b])"
    using circ_write [of "nat (w_head w)" "w_buf w" "nat (w_len w)" b] r
    by (simp add: f window_list_def)
  have "w_sum w' = int (successes (window_list w'))"
  proof (cases "w_len w = w_size w")
    case True
    from window_oldest [OF inv True] obtain xs
      where "window_list w = w_buf w ! nat (w_head w) # xs" by blast
    moreover from this r(11) True have "length xs + 1 = window_cap w" by (simp add: window_cap_def)
    ultimately show ?thesis
      using window_inv_sum [OF inv] True unfolding list by (auto simp: lastn_def f)
  next
    case False
    with r(5,6,11) have "lastn (window_cap w) (window_list w @ [b]) = window_list w @ [b]"
      by (intro lastn_short) (simp add: window_cap_def)
    with window_inv_sum [OF inv] False show ?thesis unfolding list by (simp add: f)
  qed
  then have "window_inv w'"
    using r by (simp add: f window_inv_def successes_def window_cap_def)
  with w' list show ?thesis by (auto simp: window_cap_def f)
qed

interpretation win: bounded_log Window_Add window_list window_cap window_inv
  by unfold_locales (use Window_Add_ok in \<open>auto simp: window_invD\<close>)

section \<open>Properties\<close>

lemma Window_Availability_eq:
  assumes "window_inv w"
  shows "Window_Availability w = availability_of (window_list w)"
  using length_window_list [OF assms] window_inv_sum [OF assms]
  by (auto simp: Window_Availability_def availability_of_def pct_def)

lemma availability_of_bounds:
  assumes "length xs < 2 ^ 63"
  shows "\<exists>q. availability_of xs = Fin q \<and> 0 \<le> q \<and> q \<le> 100"
proof (cases "xs = []")
  case False
  then have a: "0 \<le> int (successes xs)" "int (successes xs) \<le> int (length xs)"
    "1 \<le> int (length xs)" "int (length xs) < 2 ^ 63"
    using assms successes_le [of xs] by (auto simp: Suc_le_eq)
  show ?thesis using pct_Fin [OF a] pct_rat_bounds [OF a] False by (simp add: availability_of_def)
qed (simp add: availability_of_def)

lemma availability_of_less_100_iff:
  assumes "length xs \<le> 2 ^ 53"
  shows "fl_less (availability_of xs) (Fin 100) \<longleftrightarrow> False \<in> set xs"
proof (cases "xs = []")
  case ne: False
  then have a: "0 \<le> int (successes xs)" "int (successes xs) \<le> int (length xs)"
    "1 \<le> int (length xs)" "int (length xs) < 2 ^ 63" "int (length xs) \<le> 2 ^ 53"
    using assms successes_le [of xs] by (auto simp: Suc_le_eq)
  have av: "availability_of xs = Fin (pct_rat (int (successes xs)) (int (length xs)))"
    using ne pct_Fin [OF a(1-4)] by (simp add: availability_of_def)
  have iff: "successes xs = length xs \<longleftrightarrow> False \<notin> set xs"
    using successes_eq_length by blast
  show ?thesis
  proof (cases "successes xs = length xs")
    case True
    then show ?thesis using av iff pct_rat_full [OF a(3,4)] by simp
  next
    case False
    with a(2) have "int (successes xs) < int (length xs)" by simp
    from pct_rat_below_hundred [OF a(1) this a(5)] show ?thesis using av iff False by simp
  qed
qed (simp add: availability_of_def)

text \<open>
  A rolling window created with a positive size never panics, and after any sequence of
  results it holds exactly the most recent \<open>size\<close> of them in order, with its running
  success count equal to the number of successes among them.
\<close>

lemma Window_keeps_last_results:
  assumes "1 \<le> sz" and "sz < 2 ^ 63"
  shows "\<exists>w0 w. newWindow sz = Some w0 \<and> go_range Window_Add w0 rs = Some w
    \<and> window_list w = lastn (nat sz) rs
    \<and> w_sum w = int (length (filter id (lastn (nat sz) rs)))
    \<and> Window_Len w = int (length (lastn (nat sz) rs))
    \<and> (Window_Full w \<longleftrightarrow> nat sz \<le> length rs)"
proof -
  from newWindow_ok [OF assms] obtain w0
    where w0: "newWindow sz = Some w0" "window_inv w0" "window_list w0 = []" "w_size w0 = sz" by blast
  from win.adds_ok [OF w0(2), of rs] w0(3) obtain w
    where w: "go_range Window_Add w0 rs = Some w" "window_inv w" "window_cap w = window_cap w0"
      "window_list w = lastn (window_cap w0) rs" by auto
  have cap: "window_cap w0 = nat sz" using w0(4) by (simp add: window_cap_def)
  have "w_size w = sz" using w(3) cap window_invD(1) [OF w(2)] assms(1) by (simp add: window_cap_def)
  moreover have "w_len w = int (length (lastn (nat sz) rs))"
    using length_window_list [OF w(2)] w(4) cap by simp
  ultimately show ?thesis
    using w0(1) w window_inv_sum [OF w(2)] assms(1) cap
    by (auto simp: Window_Len_def Window_Full_def successes_def)
qed

text \<open>
  The availability a window reports is a percentage: for every window satisfying the
  invariant it is the rounded success ratio of the retained results, lies between 0 and 100,
  and (up to \<open>2\<^sup>5\<^sup>3\<close> samples) is below 100 exactly when some retained result failed.
\<close>

lemma Window_Availability_spec:
  assumes "window_inv w"
  shows "Window_Availability w = availability_of (window_list w)
    \<and> fl_le (Fin 0) (Window_Availability w) \<and> fl_le (Window_Availability w) (Fin 100)
    \<and> (w_size w \<le> 2 ^ 53 \<longrightarrow>
         (fl_less (Window_Availability w) (Fin 100) \<longleftrightarrow> False \<in> set (window_list w)))"
proof -
  note eq = Window_Availability_eq [OF assms]
  have len: "length (window_list w) < 2 ^ 63" "w_size w \<le> 2 ^ 53 \<Longrightarrow> length (window_list w) \<le> 2 ^ 53"
    using window_invD(2,5,6,11) [OF assms] by auto
  from availability_of_bounds [OF len(1)] obtain q
    where "availability_of (window_list w) = Fin q" "0 \<le> q" "q \<le> 100" by blast
  then show ?thesis using eq availability_of_less_100_iff [OF len(2)] by simp
qed

lemma Window_Availability_spec_witness:
  "\<exists>w. newWindow 3 = Some w \<and> window_inv w
    \<and> Window_Availability w = availability_of (window_list w)
    \<and> fl_le (Window_Availability w) (Fin 100)
    \<and> (fl_less (Window_Availability w) (Fin 100) \<longleftrightarrow> False \<in> set (window_list w))"
proof -
  from newWindow_ok [of 3] obtain w where "newWindow 3 = Some w" "window_inv w" "w_size w = 3" by auto
  with Window_Availability_spec [of w] show ?thesis by auto
qed

end
