(* ===== verification/Percent.thy ===== *)
theory Percent
  imports Float64
begin

text \<open>
  Exactness of percentage thresholds. \<open>rnd_frac\<close> rounds a positive fraction in integer
  arithmetic, which evaluates the finitely many boundary cases; the error bound of rounding
  covers the rest. The result: a window of at most 49 results decides an integer percentage
  threshold as exact arithmetic would. (At 50 results this fails, see the state machine.)
\<close>

function norm52 :: "int \<Rightarrow> int \<Rightarrow> nat \<Rightarrow> int \<times> nat" where
  "norm52 n d s = (if 0 < n \<and> n < 2 ^ 52 * d then norm52 (2 * n) d (Suc s) else (n, s))"
  by pat_completeness auto
termination
  by (relation "measure (\<lambda>(n, d, s). nat (2 ^ 52 * d - n))") auto

declare norm52.simps [simp del]

lemma norm52_inv:
  assumes "0 < n" and "n < 2 ^ 53 * d" and "norm52 n d s = (n', s')"
  shows "s \<le> s' \<and> n' = n * 2 ^ (s' - s) \<and> 2 ^ 52 * d \<le> n' \<and> n' < 2 ^ 53 * d"
  using assms
proof (induction n d s rule: norm52.induct)
  case (1 n d s)
  show ?case
  proof (cases "n < 2 ^ 52 * d")
    case True
    with "1.prems" have "norm52 (2 * n) d (Suc s) = (n', s')" by (simp add: norm52.simps [of n d s])
    with "1.IH" True "1.prems" have IH: "Suc s \<le> s'" "n' = 2 * n * 2 ^ (s' - Suc s)"
      "2 ^ 52 * d \<le> n'" "n' < 2 ^ 53 * d" by auto
    from IH(1) have "(2::int) * 2 ^ (s' - Suc s) = 2 ^ (s' - s)"
      by (metis Suc_diff_Suc Suc_le_lessD power_Suc)
    with IH show ?thesis by (simp add: mult.assoc)
  next
    case False
    with "1.prems" show ?thesis by (simp add: norm52.simps [of n d s])
  qed
qed

text \<open>\<open>rnd_frac n d\<close> rounds \<open>n / d\<close> to \<open>m / 2\<^sup>s\<close> in integer arithmetic; \<^term>\<open>None\<close> on a tie.\<close>

definition rnd_frac :: "int \<Rightarrow> int \<Rightarrow> (int \<times> nat) option" where
  "rnd_frac n d = (let (n', s) = norm52 n d 0; m = (2 * n' + d) div (2 * d)
     in if (2 * n' + d) mod (2 * d) = 0 then None else Some (m, s))"

lemma rnd_frac_sound:
  assumes n: "0 < n" "n < 2 ^ 53 * d" and f: "rnd_frac n d = Some (m, s)" and s: "s \<le> 1074"
  shows "rnd (of_int n / of_int d) = of_int m / 2 ^ s"
proof -
  have d: "0 < d"
  proof (rule ccontr)
    assume "\<not> 0 < d"
    then have "2 ^ 53 * d \<le> 0" by (simp add: mult_nonneg_nonpos)
    with n show False by simp
  qed
  obtain n' where nn: "norm52 n d 0 = (n', s)" and m: "m = (2 * n' + d) div (2 * d)"
    and nt: "(2 * n' + d) mod (2 * d) \<noteq> 0"
    using f by (auto simp: rnd_frac_def Let_def split: prod.splits if_splits)
  have n': "n' = n * 2 ^ s" "2 ^ 52 * d \<le> n'" "n' < 2 ^ 53 * d"
    using norm52_inv [OF n nn] by auto
  let ?x = "of_int n / of_int d :: rat"
  have xs: "?x * 2 ^ s = of_int n' / of_int d" by (simp add: n'(1))
  have "(2::rat) ^ 52 \<le> ?x * 2 ^ s" "?x * 2 ^ s < 2 ^ 53"
    using n'(2,3) d unfolding xs
    by (simp_all add: pos_le_divide_eq pos_divide_less_eq flip: of_int_le_iff of_int_less_iff)
  then have "2 powi (52 - int s) \<le> ?x" "?x < 2 powi (52 - int s + 1)"
    by (simp_all add: power_int_diff power_int_add field_simps)
  then have "ilog2 ?x = 52 - int s" by (rule ilog2_eqI)
  moreover have pos: "0 < ?x" using n(1) d by simp
  ultimately have u: "ulp_exp ?x = - int s"
    using s unfolding ulp_exp_def abs_of_pos [OF pos] by simp
  have md: "2 * d * m \<le> 2 * n' + d" "2 * n' + d < 2 * d * m + 2 * d" "2 * d * m \<noteq> 2 * n' + d"
    using d nt mult_div_mod_eq [of "2 * d" "2 * n' + d"] pos_mod_bound [of "2 * d" "2 * n' + d"]
      pos_mod_sign [of "2 * d" "2 * n' + d"] unfolding m by linarith+
  then have "2 * d * m - d < 2 * n'" "2 * n' < 2 * d * m + d" by linarith+
  then have "(of_int (2 * d * m - d) :: rat) < of_int (2 * n')" "(of_int (2 * n') :: rat) < of_int (2 * d * m + d)"
    by (simp_all only: of_int_less_iff)
  then have "rnd_int (?x * 2 ^ s) = m"
    unfolding xs using d by (intro rnd_int_eqI) (simp_all add: field_simps)
  moreover have "?x / 2 powi (- int s) = ?x * 2 ^ s"
    unfolding power_int_minus divide_inverse [of ?x] by simp
  ultimately show ?thesis using n(1) d by (simp add: rnd_def u power_int_minus field_simps)
qed

text \<open>Whether the rounded percentage of \<open>a / b\<close> is at least the integer \<open>t\<close>.\<close>

definition pct_reaches :: "int \<Rightarrow> int \<Rightarrow> int \<Rightarrow> bool" where
  "pct_reaches a b t \<longleftrightarrow>
     (case rnd_frac a b of None \<Rightarrow> False | Some (m, s) \<Rightarrow>
        case rnd_frac (100 * m) (2 ^ s) of None \<Rightarrow> False | Some (m', s') \<Rightarrow>
          s \<le> 1074 \<and> s' \<le> 1074 \<and> 0 < m \<and> 100 * m < 2 ^ 53 * 2 ^ s \<and> t * 2 ^ s' \<le> m')"

lemma pct_reaches_sound:
  assumes "pct_reaches a b t" and "0 < a" "a \<le> b" "b \<le> 2 ^ 53"
  shows "of_int t \<le> rnd (rnd (of_int a / of_int b) * 100)"
proof -
  from assms(1) obtain m s m' s' where f: "rnd_frac a b = Some (m, s)"
      "rnd_frac (100 * m) (2 ^ s) = Some (m', s')"
    and c: "s \<le> 1074" "s' \<le> 1074" "0 < m" "100 * m < 2 ^ 53 * 2 ^ s" "t * 2 ^ s' \<le> m'"
    by (auto simp: pct_reaches_def split: option.splits)
  have "a < 2 ^ 53 * b" using assms(2,3) by simp
  then have q: "rnd (of_int a / of_int b) = of_int m / 2 ^ s"
    using rnd_frac_sound [OF assms(2) _ f(1) c(1)] by simp
  have "rnd (of_int (100 * m) / of_int (2 ^ s)) = of_int m' / 2 ^ s'"
    using rnd_frac_sound [OF _ c(4) f(2) c(2)] c(3) by simp
  then have "rnd (rnd (of_int a / of_int b) * 100) = of_int m' / 2 ^ s'"
    by (simp add: q mult.commute)
  moreover have "(of_int (t * 2 ^ s') :: rat) \<le> of_int m'" using c(5) by (simp only: of_int_le_iff)
  ultimately show ?thesis by (simp add: pos_le_divide_eq)
qed

lemma twentieths_reach: "list_all (\<lambda>c. pct_reaches c 20 (5 * c)) [1..20]" by code_simp

lemma twenty_fifths_reach: "list_all (\<lambda>c. pct_reaches c 25 (4 * c)) [1..25]" by code_simp

lemma small_denominators:
  "list_all (\<lambda>b. list_all (\<lambda>a. 100 * a mod b = 0 \<longrightarrow> 20 * a mod b = 0 \<or> 25 * a mod b = 0) [1..b]) [1..49::int]"
  by code_simp

lemma rnd_error:
  assumes "0 \<le> x" and "x \<le> 1"
  shows "rnd x \<le> x + 1 / 2 ^ 53" and "x \<le> rnd x + 1 / 2 ^ 53"
proof -
  have "rnd x \<le> x + 1 / 2 ^ 53 \<and> x \<le> rnd x + 1 / 2 ^ 53"
  proof (cases "x = 0 \<or> x = 1")
    case True
    then show ?thesis using rnd_of_int [of 1] by auto
  next
    case False
    with assms have x: "0 < x" "x < 1" by auto
    have "(2 powi ilog2 x :: rat) < 2 powi 0" using ilog2_bounds [OF x(1)] x(2) by simp
    then have "ilog2 x < 0" by (simp only: powi2_less)
    then have "ulp_exp x \<le> - 53" using x by (simp add: ulp_exp_def)
    then have u: "(2 powi ulp_exp x :: rat) \<le> 1 / 2 ^ 53"
      using powi2_le [of "ulp_exp x" "- 53", unfolded power_int_minus power_int_numeral] by simp
    let ?q = "x / 2 powi ulp_exp x"
    have "of_int (rnd_int ?q) * 2 powi ulp_exp x \<le> (?q + 1 / 2) * 2 powi ulp_exp x"
      "?q * 2 powi ulp_exp x \<le> (of_int (rnd_int ?q) + 1 / 2) * 2 powi ulp_exp x"
      using rnd_int_near [of ?q] by (simp_all only: mult_right_mono powi2_pos less_imp_le)
    then have "rnd x \<le> x + 2 powi ulp_exp x / 2" "x \<le> rnd x + 2 powi ulp_exp x / 2"
      using x by (simp_all add: rnd_def distrib_right)
    with u powi2_pos [of "ulp_exp x"] show ?thesis by linarith
  qed
  then show "rnd x \<le> x + 1 / 2 ^ 53" "x \<le> rnd x + 1 / 2 ^ 53" by simp_all
qed

lemma pct_exact_fraction:
  assumes ab: "0 < a" "a \<le> b" and v: "100 * a = v * b" and kl: "k * l = 100" "1 \<le> k" "k \<le> 100"
    and dv: "k * a mod b = 0" and all: "list_all (\<lambda>c. pct_reaches c k (l * c)) [1..k]"
  shows "of_int v \<le> rnd (rnd (of_int a / of_int b) * 100)"
proof -
  from dv obtain c where c: "k * a = b * c" by (metis mod_0_imp_dvd dvdE)
  have "b * (l * c) = l * (k * a)" by (simp add: c)
  also have "\<dots> = k * l * a" by simp
  also have "\<dots> = b * v" using kl(1) v by simp
  finally have vc: "v = l * c" using ab by simp
  have "(of_int a :: rat) * of_int k = of_int c * of_int b"
    using arg_cong [OF c, of "of_int :: int \<Rightarrow> rat"] by (simp add: mult.commute)
  then have eq: "(of_int a / of_int b :: rat) = of_int c / of_int k"
    using ab kl(2) by (simp add: frac_eq_eq)
  have "k * a \<le> k * b" "0 < k * a" using ab kl(2) by simp_all
  with c have "b * c \<le> b * k" "0 < b * c" by (simp_all add: mult.commute)
  then have ck: "1 \<le> c" "c \<le> k" using ab by (simp_all add: zero_less_mult_iff)
  with all have "pct_reaches c k (l * c)" by (simp add: list_all_iff)
  from pct_reaches_sound [OF this] ck kl(3) show ?thesis by (simp add: eq vc)
qed

lemma pct_exact_reaches:
  assumes ab: "0 \<le> a" "a \<le> b" "1 \<le> b" "b \<le> 49" and v: "100 * a = v * b"
  shows "of_int v \<le> rnd (rnd (of_int a / of_int b) * 100)"
proof (cases "a = 0")
  case False
  with ab have a: "0 < a" "a \<in> set [1..b]" "b \<in> set [1..49]" by auto
  have "100 * a mod b = 0" by (simp add: v)
  moreover have "100 * a mod b = 0 \<longrightarrow> 20 * a mod b = 0 \<or> 25 * a mod b = 0"
    using bspec [OF bspec [OF small_denominators [unfolded list_all_iff] a(3)] a(2)] .
  ultimately consider "20 * a mod b = 0" | "25 * a mod b = 0" by auto
  then show ?thesis
  proof cases
    case 1
    show ?thesis by (rule pct_exact_fraction [OF a(1) ab(2) v _ _ _ 1 twentieths_reach]) simp_all
  next
    case 2
    show ?thesis by (rule pct_exact_fraction [OF a(1) ab(2) v _ _ _ 2 twenty_fifths_reach]) simp_all
  qed
qed (use assms in simp)

lemma rnd_between:
  assumes "0 \<le> a" "a \<le> b" "1 \<le> b"
  shows "rnd (of_int a / of_int b) * 100 \<le> 100 * of_int a / of_int b + 1 / 64"
    and "100 * of_int a / of_int b - 1 / 64 \<le> rnd (of_int a / of_int b) * 100"
proof -
  have "0 \<le> (of_int a / of_int b :: rat)" "(of_int a / of_int b :: rat) \<le> 1" using assms by simp_all
  from rnd_error [OF this] show "rnd (of_int a / of_int b) * 100 \<le> 100 * of_int a / of_int b + 1 / 64"
    "100 * of_int a / of_int b - 1 / 64 \<le> rnd (of_int a / of_int b) * 100" by simp_all
qed

text \<open>
  Windows of at most 49 results decide an integer threshold exactly: rounding never moves the
  percentage across it.
\<close>

lemma pct_rat_small:
  assumes "0 \<le> a" "a \<le> b" "1 \<le> b" "b \<le> 49"
  shows "pct_rat a b = rnd (rnd (of_int a / of_int b) * 100)"
    and "0 \<le> rnd (of_int a / of_int b) * 100"
    and "0 < (of_int b :: rat)" and "1 / 49 \<le> 1 / (of_int b :: rat)"
proof -
  have "rnd (of_int a) = of_int a" "rnd (of_int b) = of_int b" using assms by (auto intro!: rnd_of_int)
  then show "pct_rat a b = rnd (rnd (of_int a / of_int b) * 100)" by (simp add: pct_rat_def)
  show "0 \<le> rnd (of_int a / of_int b) * 100" using assms by (simp add: rnd_nonneg)
  have b: "0 < (of_int b :: rat)" "(of_int b :: rat) \<le> 49" using assms by (simp_all flip: of_int_le_iff)
  then show "0 < (of_int b :: rat)" "1 / 49 \<le> 1 / (of_int b :: rat)" by (simp_all add: frac_le)
qed

lemma pct_rat_below:
  assumes ab: "0 \<le> a" "a \<le> b" "1 \<le> b" "b \<le> 49" and lt: "100 * a < t * b" and t: "t \<le> 100"
  shows "pct_rat a b < of_int t"
proof -
  note s = pct_rat_small [OF ab]
  let ?q = "rnd (of_int a / of_int b) * 100" and ?v = "100 * of_int a / of_int b :: rat"
  have "(of_int (100 * a) :: rat) \<le> of_int (t * b - 1)" using lt by (simp only: of_int_le_iff)
  then have "?v \<le> (of_int t * of_int b - 1) / of_int b" using s(3) by (intro divide_right_mono) simp_all
  then have "?v \<le> of_int t - 1 / of_int b" using s(3) by (simp add: diff_divide_distrib)
  then have "?q \<le> of_int t - 1 / 256" using rnd_between(1) [OF ab(1-3)] s(4) by linarith
  then have le: "rnd ?q \<le> rnd (of_int t - 1 / 256)" by (rule rnd_mono [OF s(2)])
  have "0 < t * b" using lt ab(1) by simp
  then have "0 < t" using ab(3) by (simp add: zero_less_mult_iff)
  with t have "\<bar>256 * t - 1\<bar> \<le> 2 ^ 53" by simp
  then have "rnd (of_int t - 1 / 256) = of_int t - 1 / 256"
    by (intro rnd_exact [where m = "256 * t - 1" and e = "- 8"])
      (simp_all add: power_int_def field_simps)
  with le s(1) show ?thesis by simp
qed

lemma pct_rat_at_least:
  assumes ab: "0 \<le> a" "a \<le> b" "1 \<le> b" "b \<le> 49" and ge: "t * b \<le> 100 * a" and t: "0 \<le> t" "t \<le> 100"
  shows "of_int t \<le> pct_rat a b"
proof (cases "t * b = 100 * a")
  case True
  then show ?thesis using pct_exact_reaches [OF ab, of t] pct_rat_small(1) [OF ab] by simp
next
  case False
  note s = pct_rat_small [OF ab]
  let ?q = "rnd (of_int a / of_int b) * 100" and ?v = "100 * of_int a / of_int b :: rat"
  from False ge have "t * b + 1 \<le> 100 * a" by simp
  then have "(of_int (t * b + 1) :: rat) \<le> of_int (100 * a)" by (simp only: of_int_le_iff)
  then have "(of_int t * of_int b + 1) / of_int b \<le> ?v" using s(3) by (intro divide_right_mono) simp_all
  then have "of_int t + 1 / of_int b \<le> ?v" using s(3) by (simp add: add_divide_distrib)
  then have tq: "of_int t \<le> ?q" using rnd_between(2) [OF ab(1-3)] s(4) by linarith
  have "rnd (of_int t) = of_int t" using t by (intro rnd_of_int) simp
  with rnd_mono [OF _ tq] t(1) s(1) show ?thesis by simp
qed

lemma pct_integer_threshold:
  assumes "0 \<le> a" "a \<le> b" "1 \<le> b" "b \<le> 49" and "0 \<le> t" "t \<le> 100"
  shows "fl_less (pct a b) (Fin (of_int t)) \<longleftrightarrow> 100 * a < t * b"
proof -
  have "b < 2 ^ 63" using assms(4) by simp
  with assms show ?thesis
    using pct_Fin [of a b] pct_rat_below [OF assms(1-4)] pct_rat_at_least [OF assms(1-4)]
    by (cases "100 * a < t * b") (auto simp: not_less)
qed

text \<open>At 50 and more results the rounding can cross an integer threshold.\<close>

lemma pct_29_100: "fl_less (pct 29 100) (Fin 29)"
proof -
  have "pct_rat 29 100 < 29" by code_simp
  then show ?thesis using pct_Fin [of 29 100] by simp
qed

end
