(* ===== verification/StateMachine.thy ===== *)
theory StateMachine
  imports Window Percent
begin

text \<open>
  \<open>internal/monitor/statemachine.go\<close>: the alert state machine. One definition per method;
  the reading of the clock is an argument of \<open>Observe\<close>. The lemmas give the machine's state
  after any history of check results in closed form for both triggers, and show that it is an
  alert source: it reports an event exactly when its health changes, so alerts and recoveries
  alternate. Every monitoring role uses the machine through that interface.
\<close>

section \<open>Events, states and the machine\<close>

datatype Event = NoEvent | AlertUnhealthy | RecoveryHealthy

datatype State = Healthy | Unhealthy

definition State_String :: "State \<Rightarrow> string" where
  "State_String s = (if s = Unhealthy then ''UNHEALTHY'' else ''HEALTHY'')"

datatype Trigger = TriggerConsecutive | TriggerAvailability

record MonConfig =
  mc_FailureThreshold :: goint
  mc_WindowSize :: goint
  mc_Trigger :: Trigger
  mc_MinAvailability :: float64

record StateMachine =
  m_failureThreshold :: goint
  m_trigger :: Trigger
  m_minAvailability :: float64
  m_state :: State
  m_consecutive :: goint
  m_window :: "window option"
  m_lastSuccess :: time
  m_now :: "(unit \<Rightarrow> time) option"

definition NewWithConfig :: "MonConfig \<Rightarrow> StateMachine option" where
  "NewWithConfig cfg = do {
     let ft = (if mc_FailureThreshold cfg < 1 then 1 else mc_FailureThreshold cfg);
     w \<leftarrow> (if 0 < mc_WindowSize cfg then map_option Some (newWindow (mc_WindowSize cfg)) else Some None);
     Some \<lparr>m_failureThreshold = ft, m_trigger = mc_Trigger cfg,
           m_minAvailability = mc_MinAvailability cfg, m_state = Healthy, m_consecutive = 0,
           m_window = w, m_lastSuccess = 0, m_now = None\<rparr>
   }"

definition New :: "goint \<Rightarrow> StateMachine option" where
  "New failureThreshold = NewWithConfig
     \<lparr>mc_FailureThreshold = failureThreshold, mc_WindowSize = 0, mc_Trigger = TriggerConsecutive,
      mc_MinAvailability = Fin 0\<rparr>"

definition transitionConsecutive :: "StateMachine \<Rightarrow> bool \<Rightarrow> Event \<times> StateMachine" where
  "transitionConsecutive m success =
     (if success then
        if m_state m = Unhealthy then (RecoveryHealthy, m\<lparr>m_state := Healthy\<rparr>) else (NoEvent, m)
      else if m_state m = Healthy \<and> m_failureThreshold m \<le> m_consecutive m
        then (AlertUnhealthy, m\<lparr>m_state := Unhealthy\<rparr>)
      else (NoEvent, m))"

definition transitionAvailability :: "StateMachine \<Rightarrow> Event \<times> StateMachine" where
  "transitionAvailability m =
     (case m_window m of
        None \<Rightarrow> (NoEvent, m)
      | Some w \<Rightarrow>
          if \<not> Window_Full w then (NoEvent, m)
          else let avail = Window_Availability w in
            if m_state m = Healthy \<and> fl_less avail (m_minAvailability m)
              then (AlertUnhealthy, m\<lparr>m_state := Unhealthy\<rparr>)
            else if m_state m = Unhealthy \<and> fl_le (m_minAvailability m) avail
              then (RecoveryHealthy, m\<lparr>m_state := Healthy\<rparr>)
            else (NoEvent, m))"

definition clock :: "StateMachine \<Rightarrow> time \<Rightarrow> time" where
  "clock m t = (case m_now m of Some now \<Rightarrow> now () | None \<Rightarrow> t)"

definition Observe :: "StateMachine \<Rightarrow> time \<Rightarrow> bool \<Rightarrow> (Event \<times> StateMachine) option" where
  "Observe m t success = do {
     let m1 = (if success then m\<lparr>m_consecutive := 0, m_lastSuccess := clock m t\<rparr>
               else m\<lparr>m_consecutive := go_add (m_consecutive m) 1\<rparr>);
     m2 \<leftarrow> (case m_window m1 of
              None \<Rightarrow> Some m1
            | Some w \<Rightarrow> do { w' \<leftarrow> Window_Add w success; Some (m1\<lparr>m_window := Some w'\<rparr>) });
     Some (if m_trigger m2 = TriggerAvailability then transitionAvailability m2
           else transitionConsecutive m2 success)
   }"

definition SM_State :: "StateMachine \<Rightarrow> State" where
  "SM_State m = m_state m"

definition ConsecutiveFailures :: "StateMachine \<Rightarrow> goint" where
  "ConsecutiveFailures m = m_consecutive m"

definition HasWindow :: "StateMachine \<Rightarrow> bool" where
  "HasWindow m \<longleftrightarrow> m_window m \<noteq> None"

definition Availability :: "StateMachine \<Rightarrow> float64" where
  "Availability m = (case m_window m of None \<Rightarrow> Fin 100 | Some w \<Rightarrow> Window_Availability w)"

definition LastSuccess :: "StateMachine \<Rightarrow> time" where
  "LastSuccess m = m_lastSuccess m"

section \<open>Alert sources\<close>

text \<open>
  The interface the roles rely on: a step never panics, keeps the invariant, and its event
  is determined by the change of health it makes.
\<close>

fun event_of :: "State \<Rightarrow> State \<Rightarrow> Event" where
  "event_of Healthy Unhealthy = AlertUnhealthy"
| "event_of Unhealthy Healthy = RecoveryHealthy"
| "event_of _ _ = NoEvent"

primrec run_events :: "('s \<Rightarrow> 'i \<Rightarrow> ('e \<times> 's) option) \<Rightarrow> 's \<Rightarrow> 'i list \<Rightarrow> ('e list \<times> 's) option" where
  "run_events step s [] = Some ([], s)"
| "run_events step s (i # xs) = do {
     (e, s') \<leftarrow> step s i;
     (es, s'') \<leftarrow> run_events step s' xs;
     Some (e # es, s'')
   }"

lemma run_events_snoc:
  "run_events step s (xs @ [x]) = do {
     (es, s') \<leftarrow> run_events step s xs;
     (e, s'') \<leftarrow> step s' x;
     Some (es @ [e], s'')
   }"
  by (induction xs arbitrary: s) (auto split: bind_splits prod.splits option.splits)

fun alternates :: "State \<Rightarrow> Event list \<Rightarrow> State \<Rightarrow> bool" where
  "alternates s [] s' \<longleftrightarrow> s = s'"
| "alternates s (NoEvent # es) s' \<longleftrightarrow> alternates s es s'"
| "alternates Healthy (AlertUnhealthy # es) s' \<longleftrightarrow> alternates Unhealthy es s'"
| "alternates Unhealthy (RecoveryHealthy # es) s' \<longleftrightarrow> alternates Healthy es s'"
| "alternates _ _ _ \<longleftrightarrow> False"

lemma alternates_event_of: "alternates s (event_of s t # es) u \<longleftrightarrow> alternates t es u"
  by (cases s; cases t) simp_all

lemma alternates_counts:
  "alternates s es s' \<Longrightarrow>
    int (count_list es AlertUnhealthy) - int (count_list es RecoveryHealthy)
      = (if s' = Unhealthy then 1 else 0) - (if s = Unhealthy then 1 else 0)"
  by (induction s es s' rule: alternates.induct) (auto split: if_splits)

lemma alternates_append:
  "alternates s (xs @ ys) u \<longleftrightarrow> (\<exists>t. alternates s xs t \<and> alternates t ys u)"
  by (induction s xs u rule: alternates.induct) auto

lemma alternates_no_repeat:
  assumes "alternates s (xs @ e # zs @ e # ys) u" and "e \<noteq> NoEvent"
  shows "\<exists>z \<in> set zs. z \<noteq> NoEvent \<and> z \<noteq> e"
proof (rule ccontr)
  assume "\<not> ?thesis"
  then have zs: "\<forall>z \<in> set zs. z = NoEvent \<or> z = e" by auto
  have stuck: "\<not> alternates t (zs @ e # ys) u"
    if "(e = AlertUnhealthy \<and> t = Unhealthy) \<or> (e = RecoveryHealthy \<and> t = Healthy)" for t
    using zs that
  proof (induction zs arbitrary: t)
    case (Cons z zs)
    then show ?case by (cases z; cases t) auto
  qed auto
  from assms(1) obtain t where "alternates t (e # zs @ e # ys) u"
    by (auto simp: alternates_append)
  with stuck assms(2) show False by (cases e; cases t) auto
qed

locale alert_source =
  fixes step :: "'s \<Rightarrow> 'i \<Rightarrow> (Event \<times> 's) option"
    and health :: "'s \<Rightarrow> State"
    and invar :: "'s \<Rightarrow> bool"
  assumes step_ok: "invar s \<Longrightarrow> \<exists>s'. step s i = Some (event_of (health s) (health s'), s') \<and> invar s'"
begin

lemma run_ok:
  "invar s \<Longrightarrow> \<exists>es s'. run_events step s xs = Some (es, s') \<and> invar s' \<and> length es = length xs
    \<and> alternates (health s) es (health s')"
proof (induction xs arbitrary: s)
  case (Cons i xs)
  from step_ok [OF Cons.prems] obtain t
    where t: "step s i = Some (event_of (health s) (health t), t)" "invar t" by blast
  from Cons.IH [OF t(2)] obtain es u where "run_events step t xs = Some (es, u)" "invar u"
    "length es = length xs" "alternates (health t) es (health u)" by blast
  with t(1) show ?case by (simp add: alternates_event_of)
qed simp

end

section \<open>The machine as an alert source\<close>

definition sm_inv :: "StateMachine \<Rightarrow> bool" where
  "sm_inv m \<longleftrightarrow> (\<forall>w. m_window m = Some w \<longrightarrow> window_inv w)"

lemmas transition_defs = transitionConsecutive_def transitionAvailability_def

lemma transition_event:
  "transitionConsecutive m b = (e, m') \<Longrightarrow> e = event_of (m_state m) (m_state m')"
  "transitionAvailability m = (e, m') \<Longrightarrow> e = event_of (m_state m) (m_state m')"
  by (cases "m_state m"; auto simp: transition_defs Let_def split: if_splits option.splits)+

lemma transition_frame:
  "transitionConsecutive m b = (e, m') \<Longrightarrow> m' = m\<lparr>m_state := m_state m'\<rparr>"
  "transitionAvailability m = (e, m') \<Longrightarrow> m' = m\<lparr>m_state := m_state m'\<rparr>"
  by (auto simp: transition_defs Let_def split: if_splits option.splits)

text \<open>The bookkeeping part of \<open>Observe\<close>, before the trigger is evaluated.\<close>

definition observed :: "StateMachine \<Rightarrow> time \<Rightarrow> bool \<Rightarrow> window option \<Rightarrow> StateMachine" where
  "observed m t b w = m\<lparr>m_consecutive := (if b then 0 else go_add (m_consecutive m) 1),
     m_lastSuccess := (if b then clock m t else m_lastSuccess m), m_window := w\<rparr>"

definition transition :: "StateMachine \<Rightarrow> bool \<Rightarrow> Event \<times> StateMachine" where
  "transition m b = (if m_trigger m = TriggerAvailability then transitionAvailability m
     else transitionConsecutive m b)"

lemma Observe_eval:
  assumes "sm_inv m"
  shows "\<exists>w. Observe m t b = Some (transition (observed m t b w) b)
    \<and> rel_option (\<lambda>v v'. window_inv v' \<and> window_cap v' = window_cap v
          \<and> window_list v' = lastn (window_cap v) (window_list v @ [b])) (m_window m) w"
proof (cases "m_window m")
  case None
  then show ?thesis
    by (cases m) (auto simp: Observe_def observed_def transition_def clock_def intro!: exI [of _ None])
next
  case (Some v)
  with assms Window_Add_ok [of v b] obtain v' where "Window_Add v b = Some v'" "window_inv v'"
    "window_cap v' = window_cap v" "window_list v' = lastn (window_cap v) (window_list v @ [b])"
    by (auto simp: sm_inv_def)
  with Some show ?thesis
    by (auto simp: Observe_def observed_def transition_def intro!: exI [of _ "Some v'"])
qed

lemma observed_state [simp]: "m_state (observed m t b w) = m_state m"
  by (simp add: observed_def)

lemma transition_ok:
  assumes "transition m b = (e, m')"
  shows "e = event_of (m_state m) (m_state m')" and "m' = m\<lparr>m_state := m_state m'\<rparr>"
  using assms transition_event transition_frame by (auto simp: transition_def split: if_splits)

lemma transition_fields:
  assumes "transition (observed m t b w) b = (e, m')"
  shows "m_failureThreshold m' = m_failureThreshold m" "m_trigger m' = m_trigger m"
    "m_minAvailability m' = m_minAvailability m" "m_now m' = m_now m"
    "m_consecutive m' = (if b then 0 else go_add (m_consecutive m) 1)"
    "m_lastSuccess m' = (if b then clock m t else m_lastSuccess m)" "m_window m' = w"
  by (subst transition_ok(2) [OF assms], simp add: observed_def)+

lemma Observe_step:
  assumes "sm_inv m"
  shows "\<exists>m'. Observe m t b = Some (event_of (m_state m) (m_state m'), m') \<and> sm_inv m'"
proof -
  from Observe_eval [OF assms, of t b] obtain w where
    w: "Observe m t b = Some (transition (observed m t b w) b)" and
    r: "rel_option (\<lambda>v v'. window_inv v' \<and> window_cap v' = window_cap v
          \<and> window_list v' = lastn (window_cap v) (window_list v @ [b])) (m_window m) w" by blast
  obtain e m' where em: "transition (observed m t b w) b = (e, m')" by fastforce
  from transition_fields(7) [OF em] r have "sm_inv m'" by (auto simp: sm_inv_def option_rel_Some2)
  with w em transition_ok(1) [OF em] show ?thesis by simp
qed

interpretation sm: alert_source "\<lambda>m (t, b). Observe m t b" SM_State sm_inv
  by unfold_locales (use Observe_step in \<open>auto simp: SM_State_def\<close>)

section \<open>The machine's state in closed form\<close>

definition trailing_failures :: "bool list \<Rightarrow> nat" where
  "trailing_failures rs = length (takeWhile Not (rev rs))"

definition last_success :: "(time \<times> bool) list \<Rightarrow> time" where
  "last_success obs = (case rev (filter snd obs) of [] \<Rightarrow> 0 | (t, _) # _ \<Rightarrow> t)"

definition expected_state :: "MonConfig \<Rightarrow> bool list \<Rightarrow> State" where
  "expected_state cfg rs =
     (case mc_Trigger cfg of
        TriggerConsecutive \<Rightarrow>
          if max 1 (mc_FailureThreshold cfg) \<le> int (trailing_failures rs) then Unhealthy else Healthy
      | TriggerAvailability \<Rightarrow>
          if 0 < mc_WindowSize cfg \<and> nat (mc_WindowSize cfg) \<le> length rs
             \<and> fl_less (availability_of (lastn (nat (mc_WindowSize cfg)) rs)) (mc_MinAvailability cfg)
          then Unhealthy else Healthy)"

lemma trailing_failures_snoc [simp]:
  "trailing_failures (rs @ [b]) = (if b then 0 else Suc (trailing_failures rs))"
  and trailing_failures_Nil [simp]: "trailing_failures [] = 0"
  by (simp_all add: trailing_failures_def)

lemma trailing_failures_le: "trailing_failures rs \<le> length rs"
  using length_takeWhile_le [of Not "rev rs"] by (simp add: trailing_failures_def)

lemma last_success_snoc [simp]:
  "last_success (obs @ [(t, b)]) = (if b then t else last_success obs)"
  and last_success_Nil [simp]: "last_success [] = 0"
  by (simp_all add: last_success_def)

definition sm_rep :: "MonConfig \<Rightarrow> (time \<times> bool) list \<Rightarrow> StateMachine \<Rightarrow> bool" where
  "sm_rep cfg obs m \<longleftrightarrow>
     m_failureThreshold m = max 1 (mc_FailureThreshold cfg) \<and> m_trigger m = mc_Trigger cfg \<and>
     m_minAvailability m = mc_MinAvailability cfg \<and> m_now m = None \<and>
     m_state m = expected_state cfg (map snd obs) \<and>
     m_consecutive m = int (trailing_failures (map snd obs)) \<and>
     m_lastSuccess m = last_success obs \<and>
     (if 0 < mc_WindowSize cfg
      then \<exists>w. m_window m = Some w \<and> window_inv w \<and> window_cap w = nat (mc_WindowSize cfg)
        \<and> window_list w = lastn (nat (mc_WindowSize cfg)) (map snd obs)
      else m_window m = None)"

lemma sm_rep_inv: "sm_rep cfg obs m \<Longrightarrow> sm_inv m"
  by (auto simp: sm_rep_def sm_inv_def split: if_splits)

lemma NewWithConfig_rep:
  assumes "mc_WindowSize cfg < 2 ^ 63"
  shows "\<exists>m. NewWithConfig cfg = Some m \<and> sm_rep cfg [] m"
proof (cases "0 < mc_WindowSize cfg")
  case True
  then obtain w where "newWindow (mc_WindowSize cfg) = Some w" "window_inv w" "window_list w = []"
    "w_size w = mc_WindowSize cfg" using newWindow_ok [of "mc_WindowSize cfg"] assms by auto
  with True show ?thesis
    by (auto simp: NewWithConfig_def sm_rep_def expected_state_def window_cap_def split: Trigger.split)
next
  case False
  then show ?thesis
    by (auto simp: NewWithConfig_def sm_rep_def expected_state_def split: Trigger.split)
qed

lemma transition_consecutive_state:
  assumes "m_trigger m = TriggerConsecutive" and "transition m b = (e, m')"
    and "m_state m = (if m_failureThreshold m \<le> k then Unhealthy else Healthy)"
    and "m_consecutive m = (if b then 0 else k + 1)" and "1 \<le> m_failureThreshold m"
  shows "m_state m' = (if m_failureThreshold m \<le> m_consecutive m then Unhealthy else Healthy)"
  using assms by (auto simp: transition_def transitionConsecutive_def split: if_splits)

lemma transition_availability_state:
  assumes "m_trigger m = TriggerAvailability" and "transition m b = (e, m')" and "m_window m = Some w"
    and "Window_Availability w \<noteq> NaN"
    and "m_minAvailability m = NaN \<or> \<not> Window_Full w \<longrightarrow> m_state m = Healthy"
  shows "m_state m' = (if Window_Full w \<and> fl_less (Window_Availability w) (m_minAvailability m)
    then Unhealthy else Healthy)"
  using assms fl_not_less [of "Window_Availability w" "m_minAvailability m"]
    fl_not_NaN [of "Window_Availability w" "m_minAvailability m"]
  by (cases "m_state m")
    (auto simp: transition_def transitionAvailability_def Let_def split: if_splits)

text \<open>The state the trigger computes is the closed form, for each trigger.\<close>

lemma expected_consecutive:
  assumes rep: "sm_rep cfg obs m" and bound: "length obs < 2 ^ 63 - 1"
    and trig: "mc_Trigger cfg = TriggerConsecutive"
    and em: "transition (observed m t b w) b = (e, m')"
  shows "m_state m' = expected_state cfg (map snd (obs @ [(t, b)]))"
proof -
  let ?k = "int (trailing_failures (map snd obs))"
  have "?k < 2 ^ 63 - 1" using bound trailing_failures_le [of "map snd obs"] by simp
  then have c: "m_consecutive (observed m t b w) = (if b then 0 else ?k + 1)"
    using rep by (simp add: observed_def sm_rep_def go_simps in_int64_def)
  have "m_state m' = (if m_failureThreshold (observed m t b w) \<le> m_consecutive (observed m t b w)
      then Unhealthy else Healthy)"
    by (rule transition_consecutive_state [OF _ em _ c])
      (use rep trig in \<open>simp_all add: observed_def sm_rep_def expected_state_def\<close>)
  with c rep trig show ?thesis by (auto simp: expected_state_def sm_rep_def observed_def)
qed

lemma Window_Full_iff:
  assumes "window_inv w" and "window_list w = lastn (window_cap w) rs"
  shows "Window_Full w \<longleftrightarrow> window_cap w \<le> length rs"
  using length_window_list [OF assms(1)] window_invD(1) [OF assms(1)] assms(2)
  by (auto simp: Window_Full_def window_cap_def)

lemma Window_Availability_not_NaN: "window_inv w \<Longrightarrow> Window_Availability w \<noteq> NaN"
  using availability_of_bounds [of "window_list w"] window_invD(2,5,6,11) [of w]
  by (force simp: Window_Availability_eq)

lemma expected_availability:
  assumes rep: "sm_rep cfg obs m" and trig: "mc_Trigger cfg = TriggerAvailability"
    and em: "transition (observed m t b w) b = (e, m')"
    and w: "w = Some v" "window_inv v" "window_cap v = nat (mc_WindowSize cfg)"
      "window_list v = lastn (window_cap v) (map snd (obs @ [(t, b)]))"
    and ws: "0 < mc_WindowSize cfg"
  shows "m_state m' = expected_state cfg (map snd (obs @ [(t, b)]))"
proof -
  have "m_state m = Healthy" if "mc_MinAvailability cfg = NaN \<or> \<not> Window_Full v"
  proof -
    have "\<not> fl_less x NaN" for x by (cases x) simp_all
    moreover have "length obs < nat (mc_WindowSize cfg)" if "\<not> Window_Full v"
      using that Window_Full_iff [OF w(2,4)] w(3) by simp
    ultimately show ?thesis using that rep trig by (auto simp: sm_rep_def expected_state_def)
  qed
  then have "m_state m' = (if Window_Full v \<and> fl_less (Window_Availability v) (mc_MinAvailability cfg)
      then Unhealthy else Healthy)"
    using transition_availability_state [OF _ em, of v] rep trig w(1) Window_Availability_not_NaN [OF w(2)]
    by (simp add: observed_def sm_rep_def)
  then show ?thesis
    using Window_Full_iff [OF w(2,4)] Window_Availability_eq [OF w(2)] w(3,4) ws trig
    by (simp add: expected_state_def)
qed

lemma expected_availability_no_window:
  assumes "sm_rep cfg obs m" and "mc_Trigger cfg = TriggerAvailability"
    and "transition (observed m t b None) b = (e, m')" and "\<not> 0 < mc_WindowSize cfg"
  shows "m_state m' = expected_state cfg (map snd (obs @ [(t, b)]))"
  using assms
  by (auto simp: transition_def observed_def transitionAvailability_def sm_rep_def expected_state_def)

lemma Observe_rep:
  assumes rep: "sm_rep cfg obs m" and bound: "length obs < 2 ^ 63 - 1"
  shows "\<exists>m'. Observe m t b = Some (event_of (expected_state cfg (map snd obs))
      (expected_state cfg (map snd (obs @ [(t, b)]))), m') \<and> sm_rep cfg (obs @ [(t, b)]) m'"
proof -
  from Observe_eval [OF sm_rep_inv [OF rep], of t b] obtain w where
    ob: "Observe m t b = Some (transition (observed m t b w) b)" and
    r: "rel_option (\<lambda>v v'. window_inv v' \<and> window_cap v' = window_cap v
          \<and> window_list v' = lastn (window_cap v) (window_list v @ [b])) (m_window m) w" by blast
  obtain e m' where em: "transition (observed m t b w) b = (e, m')" by fastforce
  have win: "if 0 < mc_WindowSize cfg
      then \<exists>v. w = Some v \<and> window_inv v \<and> window_cap v = nat (mc_WindowSize cfg)
        \<and> window_list v = lastn (nat (mc_WindowSize cfg)) (map snd (obs @ [(t, b)]))
      else w = None"
    using rep r by (auto simp: sm_rep_def option_rel_Some1 lastn_lastn_append split: if_splits)
  have st: "m_state m' = expected_state cfg (map snd (obs @ [(t, b)]))"
  proof (cases "mc_Trigger cfg")
    case TriggerConsecutive
    then show ?thesis using expected_consecutive [OF rep bound _ em] by simp
  next
    case TriggerAvailability
    then show ?thesis
      using win expected_availability [OF rep _ em] expected_availability_no_window [OF rep] em
      by (fastforce split: if_splits)
  qed
  have "int (trailing_failures (map snd obs)) < 2 ^ 63 - 1"
    using bound trailing_failures_le [of "map snd obs"] by simp
  then have "sm_rep cfg (obs @ [(t, b)]) m'"
    using rep win st transition_fields [OF em]
    by (auto simp: sm_rep_def clock_def go_simps in_int64_def)
  moreover have "e = event_of (expected_state cfg (map snd obs))
      (expected_state cfg (map snd (obs @ [(t, b)])))"
    using transition_ok(1) [OF em] st rep by (simp add: sm_rep_def)
  ultimately show ?thesis using ob em by simp
qed

definition expected_events :: "MonConfig \<Rightarrow> bool list \<Rightarrow> Event list" where
  "expected_events cfg rs =
     map (\<lambda>i. event_of (expected_state cfg (take i rs)) (expected_state cfg (take (Suc i) rs)))
       [0..<length rs]"

lemma expected_events_snoc:
  "expected_events cfg (rs @ [b])
    = expected_events cfg rs @ [event_of (expected_state cfg rs) (expected_state cfg (rs @ [b]))]"
  by (simp add: expected_events_def)

lemma expected_events_Nil [simp]: "expected_events cfg [] = []"
  by (simp add: expected_events_def)

lemma length_expected_events [simp]: "length (expected_events cfg rs) = length rs"
  by (simp add: expected_events_def)

lemma nth_expected_events:
  "i < length rs \<Longrightarrow> expected_events cfg rs ! i
    = event_of (expected_state cfg (take i rs)) (expected_state cfg (take (Suc i) rs))"
  by (simp add: expected_events_def)

lemma Observe_run:
  assumes "sm_rep cfg [] m0" and "length obs < 2 ^ 63"
  shows "\<exists>m. run_events (\<lambda>m (t, b). Observe m t b) m0 obs
    = Some (expected_events cfg (map snd obs), m) \<and> sm_rep cfg obs m"
  using assms(2)
proof (induction obs rule: rev_induct)
  case Nil
  with assms(1) show ?case by simp
next
  case (snoc ob obs)
  obtain t b where ob: "ob = (t, b)" by fastforce
  from snoc obtain m where m: "run_events (\<lambda>m (t, b). Observe m t b) m0 obs
      = Some (expected_events cfg (map snd obs), m)" "sm_rep cfg obs m" by auto
  have "length obs < 2 ^ 63 - 1" using snoc.prems by simp
  from Observe_rep [OF m(2) this, of t b] show ?case
    by (auto simp: run_events_snoc m(1) ob expected_events_snoc)
qed

lemma event_of_eq [simp]:
  "event_of s t = AlertUnhealthy \<longleftrightarrow> s = Healthy \<and> t = Unhealthy"
  "event_of s t = RecoveryHealthy \<longleftrightarrow> s = Unhealthy \<and> t = Healthy"
  "event_of s t = NoEvent \<longleftrightarrow> s = t"
  by (cases s; cases t; simp)+

section \<open>Properties\<close>

text \<open>
  C1. The state machine refines its closed-form specification. For every configuration and
  every history of fewer than \<open>2\<^sup>6\<^sup>3\<close> checks, a fresh machine runs without a panic, emits
  exactly the expected event for each check, and ends with the expected health state, the
  length of the current run of failures, the time of the last success, and the availability of
  the last \<open>WindowSize\<close> results.
\<close>

theorem Observe_refines_closed_form:
  assumes "mc_WindowSize cfg < 2 ^ 63" and "length obs < 2 ^ 63"
  shows "\<exists>m0 m. NewWithConfig cfg = Some m0
    \<and> run_events (\<lambda>m (t, b). Observe m t b) m0 obs = Some (expected_events cfg (map snd obs), m)
    \<and> SM_State m = expected_state cfg (map snd obs)
    \<and> ConsecutiveFailures m = int (trailing_failures (map snd obs))
    \<and> LastSuccess m = last_success obs
    \<and> (HasWindow m \<longleftrightarrow> 0 < mc_WindowSize cfg)
    \<and> Availability m = (if 0 < mc_WindowSize cfg
         then availability_of (lastn (nat (mc_WindowSize cfg)) (map snd obs)) else Fin 100)"
proof -
  from NewWithConfig_rep [OF assms(1)] obtain m0 where m0: "NewWithConfig cfg = Some m0"
    "sm_rep cfg [] m0" by blast
  from Observe_run [OF m0(2) assms(2)] obtain m where m: "run_events (\<lambda>m (t, b). Observe m t b) m0 obs
    = Some (expected_events cfg (map snd obs), m)" "sm_rep cfg obs m" by blast
  from m(2) have "SM_State m = expected_state cfg (map snd obs)"
    "ConsecutiveFailures m = int (trailing_failures (map snd obs))"
    "LastSuccess m = last_success obs" "HasWindow m \<longleftrightarrow> 0 < mc_WindowSize cfg"
    "Availability m = (if 0 < mc_WindowSize cfg
         then availability_of (lastn (nat (mc_WindowSize cfg)) (map snd obs)) else Fin 100)"
    by (auto simp: sm_rep_def SM_State_def ConsecutiveFailures_def LastSuccess_def HasWindow_def
        Availability_def Window_Availability_eq split: if_splits)
  with m0(1) m(1) show ?thesis by blast
qed

definition example_cfg :: MonConfig where
  "example_cfg = \<lparr>mc_FailureThreshold = 2, mc_WindowSize = 4, mc_Trigger = TriggerConsecutive,
     mc_MinAvailability = Fin 0\<rparr>"

theorem Observe_refines_closed_form_witness:
  "\<exists>m0 m. NewWithConfig example_cfg = Some m0
    \<and> run_events (\<lambda>m (t, b). Observe m t b) m0 [(10, False), (20, False), (30, False), (40, True)]
        = Some ([NoEvent, AlertUnhealthy, NoEvent, RecoveryHealthy], m)
    \<and> SM_State m = Healthy \<and> ConsecutiveFailures m = 0 \<and> LastSuccess m = 40 \<and> HasWindow m"
proof -
  let ?obs = "[(10, False), (20, False), (30, False), (40, True)] :: (time \<times> bool) list"
  have "expected_events example_cfg (map snd ?obs)
      = [NoEvent, AlertUnhealthy, NoEvent, RecoveryHealthy]"
    "expected_state example_cfg (map snd ?obs) = Healthy"
    "trailing_failures (map snd ?obs) = 0" "last_success ?obs = 40"
    by (simp_all add: expected_events_def expected_state_def trailing_failures_def last_success_def
        example_cfg_def upt_rec)
  with Observe_refines_closed_form [of example_cfg ?obs] show ?thesis
    by (auto simp: example_cfg_def)
qed

text \<open>
  C10. Fire once: whatever the trigger and the results, a machine that satisfies its
  invariant never panics, alerts and recoveries strictly alternate along the run, and the
  number of alerts minus the number of recoveries is the change of its health.
\<close>

theorem Observe_events_alternate:
  assumes "sm_inv m"
  shows "\<exists>es m'. run_events (\<lambda>m (t, b). Observe m t b) m obs = Some (es, m')
    \<and> length es = length obs \<and> alternates (SM_State m) es (SM_State m')
    \<and> int (count_list es AlertUnhealthy) - int (count_list es RecoveryHealthy)
      = (if SM_State m' = Unhealthy then 1 else 0) - (if SM_State m = Unhealthy then 1 else 0)"
  using sm.run_ok [OF assms, of obs] alternates_counts by blast

theorem Observe_events_alternate_witness:
  "\<exists>m es m'. New 3 = Some m \<and> sm_inv m
    \<and> run_events (\<lambda>m (t, b). Observe m t b) m [(1, False)] = Some (es, m')
    \<and> alternates (SM_State m) es (SM_State m')"
proof -
  obtain m where m: "New 3 = Some m" "sm_inv m"
    by (simp add: New_def NewWithConfig_def sm_inv_def)
  with Observe_events_alternate [OF m(2), of "[(1, False)]"] show ?thesis by blast
qed

text \<open>
  C11. Consecutive trigger: the \<open>i\<close>-th check raises the alert exactly when it completes a
  run of \<open>failure_threshold\<close> consecutive failures (at least 1), and signals recovery exactly
  when it is a success that ends a run of at least that many failures.
\<close>

theorem consecutive_alert_exactly_at_threshold:
  assumes "mc_Trigger cfg = TriggerConsecutive" and "mc_WindowSize cfg < 2 ^ 63"
    and "length obs < 2 ^ 63" and "i < length obs"
  defines "rs \<equiv> map snd obs" and "ft \<equiv> max 1 (mc_FailureThreshold cfg)"
  shows "\<exists>m0 es m. NewWithConfig cfg = Some m0
    \<and> run_events (\<lambda>m (t, b). Observe m t b) m0 obs = Some (es, m)
    \<and> (es ! i = AlertUnhealthy \<longleftrightarrow> int (trailing_failures (take (Suc i) rs)) = ft)
    \<and> (es ! i = RecoveryHealthy \<longleftrightarrow> rs ! i \<and> ft \<le> int (trailing_failures (take i rs)))"
proof -
  from NewWithConfig_rep [OF assms(2)] obtain m0 where m0: "NewWithConfig cfg = Some m0"
    "sm_rep cfg [] m0" by blast
  from Observe_run [OF m0(2) assms(3)] obtain m
    where m: "run_events (\<lambda>m (t, b). Observe m t b) m0 obs = Some (expected_events cfg rs, m)"
    unfolding rs_def by blast
  have tk: "take (Suc i) rs = take i rs @ [rs ! i]"
    using assms(4) by (simp add: rs_def take_Suc_conv_app_nth)
  have "i < length rs" using assms(4) by (simp add: rs_def)
  then have "(expected_events cfg rs ! i = AlertUnhealthy \<longleftrightarrow>
        int (trailing_failures (take (Suc i) rs)) = ft)
    \<and> (expected_events cfg rs ! i = RecoveryHealthy \<longleftrightarrow>
        rs ! i \<and> ft \<le> int (trailing_failures (take i rs)))"
    using assms(1) by (auto simp: nth_expected_events tk expected_state_def ft_def)
  with m0(1) m show ?thesis by blast
qed

theorem consecutive_alert_exactly_at_threshold_witness:
  "\<exists>m0 es m. NewWithConfig example_cfg = Some m0
    \<and> run_events (\<lambda>m (t, b). Observe m t b) m0 [(1, False), (2, False)] = Some (es, m)
    \<and> es ! 1 = AlertUnhealthy"
  using consecutive_alert_exactly_at_threshold [of example_cfg "[(1, False), (2, False)]" 1]
  by (auto simp: example_cfg_def trailing_failures_def)

text \<open>
  C12. Availability trigger: while the window warms up no check raises an event; from then on
  the \<open>i\<close>-th check raises the alert exactly when the availability of the last
  \<open>WindowSize\<close> results drops below \<open>MinAvailability\<close> with it, and signals recovery exactly
  when it stops being below.
\<close>

theorem availability_alert_exactly_on_crossing:
  assumes "mc_Trigger cfg = TriggerAvailability" and "0 < mc_WindowSize cfg" "mc_WindowSize cfg < 2 ^ 63"
    and "length obs < 2 ^ 63" and "i < length obs"
  defines "rs \<equiv> map snd obs" and "ws \<equiv> nat (mc_WindowSize cfg)"
  defines "low \<equiv> \<lambda>j. ws \<le> j \<and> fl_less (availability_of (lastn ws (take j rs))) (mc_MinAvailability cfg)"
  shows "\<exists>m0 es m. NewWithConfig cfg = Some m0
    \<and> run_events (\<lambda>m (t, b). Observe m t b) m0 obs = Some (es, m)
    \<and> (Suc i < ws \<longrightarrow> es ! i = NoEvent)
    \<and> (es ! i = AlertUnhealthy \<longleftrightarrow> low (Suc i) \<and> \<not> low i)
    \<and> (es ! i = RecoveryHealthy \<longleftrightarrow> low i \<and> \<not> low (Suc i))"
proof -
  from NewWithConfig_rep [OF assms(3)] obtain m0 where m0: "NewWithConfig cfg = Some m0"
    "sm_rep cfg [] m0" by blast
  from Observe_run [OF m0(2) assms(4)] obtain m
    where m: "run_events (\<lambda>m (t, b). Observe m t b) m0 obs = Some (expected_events cfg rs, m)"
    unfolding rs_def by blast
  have i: "i < length rs" using assms(5) by (simp add: rs_def)
  have ex: "expected_state cfg (take j rs) = (if low j then Unhealthy else Healthy)" if "j \<le> length rs" for j
    using that assms(1,2) by (simp add: expected_state_def low_def ws_def)
  have "expected_events cfg rs ! i = event_of (if low i then Unhealthy else Healthy)
      (if low (Suc i) then Unhealthy else Healthy)"
    using i by (simp add: nth_expected_events ex)
  moreover have "\<not> low i \<and> \<not> low (Suc i)" if "Suc i < ws" using that by (simp add: low_def)
  ultimately have "(Suc i < ws \<longrightarrow> expected_events cfg rs ! i = NoEvent)
    \<and> (expected_events cfg rs ! i = AlertUnhealthy \<longleftrightarrow> low (Suc i) \<and> \<not> low i)
    \<and> (expected_events cfg rs ! i = RecoveryHealthy \<longleftrightarrow> low i \<and> \<not> low (Suc i))"
    by auto
  with m0(1) m show ?thesis by blast
qed

definition example_avail_cfg :: MonConfig where
  "example_avail_cfg = \<lparr>mc_FailureThreshold = 1, mc_WindowSize = 4, mc_Trigger = TriggerAvailability,
     mc_MinAvailability = Fin 75\<rparr>"

theorem availability_alert_exactly_on_crossing_witness:
  "\<exists>m0 es m. NewWithConfig example_avail_cfg = Some m0
    \<and> run_events (\<lambda>m (t, b). Observe m t b) m0 [(1, False), (2, False), (3, False), (4, True)] = Some (es, m)
    \<and> es ! 2 = NoEvent"
  using availability_alert_exactly_on_crossing
    [of example_avail_cfg "[(1, False), (2, False), (3, False), (4, True)]" 2]
  by (auto simp: example_avail_cfg_def)

text \<open>
  C26. The percentage threshold is exact for windows of at most 49 results (the default is
  20): with an integer \<open>MinAvailability\<close> of \<open>p\<close> percent and a full window, the machine is
  UNHEALTHY exactly when fewer than \<open>p\<close> percent of the last \<open>WindowSize\<close> results
  succeeded, in exact arithmetic; floating-point rounding never flips the decision.
\<close>

theorem availability_integer_threshold_exact:
  assumes "mc_Trigger cfg = TriggerAvailability" and "1 \<le> mc_WindowSize cfg" "mc_WindowSize cfg \<le> 49"
    and "mc_MinAvailability cfg = Fin (of_int p)" "1 \<le> p" "p \<le> 100"
    and "mc_WindowSize cfg \<le> int (length obs)" "length obs < 2 ^ 63"
  shows "\<exists>m0 es m. NewWithConfig cfg = Some m0
    \<and> run_events (\<lambda>m (t, b). Observe m t b) m0 obs = Some (es, m)
    \<and> (SM_State m = Unhealthy \<longleftrightarrow>
        100 * int (successes (lastn (nat (mc_WindowSize cfg)) (map snd obs))) < p * mc_WindowSize cfg)"
proof -
  let ?l = "lastn (nat (mc_WindowSize cfg)) (map snd obs)"
  from NewWithConfig_rep [of cfg] assms(3) obtain m0 where m0: "NewWithConfig cfg = Some m0"
    "sm_rep cfg [] m0" by auto
  from Observe_run [OF m0(2) assms(8)] obtain m
    where m: "run_events (\<lambda>m (t, b). Observe m t b) m0 obs = Some (expected_events cfg (map snd obs), m)"
      "sm_rep cfg obs m" by blast
  have len: "int (length ?l) = mc_WindowSize cfg" using assms(2,7) by auto
  have ne: "?l \<noteq> []"
  proof
    assume "?l = []"
    with len have "mc_WindowSize cfg = 0" by simp
    with assms(2) show False by simp
  qed
  have "fl_less (pct (int (successes ?l)) (mc_WindowSize cfg)) (Fin (of_int p))
      \<longleftrightarrow> 100 * int (successes ?l) < p * mc_WindowSize cfg"
    using assms(2-6) len successes_le [of ?l] by (intro pct_integer_threshold) simp_all
  then have "m_state m = Unhealthy \<longleftrightarrow> 100 * int (successes ?l) < p * mc_WindowSize cfg"
    using m(2) assms(1,2,4,7) ne len
    by (auto simp: sm_rep_def expected_state_def availability_of_def nat_le_iff)
  with m0(1) m(1) show ?thesis unfolding SM_State_def by blast
qed

theorem availability_integer_threshold_exact_witness:
  "\<exists>m0 es m. NewWithConfig example_avail_cfg = Some m0
    \<and> run_events (\<lambda>m (t, b). Observe m t b) m0 [(1, False), (2, True), (3, True), (4, True)] = Some (es, m)
    \<and> SM_State m = Healthy"
proof -
  let ?obs = "[(1, False), (2, True), (3, True), (4, True)] :: (time \<times> bool) list"
  from availability_integer_threshold_exact [of example_avail_cfg 75 ?obs] obtain m0 es m
    where m: "NewWithConfig example_avail_cfg = Some m0"
      "run_events (\<lambda>m (t, b). Observe m t b) m0 ?obs = Some (es, m)"
      "SM_State m = Unhealthy \<longleftrightarrow> 100 * int (successes (lastn 4 (map snd ?obs))) < 75 * 4"
    by (auto simp: example_avail_cfg_def)
  have "SM_State m = Healthy" using m(3) by (cases "SM_State m") (simp_all add: lastn_def)
  with m(1,2) show ?thesis by blast
qed

text \<open>
  C27. Beyond that size the threshold is not exact. With \<open>window_size\<close> 100 and
  \<open>min_availability\<close> 29, a window with exactly 29 successes is at the threshold, not below
  it, yet \<open>29 / 100 * 100\<close> evaluates to a number below 29 and the machine turns UNHEALTHY.
\<close>

theorem availability_threshold_rounding_alarm:
  defines "cfg \<equiv> \<lparr>mc_FailureThreshold = 1, mc_WindowSize = 100, mc_Trigger = TriggerAvailability,
     mc_MinAvailability = Fin 29\<rparr>"
    and "obs \<equiv> replicate 71 (1, False) @ replicate 29 (1, True)"
  shows "\<exists>m0 es m. NewWithConfig cfg = Some m0
    \<and> run_events (\<lambda>m (t, b). Observe m t b) m0 obs = Some (es, m)
    \<and> last es = AlertUnhealthy \<and> SM_State m = Unhealthy
    \<and> 100 * successes (lastn 100 (map snd obs)) = 29 * 100"
proof -
  have l: "lastn 100 (map snd obs) = map snd obs" "length obs = 100" "successes (map snd obs) = 29"
    by (simp_all add: obs_def lastn_def successes_def)
  from NewWithConfig_rep [of cfg] obtain m0 where m0: "NewWithConfig cfg = Some m0" "sm_rep cfg [] m0"
    by (auto simp: cfg_def)
  from Observe_run [OF m0(2), of obs] obtain m
    where m: "run_events (\<lambda>m (t, b). Observe m t b) m0 obs = Some (expected_events cfg (map snd obs), m)"
      "sm_rep cfg obs m" using l(2) by auto
  have ne: "map snd obs \<noteq> []" using l(2) by auto
  have st: "expected_state cfg (map snd obs) = Unhealthy"
    using pct_29_100 l ne by (simp add: expected_state_def cfg_def availability_of_def)
  have "expected_state cfg (take 99 (map snd obs)) = Healthy"
    using l(2) by (simp add: expected_state_def cfg_def)
  moreover have "last (expected_events cfg (map snd obs)) = expected_events cfg (map snd obs) ! 99"
    using l(2) by (subst last_conv_nth) (auto simp flip: length_0_conv)
  ultimately have "last (expected_events cfg (map snd obs)) = AlertUnhealthy"
    using st l(2) by (simp add: nth_expected_events)
  with m0(1) m st l show ?thesis by (auto simp: SM_State_def sm_rep_def)
qed

end
