(* ===== verification/History.thy ===== *)
theory History
  imports Float64
begin

text \<open>
  \<open>internal/monitor/history.go\<close>: the generic ring buffer that retains the most recent
  samples of a unit, and the two sample types. The ring is shown to be a bounded log whose
  \<open>slice\<close> method returns the retained elements oldest first.
\<close>

section \<open>Samples and rings\<close>

definition historyCap :: goint where
  "historyCap = 100"

record CheckSample =
  cs_Time :: time
  cs_Success :: bool

record SpeedSample =
  ss_Time :: time
  ss_Mbps :: float64

record 'a ring =
  r_buf :: "'a list"
  r_head :: goint
  r_len :: goint

text \<open>The type parameter's zero value, which fills a fresh buffer, is an argument.\<close>

definition newRing :: "'a \<Rightarrow> goint \<Rightarrow> 'a ring option" where
  "newRing zero capacity = do {
     buf \<leftarrow> go_make zero capacity;
     Some \<lparr>r_buf = buf, r_head = 0, r_len = 0\<rparr>
   }"

definition ring_add :: "'a ring \<Rightarrow> 'a \<Rightarrow> 'a ring option" where
  "ring_add r v = do {
     buf \<leftarrow> go_store (r_buf r) (r_head r) v;
     let r1 = r\<lparr>r_buf := buf\<rparr>;
     head \<leftarrow> go_rem (go_add (r_head r1) 1) (go_len (r_buf r1));
     let r2 = r1\<lparr>r_head := head\<rparr>;
     Some (if r_len r2 < go_len (r_buf r2) then r2\<lparr>r_len := go_add (r_len r2) 1\<rparr> else r2)
   }"

definition ring_slice :: "'a ring \<Rightarrow> 'a list option" where
  "ring_slice r = do {
     let n = go_len (r_buf r);
     start \<leftarrow> go_rem (go_add (go_sub (r_head r) (r_len r)) n) n;
     go_range (\<lambda>out i. do {
         j \<leftarrow> go_rem (go_add start (int i)) n;
         v \<leftarrow> go_index (r_buf r) j;
         Some (out @ [v])
       }) [] [0..<nat (r_len r)]
   }"

record unitHistory =
  h_checks :: "CheckSample ring"
  h_speeds :: "SpeedSample ring"

definition zeroCheckSample :: CheckSample where
  "zeroCheckSample = \<lparr>cs_Time = 0, cs_Success = False\<rparr>"

definition zeroSpeedSample :: SpeedSample where
  "zeroSpeedSample = \<lparr>ss_Time = 0, ss_Mbps = Fin 0\<rparr>"

definition newUnitHistory :: "unitHistory option" where
  "newUnitHistory = do {
     checks \<leftarrow> newRing zeroCheckSample historyCap;
     speeds \<leftarrow> newRing zeroSpeedSample historyCap;
     Some \<lparr>h_checks = checks, h_speeds = speeds\<rparr>
   }"

section \<open>Contents and invariant\<close>

definition ring_list :: "'a ring \<Rightarrow> 'a list" where
  "ring_list r = circ (r_buf r) (nat (r_head r)) (nat (r_len r))"

definition ring_cap :: "'a ring \<Rightarrow> nat" where
  "ring_cap r = length (r_buf r)"

definition ring_inv :: "'a ring \<Rightarrow> bool" where
  "ring_inv r \<longleftrightarrow> 0 < ring_cap r \<and> ring_cap r < 2 ^ 62 \<and>
     0 \<le> r_head r \<and> r_head r < int (ring_cap r) \<and> 0 \<le> r_len r \<and> r_len r \<le> int (ring_cap r)"

lemma newRing_ok:
  assumes "0 < c" and "c < 2 ^ 62"
  shows "\<exists>r. newRing z c = Some r \<and> ring_inv r \<and> ring_list r = [] \<and> ring_cap r = nat c"
proof -
  have "nat c < 2 ^ 62" using assms by (simp add: nat_less_iff)
  with assms show ?thesis
    by (simp add: newRing_def go_make_def ring_inv_def ring_list_def circ_def ring_cap_def)
qed

lemma ring_add_eval:
  assumes "ring_inv r"
  shows "ring_add r v = Some \<lparr>r_buf = (r_buf r)[nat (r_head r) := v],
      r_head = (r_head r + 1) mod int (ring_cap r), r_len = min (int (ring_cap r)) (r_len r + 1)\<rparr>"
proof -
  from assms have r: "0 < ring_cap r" "ring_cap r < 2 ^ 62" "0 \<le> r_head r"
    "r_head r < int (ring_cap r)" "0 \<le> r_len r" "r_len r \<le> int (ring_cap r)"
    by (simp_all add: ring_inv_def)
  then have c: "int (ring_cap r) < 2 ^ 62" by simp
  have "go_rem (go_add (r_head r) 1) (int (ring_cap r)) = Some ((r_head r + 1) mod int (ring_cap r))"
    using r c by (simp add: go_simps in_int64_def)
  moreover have "go_add (r_len r) 1 = r_len r + 1"
    using r c by (simp add: go_simps in_int64_def)
  moreover have "go_store (r_buf r) (r_head r) v = Some ((r_buf r)[nat (r_head r) := v])"
    using r by (simp add: go_store_in ring_cap_def)
  ultimately show ?thesis using r
    by (simp add: ring_add_def go_len_def ring_cap_def Let_def)
qed

lemma ring_add_ok:
  assumes "ring_inv r"
  shows "\<exists>r'. ring_add r v = Some r' \<and> ring_inv r' \<and> ring_cap r' = ring_cap r
    \<and> ring_list r' = lastn (ring_cap r) (ring_list r @ [v])"
proof -
  from assms have r: "0 < ring_cap r" "0 \<le> r_head r"
    "r_head r < int (ring_cap r)" "0 \<le> r_len r" "r_len r \<le> int (ring_cap r)"
    by (simp_all add: ring_inv_def)
  have "nat ((r_head r + 1) mod int (ring_cap r)) = (nat (r_head r) + 1) mod ring_cap r"
    using r by (simp add: nat_mod_distrib nat_add_distrib)
  moreover have "nat (min (int (ring_cap r)) (r_len r + 1)) = min (ring_cap r) (Suc (nat (r_len r)))"
    using r by linarith
  ultimately show ?thesis
    using circ_write [of "nat (r_head r)" "r_buf r" "nat (r_len r)" v] r assms
    by (simp add: ring_add_eval ring_inv_def ring_list_def ring_cap_def)
qed

interpretation hist: bounded_log ring_add ring_list ring_cap ring_inv
proof unfold_locales
  show "length (ring_list r) \<le> ring_cap r" if "ring_inv r" for r :: "'a ring"
    using that by (auto simp: ring_inv_def ring_list_def)
qed (rule ring_add_ok)

lemma go_range_collect:
  "(\<And>i. i \<in> set js \<Longrightarrow> f i = Some (g i)) \<Longrightarrow>
    go_range (\<lambda>out i. do { v \<leftarrow> f i; Some (out @ [v]) }) acc js = Some (acc @ map g js)"
  by (induction js arbitrary: acc) simp_all

lemma ring_slice_eq:
  assumes "ring_inv r"
  shows "ring_slice r = Some (ring_list r)"
proof -
  let ?n = "int (ring_cap r)"
  from assms have r: "0 < ?n" "?n < 2 ^ 62" "0 \<le> r_head r" "r_head r < ?n" "0 \<le> r_len r" "r_len r \<le> ?n"
    by (simp_all add: ring_inv_def)
  define st where "st = (r_head r - r_len r + ?n) mod ?n"
  have st: "go_rem (go_add (go_sub (r_head r) (r_len r)) ?n) ?n = Some st" "0 \<le> st" "st < ?n"
    using r by (simp_all add: st_def go_simps in_int64_def)
  have idx: "nat ((st + int i) mod ?n)
      = (nat (r_head r) + ring_cap r - nat (r_len r) + i) mod ring_cap r" if "i < nat (r_len r)" for i
  proof -
    have "int ((nat (r_head r) + ring_cap r - nat (r_len r) + i) mod ring_cap r)
        = (r_head r - r_len r + ?n + int i) mod ?n"
      using r that by (simp add: zmod_int of_nat_diff algebra_simps)
    also have "\<dots> = (st + int i) mod ?n" by (simp only: st_def mod_add_left_eq)
    finally show ?thesis by simp
  qed
  have body: "Option.bind (go_rem (go_add st (int i)) ?n) (go_index (r_buf r))
      = Some (r_buf r ! ((nat (r_head r) + ring_cap r - nat (r_len r) + i) mod ring_cap r))"
    if "i \<in> set [0..<nat (r_len r)]" for i
  proof -
    have "go_rem (go_add st (int i)) ?n = Some ((st + int i) mod ?n)"
      using r st(2,3) that by (simp add: go_simps in_int64_def)
    moreover have "go_index (r_buf r) ((st + int i) mod ?n) = Some (r_buf r ! nat ((st + int i) mod ?n))"
      using r(1) by (intro go_index_in) (simp_all add: ring_cap_def)
    ultimately show ?thesis using idx that by simp
  qed
  let ?at = "\<lambda>i. r_buf r ! ((nat (r_head r) + ring_cap r - nat (r_len r) + i) mod ring_cap r)"
  show ?thesis
    using go_range_collect [where g = ?at and acc = "[]" and js = "[0..<nat (r_len r)]", OF body] st(1)
    by (simp add: ring_slice_def go_len_def ring_cap_def [symmetric] ring_list_def circ_def Let_def)
qed

text \<open>
  The history of a unit never panics, is bounded by the capacity and evicts the oldest
  sample first: after any sequence of additions to a fresh ring, \<open>slice\<close> returns exactly
  the most recent \<open>capacity\<close> samples, oldest first.
\<close>

lemma ring_slice_last_samples:
  assumes "0 < capacity" and "capacity < 2 ^ 62"
  shows "\<exists>r0 r. newRing z capacity = Some r0 \<and> go_range ring_add r0 vs = Some r
    \<and> ring_slice r = Some (lastn (nat capacity) vs)"
proof -
  from newRing_ok [OF assms, of z] obtain r0 where r0: "newRing z capacity = Some r0" "ring_inv r0"
    "ring_list r0 = []" "ring_cap r0 = nat capacity" by blast
  from hist.adds_ok [OF r0(2), of vs] obtain r where r: "go_range ring_add r0 vs = Some r"
    "ring_inv r" "ring_list r = lastn (ring_cap r0) (ring_list r0 @ vs)" by blast
  have "ring_slice r = Some (lastn (nat capacity) vs)"
    unfolding ring_slice_eq [OF r(2)] r(3) r0(3,4) by simp
  with r0(1) r(1) show ?thesis by blast
qed

end
