(* ===== verification/Registry.thy ===== *)
theory Registry
  imports StateMachine History Slog
begin

text \<open>
  \<open>internal/monitor/registry.go\<close>: the fleet-wide status registry shared by all roles. Every
  method holds the registry's mutex for its whole body, so a concurrent execution is a
  sequence of the operations below, in some order. A nil \<open>*Registry\<close> or \<open>*Handle\<close> is
  \<^term>\<open>None\<close>; the registry a handle points to is passed explicitly. The logging methods
  return the log lines they emit.
\<close>

section \<open>Statuses, summaries and the registry\<close>

record UnitStatus =
  us_Name :: string
  us_State :: State
  us_HasWindow :: bool
  us_Availability :: float64
  us_Consecutive :: goint
  us_LastSuccess :: time

record Registry =
  reg_order :: "string list"
  reg_units :: "string \<rightharpoonup> UnitStatus"
  reg_history :: "string \<rightharpoonup> unitHistory"

record Handle =
  hd_name :: string

definition NewRegistry :: Registry where
  "NewRegistry = \<lparr>reg_order = [], reg_units = Map.empty, reg_history = Map.empty\<rparr>"

definition zeroUnitStatus :: UnitStatus where
  "zeroUnitStatus = \<lparr>us_Name = '''', us_State = Healthy, us_HasWindow = False,
     us_Availability = Fin 0, us_Consecutive = 0, us_LastSuccess = 0\<rparr>"

definition Register :: "Registry option \<Rightarrow> string \<Rightarrow> (Handle option \<times> Registry option) option" where
  "Register r name = (case r of None \<Rightarrow> Some (None, None) | Some r \<Rightarrow> do {
     r' \<leftarrow> (case reg_units r name of
             Some _ \<Rightarrow> Some r
           | None \<Rightarrow> do {
               h \<leftarrow> newUnitHistory;
               Some (r\<lparr>reg_order := reg_order r @ [name],
                       reg_units := (reg_units r)(name \<mapsto> zeroUnitStatus\<lparr>us_Name := name, us_State := Healthy\<rparr>),
                       reg_history := (reg_history r)(name \<mapsto> h)\<rparr>)
             });
     Some (Some \<lparr>hd_name = name\<rparr>, Some r')
   })"

definition Registry_Len :: "Registry option \<Rightarrow> goint" where
  "Registry_Len r = (case r of None \<Rightarrow> 0 | Some r \<Rightarrow> go_len (reg_order r))"

definition recordCheck :: "Registry \<Rightarrow> string \<Rightarrow> time \<Rightarrow> bool \<Rightarrow> Registry option" where
  "recordCheck r name t success =
     (case reg_history r name of
        None \<Rightarrow> Some r
      | Some h \<Rightarrow> do {
          checks \<leftarrow> ring_add (h_checks h) \<lparr>cs_Time = t, cs_Success = success\<rparr>;
          Some (r\<lparr>reg_history := (reg_history r)(name \<mapsto> h\<lparr>h_checks := checks\<rparr>)\<rparr>)
        })"

definition recordSpeed :: "Registry \<Rightarrow> string \<Rightarrow> time \<Rightarrow> float64 \<Rightarrow> Registry option" where
  "recordSpeed r name t mbps =
     (case reg_history r name of
        None \<Rightarrow> Some r
      | Some h \<Rightarrow> do {
          speeds \<leftarrow> ring_add (h_speeds h) \<lparr>ss_Time = t, ss_Mbps = mbps\<rparr>;
          Some (r\<lparr>reg_history := (reg_history r)(name \<mapsto> h\<lparr>h_speeds := speeds\<rparr>)\<rparr>)
        })"

definition Registry_set :: "Registry \<Rightarrow> UnitStatus \<Rightarrow> Registry" where
  "Registry_set r status =
     (case reg_units r (us_Name status) of
        None \<Rightarrow> r
      | Some _ \<Rightarrow> r\<lparr>reg_units := (reg_units r)(us_Name status \<mapsto> status)\<rparr>)"

definition Snapshot :: "Registry option \<Rightarrow> UnitStatus list" where
  "Snapshot r = (case r of None \<Rightarrow> [] | Some r \<Rightarrow>
     map (\<lambda>name. case reg_units r name of Some u \<Rightarrow> u | None \<Rightarrow> zeroUnitStatus) (reg_order r))"

definition last_success_attr :: "time \<Rightarrow> attr" where
  "last_success_attr t = (if IsZero t then Attr_String ''last_success'' ''never''
     else Attr_Time ''last_success'' t)"

definition snapshot_group :: "UnitStatus \<Rightarrow> attr" where
  "snapshot_group u = Attr_Group (us_Name u)
     ([Attr_String ''state'' (State_String (us_State u)),
       Attr_Int ''consecutive_failures'' (us_Consecutive u)]
      @ (if us_HasWindow u then [Attr_Float64 ''availability_pct'' (us_Availability u)] else [])
      @ [last_success_attr (us_LastSuccess u)])"

definition LogSnapshot :: "Registry option \<Rightarrow> bool \<Rightarrow> LogLine list" where
  "LogSnapshot r has_logger =
     (if r = None \<or> \<not> has_logger then []
      else let snap = Snapshot r in
        [log_line LevelInfo ''status snapshot''
           (Attr_Int ''units'' (go_len snap) # map snapshot_group snap)])"

record SpeedStats =
  st_Count :: goint
  st_Min :: float64
  st_Avg :: float64
  st_Max :: float64
  st_Latest :: float64

record UnitSummary =
  sum_Status :: UnitStatus
  sum_HistoryAvailability :: float64
  sum_Speed :: "SpeedStats option"
  sum_Checks :: "CheckSample list"
  sum_Speeds :: "SpeedSample list"

record FleetSummary =
  fs_GeneratedAt :: time
  fs_Units :: "UnitSummary list"

definition historyAvailability :: "CheckSample list \<Rightarrow> float64" where
  "historyAvailability samples =
     (if samples = [] then Fin 100
      else let ok = fold (\<lambda>s ok. if cs_Success s then go_add ok 1 else ok) samples 0
        in fl_mul (fl_div (fl_of_int ok) (fl_of_int (go_len samples))) (Fin 100))"

definition speedStats_step :: "SpeedSample \<Rightarrow> float64 \<times> SpeedStats \<Rightarrow> float64 \<times> SpeedStats" where
  "speedStats_step s = (\<lambda>(sum, st).
     let sum = fl_add sum (ss_Mbps s);
         st = (if fl_less (ss_Mbps s) (st_Min st) then st\<lparr>st_Min := ss_Mbps s\<rparr> else st);
         st = (if fl_less (st_Max st) (ss_Mbps s) then st\<lparr>st_Max := ss_Mbps s\<rparr> else st)
     in (sum, st))"

definition speedStats :: "SpeedSample list \<Rightarrow> SpeedStats option" where
  "speedStats samples =
     (if samples = [] then None
      else
        let st = \<lparr>st_Count = go_len samples, st_Min = ss_Mbps (hd samples), st_Avg = Fin 0,
                  st_Max = ss_Mbps (hd samples), st_Latest = ss_Mbps (last samples)\<rparr>;
            (sum, st) = fold speedStats_step samples (Fin 0, st)
        in Some (st\<lparr>st_Avg := fl_div sum (fl_of_int (go_len samples))\<rparr>))"

definition Summary :: "Registry option \<Rightarrow> time \<Rightarrow> FleetSummary option" where
  "Summary r now = (case r of
     None \<Rightarrow> Some \<lparr>fs_GeneratedAt = now, fs_Units = []\<rparr>
   | Some r \<Rightarrow>
       go_range (\<lambda>fs name. do {
           h \<leftarrow> reg_history r name;
           checks \<leftarrow> ring_slice (h_checks h);
           speeds \<leftarrow> ring_slice (h_speeds h);
           Some (fs\<lparr>fs_Units := fs_Units fs @
             [\<lparr>sum_Status = (case reg_units r name of Some u \<Rightarrow> u | None \<Rightarrow> zeroUnitStatus),
               sum_HistoryAvailability = historyAvailability checks,
               sum_Speed = speedStats speeds, sum_Checks = checks, sum_Speeds = speeds\<rparr>]\<rparr>)
         }) \<lparr>fs_GeneratedAt = now, fs_Units = []\<rparr> (reg_order r))"

definition summary_group :: "UnitSummary \<Rightarrow> attr" where
  "summary_group u = Attr_Group (us_Name (sum_Status u))
     ([Attr_String ''state'' (State_String (us_State (sum_Status u))),
       Attr_Int ''consecutive_failures'' (us_Consecutive (sum_Status u)),
       Attr_Float64 ''history_availability_pct'' (sum_HistoryAvailability u),
       Attr_Int ''checks_recorded'' (go_len (sum_Checks u))]
      @ (if us_HasWindow (sum_Status u)
         then [Attr_Float64 ''availability_pct'' (us_Availability (sum_Status u))] else [])
      @ (case sum_Speed u of None \<Rightarrow> [] | Some sp \<Rightarrow>
          [Attr_Int ''speed_samples'' (st_Count sp), Attr_Float64 ''speed_min_mbps'' (st_Min sp),
           Attr_Float64 ''speed_avg_mbps'' (st_Avg sp), Attr_Float64 ''speed_max_mbps'' (st_Max sp),
           Attr_Float64 ''speed_latest_mbps'' (st_Latest sp)])
      @ [last_success_attr (us_LastSuccess (sum_Status u))])"

definition LogSummary :: "Registry option \<Rightarrow> bool \<Rightarrow> time \<Rightarrow> LogLine list option" where
  "LogSummary r has_logger now =
     (if r = None \<or> \<not> has_logger then Some []
      else do {
        s \<leftarrow> Summary r now;
        Some [log_line LevelInfo ''monitoring summary''
          (Attr_Int ''units'' (go_len (fs_Units s)) # map summary_group (fs_Units s))]
      })"

definition Handle_Update :: "Handle option \<Rightarrow> Registry option \<Rightarrow> StateMachine \<Rightarrow> Registry option" where
  "Handle_Update h r sm = (case (h, r) of
     (Some h, Some r) \<Rightarrow> Some (Registry_set r
       \<lparr>us_Name = hd_name h, us_State = SM_State sm, us_HasWindow = HasWindow sm,
        us_Availability = Availability sm, us_Consecutive = ConsecutiveFailures sm,
        us_LastSuccess = LastSuccess sm\<rparr>)
   | _ \<Rightarrow> r)"

definition Handle_LogSnapshot :: "Handle option \<Rightarrow> Registry option \<Rightarrow> bool \<Rightarrow> LogLine list" where
  "Handle_LogSnapshot h r has_logger = (if h = None \<or> r = None then [] else LogSnapshot r has_logger)"

definition RecordCheck ::
  "Handle option \<Rightarrow> Registry option \<Rightarrow> time \<Rightarrow> bool \<Rightarrow> Registry option option" where
  "RecordCheck h r t success = (case (h, r) of
     (Some h, Some r) \<Rightarrow> map_option Some (recordCheck r (hd_name h) t success)
   | _ \<Rightarrow> Some r)"

definition RecordSpeed ::
  "Handle option \<Rightarrow> Registry option \<Rightarrow> time \<Rightarrow> float64 \<Rightarrow> Registry option option" where
  "RecordSpeed h r t mbps = (case (h, r) of
     (Some h, Some r) \<Rightarrow> map_option Some (recordSpeed r (hd_name h) t mbps)
   | _ \<Rightarrow> Some r)"

section \<open>Operations as steps\<close>

text \<open>
  The state-changing operations other components perform through their handles. An
  interleaving of the role goroutines is a list of these.
\<close>

datatype RegOp =
    OpRegister string
  | OpSet UnitStatus
  | OpCheck string time bool
  | OpSpeed string time float64

definition reg_step :: "Registry \<Rightarrow> RegOp \<Rightarrow> Registry option" where
  "reg_step r op = (case op of
     OpRegister name \<Rightarrow> Option.bind (Register (Some r) name) snd
   | OpSet status \<Rightarrow> Some (Registry_set r status)
   | OpCheck name t success \<Rightarrow> recordCheck r name t success
   | OpSpeed name t mbps \<Rightarrow> recordSpeed r name t mbps)"

definition hist_inv :: "unitHistory \<Rightarrow> bool" where
  "hist_inv h \<longleftrightarrow> ring_inv (h_checks h) \<and> ring_cap (h_checks h) = nat historyCap
     \<and> ring_inv (h_speeds h) \<and> ring_cap (h_speeds h) = nat historyCap"

definition reg_inv :: "Registry \<Rightarrow> bool" where
  "reg_inv r \<longleftrightarrow> distinct (reg_order r)
     \<and> dom (reg_units r) = set (reg_order r) \<and> dom (reg_history r) = set (reg_order r)
     \<and> (\<forall>n u. reg_units r n = Some u \<longrightarrow> us_Name u = n)
     \<and> (\<forall>n h. reg_history r n = Some h \<longrightarrow> hist_inv h)"

text \<open>A registry pointer: nil, or a registry in good order.\<close>

definition registry_ok :: "Registry option \<Rightarrow> bool" where
  "registry_ok reg \<longleftrightarrow> (case reg of None \<Rightarrow> True | Some r \<Rightarrow> reg_inv r)"

definition unit_checks :: "Registry \<Rightarrow> string \<Rightarrow> CheckSample list" where
  "unit_checks r n = (case reg_history r n of None \<Rightarrow> [] | Some h \<Rightarrow> ring_list (h_checks h))"

definition unit_speeds :: "Registry \<Rightarrow> string \<Rightarrow> SpeedSample list" where
  "unit_speeds r n = (case reg_history r n of None \<Rightarrow> [] | Some h \<Rightarrow> ring_list (h_speeds h))"

definition unit_names :: "Registry \<Rightarrow> string set" where
  "unit_names r = set (reg_order r)"

lemma reg_invD:
  assumes "reg_inv r"
  shows "distinct (reg_order r)" "dom (reg_units r) = unit_names r" "dom (reg_history r) = unit_names r"
    "reg_units r n = Some u \<Longrightarrow> us_Name u = n" "reg_history r n = Some h \<Longrightarrow> hist_inv h"
    "n \<in> unit_names r \<Longrightarrow> \<exists>u. reg_units r n = Some u" "n \<in> unit_names r \<Longrightarrow> \<exists>h. reg_history r n = Some h"
  using assms by (auto simp: reg_inv_def unit_names_def)

lemma NewRegistry_inv: "reg_inv NewRegistry"
  by (simp add: reg_inv_def NewRegistry_def)

lemma newUnitHistory_ok:
  "\<exists>h. newUnitHistory = Some h \<and> hist_inv h \<and> ring_list (h_checks h) = [] \<and> ring_list (h_speeds h) = []"
  using newRing_ok [of historyCap zeroCheckSample] newRing_ok [of historyCap zeroSpeedSample]
  by (auto simp: newUnitHistory_def hist_inv_def historyCap_def)

lemma Register_new:
  assumes "reg_inv r" and "n \<notin> unit_names r"
  shows "\<exists>r'. Register (Some r) n = Some (Some \<lparr>hd_name = n\<rparr>, Some r') \<and> reg_inv r'
    \<and> reg_order r' = reg_order r @ [n]
    \<and> reg_units r' = (reg_units r)(n \<mapsto> zeroUnitStatus\<lparr>us_Name := n\<rparr>)
    \<and> unit_checks r' = (unit_checks r)(n := []) \<and> unit_speeds r' = (unit_speeds r)(n := [])"
proof -
  have none: "reg_units r n = None" using assms reg_invD(2) by (metis domIff)
  obtain h where h: "newUnitHistory = Some h" "hist_inv h" "ring_list (h_checks h) = []"
    "ring_list (h_speeds h) = []" using newUnitHistory_ok by blast
  define r' where "r' = r\<lparr>reg_order := reg_order r @ [n],
    reg_units := (reg_units r)(n \<mapsto> zeroUnitStatus\<lparr>us_Name := n\<rparr>), reg_history := (reg_history r)(n \<mapsto> h)\<rparr>"
  have "Register (Some r) n = Some (Some \<lparr>hd_name = n\<rparr>, Some r')"
    by (simp add: Register_def none h(1) r'_def zeroUnitStatus_def)
  moreover have "reg_inv r'"
    using assms h(2) by (auto simp: r'_def reg_inv_def unit_names_def zeroUnitStatus_def)
  moreover have "unit_checks r' = (unit_checks r)(n := [])" "unit_speeds r' = (unit_speeds r)(n := [])"
    using h(3,4) by (auto simp: r'_def unit_checks_def unit_speeds_def)
  moreover have "reg_order r' = reg_order r @ [n]"
    "reg_units r' = (reg_units r)(n \<mapsto> zeroUnitStatus\<lparr>us_Name := n\<rparr>)" by (simp_all add: r'_def)
  ultimately show ?thesis by blast
qed

lemma Register_again:
  assumes "reg_inv r" and "n \<in> unit_names r"
  shows "Register (Some r) n = Some (Some \<lparr>hd_name = n\<rparr>, Some r)"
  using reg_invD(6) [OF assms] by (auto simp: Register_def)

lemma recordCheck_ok:
  assumes "reg_inv r"
  shows "\<exists>r'. recordCheck r n t b = Some r' \<and> reg_inv r' \<and> reg_order r' = reg_order r
    \<and> reg_units r' = reg_units r \<and> unit_speeds r' = unit_speeds r
    \<and> unit_checks r' = (if n \<in> unit_names r
         then (unit_checks r)(n := lastn (nat historyCap) (unit_checks r n @ [\<lparr>cs_Time = t, cs_Success = b\<rparr>]))
         else unit_checks r)"
proof (cases "reg_history r n")
  case None
  then have "n \<notin> unit_names r" using reg_invD(7) [OF assms] by fastforce
  with None assms show ?thesis by (simp add: recordCheck_def)
next
  case (Some h)
  then have n: "n \<in> unit_names r" and h: "hist_inv h" using reg_invD(3,5) [OF assms] by auto
  from h ring_add_ok [of "h_checks h" "\<lparr>cs_Time = t, cs_Success = b\<rparr>"] obtain c
    where "ring_add (h_checks h) \<lparr>cs_Time = t, cs_Success = b\<rparr> = Some c" "ring_inv c"
      "ring_cap c = nat historyCap"
      "ring_list c = lastn (nat historyCap) (ring_list (h_checks h) @ [\<lparr>cs_Time = t, cs_Success = b\<rparr>])"
    by (auto simp: hist_inv_def)
  with Some n h assms show ?thesis
    by (auto simp: recordCheck_def reg_inv_def unit_checks_def unit_speeds_def hist_inv_def unit_names_def
        fun_eq_iff)
qed

lemma recordSpeed_ok:
  assumes "reg_inv r"
  shows "\<exists>r'. recordSpeed r n t v = Some r' \<and> reg_inv r' \<and> reg_order r' = reg_order r
    \<and> reg_units r' = reg_units r \<and> unit_checks r' = unit_checks r
    \<and> unit_speeds r' = (if n \<in> unit_names r
         then (unit_speeds r)(n := lastn (nat historyCap) (unit_speeds r n @ [\<lparr>ss_Time = t, ss_Mbps = v\<rparr>]))
         else unit_speeds r)"
proof (cases "reg_history r n")
  case None
  then have "n \<notin> unit_names r" using reg_invD(7) [OF assms] by fastforce
  with None assms show ?thesis by (simp add: recordSpeed_def)
next
  case (Some h)
  then have n: "n \<in> unit_names r" and h: "hist_inv h" using reg_invD(3,5) [OF assms] by auto
  from h ring_add_ok [of "h_speeds h" "\<lparr>ss_Time = t, ss_Mbps = v\<rparr>"] obtain c
    where "ring_add (h_speeds h) \<lparr>ss_Time = t, ss_Mbps = v\<rparr> = Some c" "ring_inv c"
      "ring_cap c = nat historyCap"
      "ring_list c = lastn (nat historyCap) (ring_list (h_speeds h) @ [\<lparr>ss_Time = t, ss_Mbps = v\<rparr>])"
    by (auto simp: hist_inv_def)
  with Some n h assms show ?thesis
    by (auto simp: recordSpeed_def reg_inv_def unit_checks_def unit_speeds_def hist_inv_def unit_names_def
        fun_eq_iff)
qed

lemma Registry_set_ok:
  assumes "reg_inv r"
  shows "reg_inv (Registry_set r u) \<and> reg_order (Registry_set r u) = reg_order r
    \<and> unit_checks (Registry_set r u) = unit_checks r \<and> unit_speeds (Registry_set r u) = unit_speeds r
    \<and> reg_units (Registry_set r u)
      = (if us_Name u \<in> unit_names r then (reg_units r)(us_Name u \<mapsto> u) else reg_units r)"
proof (cases "reg_units r (us_Name u)")
  case None
  then have "us_Name u \<notin> unit_names r" using reg_invD(6) [OF assms] by fastforce
  with None assms show ?thesis by (simp add: Registry_set_def)
next
  case (Some v)
  then have "us_Name u \<in> unit_names r" using reg_invD(2) [OF assms] by auto
  with Some assms show ?thesis
    by (auto simp: Registry_set_def reg_inv_def unit_checks_def unit_speeds_def unit_names_def)
qed

section \<open>Keyed histories\<close>

text \<open>
  The contract behind the per-unit histories: a step never panics, keeps the invariant and
  the known keys, and appends to the bounded log of at most one key.
\<close>

definition selected :: "('op \<Rightarrow> ('k \<times> 'x) option) \<Rightarrow> 'k \<Rightarrow> 'op list \<Rightarrow> 'x list" where
  "selected sel k ops = concat (map (\<lambda>op. case sel op of
     Some (k', x) \<Rightarrow> if k' = k then [x] else [] | None \<Rightarrow> []) ops)"

lemma selected_simps [simp]:
  "selected sel k [] = []"
  "selected sel k (op # ops) = (case sel op of
     Some (k', x) \<Rightarrow> if k' = k then [x] else [] | None \<Rightarrow> []) @ selected sel k ops"
  by (simp_all add: selected_def)

locale keyed_history =
  fixes step :: "'r \<Rightarrow> 'op \<Rightarrow> 'r option"
    and keys :: "'r \<Rightarrow> 'k set"
    and get :: "'r \<Rightarrow> 'k \<Rightarrow> 'x list"
    and sel :: "'op \<Rightarrow> ('k \<times> 'x) option"
    and cap :: nat
    and invar :: "'r \<Rightarrow> bool"
  assumes step_ok: "invar r \<Longrightarrow> \<exists>r'. step r op = Some r' \<and> invar r' \<and> keys r \<subseteq> keys r'
      \<and> (\<forall>k \<in> keys r. get r' k = lastn cap (get r k @ selected sel k [op]))"
    and get_bound: "invar r \<Longrightarrow> length (get r k) \<le> cap"
begin

lemma steps_ok:
  "invar r \<Longrightarrow> \<exists>r'. go_range step r ops = Some r' \<and> invar r' \<and> keys r \<subseteq> keys r'
    \<and> (\<forall>k \<in> keys r. get r' k = lastn cap (get r k @ selected sel k ops))"
proof (induction ops arbitrary: r)
  case Nil
  then show ?case by (simp add: lastn_short get_bound)
next
  case (Cons op ops)
  from step_ok [OF Cons.prems, of op] obtain t where t: "step r op = Some t" "invar t" "keys r \<subseteq> keys t"
    "\<forall>k \<in> keys r. get t k = lastn cap (get r k @ selected sel k [op])" by blast
  from Cons.IH [OF t(2)] obtain u where u: "go_range step t ops = Some u" "invar u" "keys t \<subseteq> keys u"
    "\<forall>k \<in> keys t. get u k = lastn cap (get t k @ selected sel k ops)" by blast
  have "get u k = lastn cap (get r k @ selected sel k (op # ops))" if "k \<in> keys r" for k
  proof -
    have "get u k = lastn cap (lastn cap (get r k @ selected sel k [op]) @ selected sel k ops)"
      using u(4) t(3,4) that by auto
    then show ?thesis by (simp only: lastn_lastn_append) simp
  qed
  with t u show ?case by auto
qed

end

definition check_op :: "RegOp \<Rightarrow> (string \<times> CheckSample) option" where
  "check_op op = (case op of OpCheck n t b \<Rightarrow> Some (n, \<lparr>cs_Time = t, cs_Success = b\<rparr>) | _ \<Rightarrow> None)"

definition speed_op :: "RegOp \<Rightarrow> (string \<times> SpeedSample) option" where
  "speed_op op = (case op of OpSpeed n t v \<Rightarrow> Some (n, \<lparr>ss_Time = t, ss_Mbps = v\<rparr>) | _ \<Rightarrow> None)"

lemma unit_history_bound:
  assumes "reg_inv r"
  shows "length (unit_checks r n) \<le> nat historyCap" "length (unit_speeds r n) \<le> nat historyCap"
  using reg_invD(5) [OF assms, of n]
  by (auto simp: unit_checks_def unit_speeds_def hist_inv_def ring_inv_def ring_list_def split: option.split)

lemma reg_step_ok:
  assumes inv: "reg_inv r"
  shows "\<exists>r'. reg_step r op = Some r' \<and> reg_inv r' \<and> unit_names r \<subseteq> unit_names r'
    \<and> (\<forall>n \<in> unit_names r. unit_checks r' n
          = lastn (nat historyCap) (unit_checks r n @ selected check_op n [op]))
    \<and> (\<forall>n \<in> unit_names r. unit_speeds r' n
          = lastn (nat historyCap) (unit_speeds r n @ selected speed_op n [op]))"
proof -
  note short = unit_history_bound [OF inv, THEN lastn_short]
  show ?thesis
  proof (cases op)
    case (OpRegister n)
    show ?thesis
    proof (cases "n \<in> unit_names r")
      case True
      with Register_again [OF inv] OpRegister inv short show ?thesis
        by (simp add: reg_step_def check_op_def speed_op_def)
    next
      case False
      with Register_new [OF inv] obtain r' where "Register (Some r) n = Some (Some \<lparr>hd_name = n\<rparr>, Some r')"
        "reg_inv r'" "reg_order r' = reg_order r @ [n]" "unit_checks r' = (unit_checks r)(n := [])"
        "unit_speeds r' = (unit_speeds r)(n := [])" by blast
      with False OpRegister short show ?thesis
        by (auto simp: reg_step_def check_op_def speed_op_def unit_names_def)
    qed
  next
    case (OpSet u)
    with Registry_set_ok [OF inv, of u] short show ?thesis
      by (simp add: reg_step_def check_op_def speed_op_def unit_names_def)
  next
    case (OpCheck n t b)
    with recordCheck_ok [OF inv, of n t b] short show ?thesis
      by (auto simp: reg_step_def check_op_def speed_op_def unit_names_def)
  next
    case (OpSpeed n t v)
    with recordSpeed_ok [OF inv, of n t v] short show ?thesis
      by (auto simp: reg_step_def check_op_def speed_op_def unit_names_def)
  qed
qed

interpretation checks: keyed_history reg_step unit_names unit_checks check_op "nat historyCap" reg_inv
  by unfold_locales (use reg_step_ok unit_history_bound in \<open>blast+\<close>)

interpretation speeds: keyed_history reg_step unit_names unit_speeds speed_op "nat historyCap" reg_inv
  by unfold_locales (use reg_step_ok unit_history_bound in \<open>blast+\<close>)

section \<open>Registration order\<close>

definition first_seen :: "'a list \<Rightarrow> 'a list" where
  "first_seen xs = rev (remdups (rev xs))"

lemma first_seen_snoc: "first_seen (xs @ [x]) = (if x \<in> set xs then first_seen xs else first_seen xs @ [x])"
  and first_seen_Nil [simp]: "first_seen [] = []"
  and set_first_seen [simp]: "set (first_seen xs) = set xs"
  by (simp_all add: first_seen_def)

definition registered :: "RegOp list \<Rightarrow> string list" where
  "registered ops = concat (map (\<lambda>op. case op of OpRegister n \<Rightarrow> [n] | _ \<Rightarrow> []) ops)"

lemma reg_step_order:
  assumes "reg_inv r" and "reg_order r = first_seen ns"
  shows "\<exists>r'. reg_step r op = Some r' \<and> reg_inv r' \<and> reg_order r' = first_seen (ns @ registered [op])"
proof -
  have names: "unit_names r = set ns" using assms(2) by (simp add: unit_names_def)
  show ?thesis
  proof (cases op)
    case (OpRegister n)
    then show ?thesis
      using Register_again [OF assms(1), of n] Register_new [OF assms(1), of n] assms names
      by (cases "n \<in> set ns") (auto simp: reg_step_def registered_def first_seen_snoc)
  qed (use assms Registry_set_ok recordCheck_ok recordSpeed_ok in
      \<open>fastforce simp: reg_step_def registered_def\<close>)+
qed

lemma reg_run_order:
  "\<exists>r. go_range reg_step NewRegistry ops = Some r \<and> reg_inv r \<and> reg_order r = first_seen (registered ops)"
proof (induction ops rule: rev_induct)
  case Nil
  then show ?case by (simp add: NewRegistry_inv registered_def) (simp add: NewRegistry_def)
next
  case (snoc op ops)
  then obtain r where r: "go_range reg_step NewRegistry ops = Some r" "reg_inv r"
    "reg_order r = first_seen (registered ops)" by blast
  from reg_step_order [OF r(2,3), of op] show ?case
    by (auto simp: go_range_append r(1) registered_def)
qed

section \<open>Aggregates\<close>

lemma historyAvailability_eq:
  assumes "length samples < 2 ^ 63"
  shows "historyAvailability samples = availability_of (map cs_Success samples)"
proof -
  have "fold (\<lambda>s ok. if cs_Success s then go_add ok 1 else ok) xs (int k) = int (k + successes (map cs_Success xs))"
    if "k + length xs < 2 ^ 63" for xs k
    using that
  proof (induction xs arbitrary: k)
    case (Cons x xs)
    have "go_add (int k) 1 = int (Suc k)" using Cons.prems by (simp add: go_simps in_int64_def)
    with Cons.IH [of k] Cons.IH [of "Suc k"] Cons.prems show ?case by simp
  qed simp
  from this [of 0 samples] assms show ?thesis
    by (simp add: historyAvailability_def availability_of_def pct_def go_len_def)
qed

definition fl_min :: "float64 \<Rightarrow> float64 \<Rightarrow> float64" where
  "fl_min m x = (if fl_less x m then x else m)"

definition fl_max :: "float64 \<Rightarrow> float64 \<Rightarrow> float64" where
  "fl_max m x = (if fl_less m x then x else m)"

lemma speedStats_eq:
  assumes "samples \<noteq> []"
  defines "ms \<equiv> map ss_Mbps samples"
  shows "speedStats samples = Some \<lparr>st_Count = go_len samples, st_Min = foldl fl_min (hd ms) ms,
    st_Avg = fl_div (foldl fl_add (Fin 0) ms) (fl_of_int (go_len samples)),
    st_Max = foldl fl_max (hd ms) ms, st_Latest = last ms\<rparr>"
proof -
  have "fold speedStats_step xs (a, st)
      = (foldl fl_add a (map ss_Mbps xs), st\<lparr>st_Min := foldl fl_min (st_Min st) (map ss_Mbps xs),
           st_Max := foldl fl_max (st_Max st) (map ss_Mbps xs)\<rparr>)" for xs a and st :: SpeedStats
    by (induction xs arbitrary: a st) (simp_all add: speedStats_step_def fl_min_def fl_max_def)
  with assms show ?thesis by (simp add: speedStats_def hd_map last_map)
qed

lemma foldl_fl_min:
  assumes "m \<noteq> NaN" and "NaN \<notin> set xs"
  shows "foldl fl_min m xs \<in> set (m # xs) \<and> (\<forall>x \<in> set (m # xs). fl_le (foldl fl_min m xs) x)"
  using assms
proof (induction xs arbitrary: m)
  case (Cons y ys)
  have nn: "fl_min m y \<noteq> NaN" using Cons.prems by (auto simp: fl_min_def)
  have "fl_le (fl_min m y) m \<and> fl_le (fl_min m y) y"
    using Cons.prems fl_not_less [of y m] by (auto simp: fl_min_def fl_le_def fl_eq_def)
  with Cons.IH [OF nn] Cons.prems show ?case
    by (auto simp: fl_min_def intro: fl_le_trans split: if_splits)
qed (simp add: fl_le_refl)

lemma foldl_fl_max:
  assumes "m \<noteq> NaN" and "NaN \<notin> set xs"
  shows "foldl fl_max m xs \<in> set (m # xs) \<and> (\<forall>x \<in> set (m # xs). fl_le x (foldl fl_max m xs))"
  using assms
proof (induction xs arbitrary: m)
  case (Cons y ys)
  have nn: "fl_max m y \<noteq> NaN" using Cons.prems by (auto simp: fl_max_def)
  have "fl_le m (fl_max m y) \<and> fl_le y (fl_max m y)"
    using Cons.prems fl_not_less [of m y] by (auto simp: fl_max_def fl_le_def fl_eq_def)
  with Cons.IH [OF nn] Cons.prems show ?case
    by (auto simp: fl_max_def intro: fl_le_trans split: if_splits)
qed (simp add: fl_le_refl)

definition unit_summary :: "Registry \<Rightarrow> string \<Rightarrow> UnitSummary" where
  "unit_summary r n = \<lparr>sum_Status = the (reg_units r n),
     sum_HistoryAvailability = historyAvailability (unit_checks r n),
     sum_Speed = speedStats (unit_speeds r n), sum_Checks = unit_checks r n, sum_Speeds = unit_speeds r n\<rparr>"

lemma Summary_eq:
  assumes inv: "reg_inv r"
  shows "Summary (Some r) now = Some \<lparr>fs_GeneratedAt = now, fs_Units = map (unit_summary r) (reg_order r)\<rparr>"
proof -
  let ?body = "\<lambda>fs name. do {
           h \<leftarrow> reg_history r name;
           checks \<leftarrow> ring_slice (h_checks h);
           speeds \<leftarrow> ring_slice (h_speeds h);
           Some (fs\<lparr>fs_Units := fs_Units fs @
             [\<lparr>sum_Status = (case reg_units r name of Some u \<Rightarrow> u | None \<Rightarrow> zeroUnitStatus),
               sum_HistoryAvailability = historyAvailability checks,
               sum_Speed = speedStats speeds, sum_Checks = checks, sum_Speeds = speeds\<rparr>]\<rparr>)
         }"
  have step: "?body fs n = Some (fs\<lparr>fs_Units := fs_Units fs @ [unit_summary r n]\<rparr>)"
    if "n \<in> unit_names r" for fs :: FleetSummary and n
  proof -
    from that inv obtain h u where "reg_history r n = Some h" "reg_units r n = Some u"
      using reg_invD(6,7) [OF inv] by blast
    moreover from this have "hist_inv h" using reg_invD(5) [OF inv] by blast
    then have "ring_slice (h_checks h) = Some (ring_list (h_checks h))"
      "ring_slice (h_speeds h) = Some (ring_list (h_speeds h))"
      by (simp_all add: hist_inv_def ring_slice_eq)
    ultimately show ?thesis by (simp add: unit_summary_def unit_checks_def unit_speeds_def)
  qed
  have "go_range ?body fs ns = Some (fs\<lparr>fs_Units := fs_Units fs @ map (unit_summary r) ns\<rparr>)"
    if "set ns \<subseteq> unit_names r" for fs :: FleetSummary and ns
    using that
  proof (induction ns arbitrary: fs)
    case (Cons n ns)
    then show ?case by (simp add: step del: bind_eq_Some_conv)
  qed simp
  from this [of "reg_order r" "\<lparr>fs_GeneratedAt = now, fs_Units = []\<rparr>"] show ?thesis
    by (simp add: Summary_def unit_names_def)
qed

lemma Snapshot_eq: "reg_inv r \<Longrightarrow> Snapshot (Some r) = map (the \<circ> reg_units r) (reg_order r)"
  using reg_invD(6) by (fastforce simp: Snapshot_def unit_names_def)

lemma Snapshot_names: "reg_inv r \<Longrightarrow> map us_Name (Snapshot (Some r)) = reg_order r"
  using reg_invD(4,6) by (fastforce simp: Snapshot_eq unit_names_def intro!: map_idI)

section \<open>Properties\<close>

text \<open>
  C7. Any interleaving of registry operations by the role goroutines keeps the registry's
  invariant and never panics, and each registered unit's retained history is exactly the most
  recent \<open>historyCap\<close> check outcomes and speed measurements recorded under its own name, in
  order: units never disturb one another.
\<close>

theorem registry_interleaving:
  assumes "reg_inv r"
  shows "\<exists>r'. go_range reg_step r ops = Some r' \<and> reg_inv r' \<and> unit_names r \<subseteq> unit_names r'
    \<and> (\<forall>n \<in> unit_names r.
         unit_checks r' n = lastn (nat historyCap) (unit_checks r n @ selected check_op n ops)
       \<and> unit_speeds r' n = lastn (nat historyCap) (unit_speeds r n @ selected speed_op n ops))"
proof -
  from checks.steps_ok [OF assms, of ops] obtain r' where r': "go_range reg_step r ops = Some r'"
    "reg_inv r'" "unit_names r \<subseteq> unit_names r'"
    "\<forall>n \<in> unit_names r. unit_checks r' n = lastn (nat historyCap) (unit_checks r n @ selected check_op n ops)"
    by blast
  moreover from speeds.steps_ok [OF assms, of ops] r'(1)
  have "\<forall>n \<in> unit_names r. unit_speeds r' n
      = lastn (nat historyCap) (unit_speeds r n @ selected speed_op n ops)" by auto
  ultimately show ?thesis by blast
qed

theorem registry_interleaving_witness:
  "\<exists>r r'. Register (Some NewRegistry) ''a'' = Some (Some \<lparr>hd_name = ''a''\<rparr>, Some r) \<and> reg_inv r
    \<and> go_range reg_step r [OpCheck ''a'' 1 True, OpCheck ''b'' 2 False, OpCheck ''a'' 3 False] = Some r'
    \<and> unit_checks r' ''a'' = [\<lparr>cs_Time = 1, cs_Success = True\<rparr>, \<lparr>cs_Time = 3, cs_Success = False\<rparr>]"
proof -
  have "''a'' \<notin> unit_names NewRegistry" by (simp add: unit_names_def NewRegistry_def)
  from Register_new [OF NewRegistry_inv this] obtain r
    where r: "Register (Some NewRegistry) ''a'' = Some (Some \<lparr>hd_name = ''a''\<rparr>, Some r)" "reg_inv r"
      "reg_order r = reg_order NewRegistry @ [''a'']" "unit_checks r = (unit_checks NewRegistry)(''a'' := [])"
    by blast
  have n: "''a'' \<in> unit_names r" using r(3) by (simp add: unit_names_def)
  from registry_interleaving [OF r(2), of "[OpCheck ''a'' 1 True, OpCheck ''b'' 2 False, OpCheck ''a'' 3 False]"] n
  show ?thesis using r(1,2,4) by (auto simp: check_op_def lastn_def historyCap_def)
qed

text \<open>
  A snapshot lists every registered unit exactly once, in order of first registration,
  whatever operations ran in between; \<open>Len\<close> counts them.
\<close>

lemma Snapshot_registration_order:
  "\<exists>r. go_range reg_step NewRegistry ops = Some r
    \<and> map us_Name (Snapshot (Some r)) = first_seen (registered ops)
    \<and> distinct (map us_Name (Snapshot (Some r)))
    \<and> Registry_Len (Some r) = int (card (set (registered ops)))"
proof -
  from reg_run_order [of ops] obtain r where r: "go_range reg_step NewRegistry ops = Some r" "reg_inv r"
    "reg_order r = first_seen (registered ops)" by blast
  have "length (reg_order r) = card (set (registered ops))"
    using reg_invD(1) [OF r(2)] by (metis distinct_card r(3) set_first_seen)
  with r Snapshot_names [OF r(2)] reg_invD(1) [OF r(2)] show ?thesis
    by (simp add: Registry_Len_def go_len_def)
qed

text \<open>
  Updating through a handle changes exactly that unit's line of the snapshot, to the
  machine's current state, window flag, availability, failure count and last success.
\<close>

lemma Handle_Update_snapshot:
  assumes "reg_inv r" and "hd_name h \<in> unit_names r"
  shows "Snapshot (Handle_Update (Some h) (Some r) sm) = map (\<lambda>u. if us_Name u = hd_name h
      then \<lparr>us_Name = hd_name h, us_State = SM_State sm, us_HasWindow = HasWindow sm,
            us_Availability = Availability sm, us_Consecutive = ConsecutiveFailures sm,
            us_LastSuccess = LastSuccess sm\<rparr>
      else u) (Snapshot (Some r))"
proof -
  let ?u = "\<lparr>us_Name = hd_name h, us_State = SM_State sm, us_HasWindow = HasWindow sm,
            us_Availability = Availability sm, us_Consecutive = ConsecutiveFailures sm,
            us_LastSuccess = LastSuccess sm\<rparr>"
  have "reg_inv (Registry_set r ?u)" "reg_order (Registry_set r ?u) = reg_order r"
    "reg_units (Registry_set r ?u) = (reg_units r)(hd_name h \<mapsto> ?u)"
    using Registry_set_ok [OF assms(1), of ?u] assms(2) by simp_all
  then have "Snapshot (Some (Registry_set r ?u))
      = map (\<lambda>n. if n = hd_name h then ?u else the (reg_units r n)) (reg_order r)"
    by (simp add: Snapshot_eq)
  also have "\<dots> = map (\<lambda>u. if us_Name u = hd_name h then ?u else u) (Snapshot (Some r))"
  proof -
    have "us_Name (the (reg_units r n)) = n" if "n \<in> set (reg_order r)" for n
      using that reg_invD(4,6) [OF assms(1), of n] by (auto simp: unit_names_def)
    then show ?thesis by (simp add: Snapshot_eq [OF assms(1)])
  qed
  finally show ?thesis by (simp add: Handle_Update_def)
qed



text \<open>
  Speed aggregates: for measurements that are numbers, the reported minimum and maximum
  are attained and bound every retained measurement, the latest is the newest one, and the
  count is the number of samples; without measurements there is no aggregate.
\<close>

lemma speedStats_bounds:
  assumes "NaN \<notin> ss_Mbps ` set samples"
  shows "case speedStats samples of
      None \<Rightarrow> samples = []
    | Some st \<Rightarrow> samples \<noteq> [] \<and> st_Count st = int (length samples)
        \<and> st_Latest st = ss_Mbps (last samples)
        \<and> st_Min st \<in> ss_Mbps ` set samples \<and> st_Max st \<in> ss_Mbps ` set samples
        \<and> (\<forall>s \<in> set samples. fl_le (st_Min st) (ss_Mbps s) \<and> fl_le (ss_Mbps s) (st_Max st))"
proof (cases "samples = []")
  case False
  let ?ms = "map ss_Mbps samples"
  have ms: "hd ?ms \<in> set ?ms" "?ms \<noteq> []" using False by (simp_all add: list.set_sel(1) del: set_map)
  have nn: "hd ?ms \<noteq> NaN" "NaN \<notin> set ?ms" using ms assms by auto
  have "foldl fl_min (hd ?ms) ?ms \<in> set ?ms" "foldl fl_max (hd ?ms) ?ms \<in> set ?ms"
    using foldl_fl_min [OF nn] foldl_fl_max [OF nn] ms(1) by auto
  moreover have "fl_le (foldl fl_min (hd ?ms) ?ms) x \<and> fl_le x (foldl fl_max (hd ?ms) ?ms)"
    if "x \<in> set ?ms" for x
    using foldl_fl_min [OF nn] foldl_fl_max [OF nn] that
    by (simp only: list.set(2) insert_iff Ball_def) blast
  ultimately show ?thesis
    using False by (simp add: speedStats_eq go_len_def last_map)
qed (simp add: speedStats_def)

lemma speedStats_bounds_witness:
  "\<exists>st. speedStats [\<lparr>ss_Time = 1, ss_Mbps = Fin 40\<rparr>, \<lparr>ss_Time = 2, ss_Mbps = Fin 20\<rparr>] = Some st
    \<and> st_Count st = 2 \<and> st_Latest st = Fin 20
    \<and> fl_le (st_Min st) (Fin 20) \<and> fl_le (Fin 40) (st_Max st)"
  using speedStats_bounds [of "[\<lparr>ss_Time = 1, ss_Mbps = Fin 40\<rparr>, \<lparr>ss_Time = 2, ss_Mbps = Fin 20\<rparr>]"]
  by (auto split: option.splits)

end
