(* ===== verification/MessageHandlers.thy ===== *)
theory MessageHandlers
  imports Registry Protocol
begin

text \<open>
  \<^verbatim>\<open>internal/roles/message_handler.go\<close> and \<^verbatim>\<open>message_dispatcher.go\<close>: the handlers for ping and
  get-summary requests and the dispatcher that decodes a line and routes it. The registry that
  the summary handler points to is shared with the monitoring roles, so its current contents are
  an argument of a request, as is the time at which it is handled. \<^term>\<open>None\<close> is a panic.
\<close>

datatype MessageHandler = PingHandler | SummaryHandler

definition handler_Type :: "MessageHandler \<Rightarrow> string" where
  "handler_Type h = (case h of PingHandler \<Rightarrow> TypePing | SummaryHandler \<Rightarrow> TypeGetSummary)"

definition toWireUnit :: "UnitSummary \<Rightarrow> wireUnitSummary" where
  "toWireUnit u = \<lparr>
     wu_Name = us_Name (sum_Status u),
     wu_State = State_String (us_State (sum_Status u)),
     wu_Availability = us_Availability (sum_Status u),
     wu_HistoryAvailability = sum_HistoryAvailability u,
     wu_ConsecutiveFailures = us_Consecutive (sum_Status u),
     wu_LastSuccessMS = (if \<not> IsZero (us_LastSuccess (sum_Status u)) then UnixMilli (us_LastSuccess (sum_Status u)) else 0),
     wu_Speed = map_option (\<lambda>s. \<lparr>wp_Count = st_Count s, wp_MinMbps = st_Min s, wp_AvgMbps = st_Avg s,
       wp_MaxMbps = st_Max s, wp_LatestMbps = st_Latest s\<rparr>) (sum_Speed u),
     wu_Checks = map (\<lambda>c. \<lparr>wc_TimeMS = UnixMilli (cs_Time c), wc_Success = cs_Success c\<rparr>) (sum_Checks u),
     wu_Speeds = map (\<lambda>s. \<lparr>wv_TimeMS = UnixMilli (ss_Time s), wv_Mbps = ss_Mbps s\<rparr>) (sum_Speeds u)\<rparr>"

definition toWireSummary :: "FleetSummary \<Rightarrow> wireSummary" where
  "toWireSummary fs = \<lparr>ws_GeneratedAtMS = UnixMilli (fs_GeneratedAt fs), ws_Units = map toWireUnit (fs_Units fs)\<rparr>"

definition handler_Handle :: "Registry option \<Rightarrow> time \<Rightarrow> MessageHandler \<Rightarrow> Request \<Rightarrow> Response option" where
  "handler_Handle reg now h req = (case h of
      PingHandler \<Rightarrow> Some (NewPong req)
    | SummaryHandler \<Rightarrow> map_option (\<lambda>fs. NewSummary (req_ID req) (toWireSummary fs)) (Summary reg now))"

type_synonym MessageDispatcher = "string \<rightharpoonup> MessageHandler"

definition NewMessageDispatcher :: "MessageHandler list \<Rightarrow> MessageDispatcher" where
  "NewMessageDispatcher handlers = fold (\<lambda>h m. m(handler_Type h \<mapsto> h)) handlers Map.empty"

definition MessageDispatcher_Dispatch ::
  "MessageDispatcher \<Rightarrow> Registry option \<Rightarrow> time \<Rightarrow> string \<Rightarrow> Response option" where
  "MessageDispatcher_Dispatch d reg now line = (case DecodeRequest line of
      (req, Some (VersionMismatch _)) \<Rightarrow> Some (NewError (req_ID req) ''unsupported protocol version'')
    | (_, Some (DecodeFailed _)) \<Rightarrow> Some (NewError '''' ''malformed request'')
    | (req, None) \<Rightarrow> (case d (req_Type req) of
        None \<Rightarrow> Some (NewError (req_ID req) ''unsupported request type'')
      | Some h \<Rightarrow> handler_Handle reg now h req))"

end
