(* ===== verification/TCPListener.thy ===== *)
theory TCPListener
  imports MessageHandlers
begin

text \<open>
  \<^verbatim>\<open>internal/roles/tcp_listener.go\<close>: framing, the request-size bound, the per-connection loop and
  the accept loop. A connection is the bytes that arrive before its read side ends (end of file,
  an expired deadline or shutdown); \<open>world k\<close> gives the registry contents and the time at the
  \<open>k\<close>-th request, \<open>wr k\<close> the error of the \<open>k\<close>-th write.
\<close>

definition defaultMaxRequestBytes :: goint where
  "defaultMaxRequestBytes = 64 * 1024"

record TCPListener =
  tl_listen :: string
  tl_readTimeout :: duration
  tl_maxRequest :: goint
  tl_dispatcher :: MessageDispatcher
  tl_ready :: bool                   \<comment> \<open>the channel is closed\<close>
  tl_addr :: "string option"

definition NewTCPListener :: "string \<Rightarrow> duration \<Rightarrow> MessageDispatcher \<Rightarrow> TCPListener" where
  "NewTCPListener listen readTimeout dispatcher =
     \<lparr>tl_listen = listen, tl_readTimeout = readTimeout, tl_maxRequest = defaultMaxRequestBytes,
      tl_dispatcher = dispatcher, tl_ready = False, tl_addr = None\<rparr>"

subsection \<open>Reading and writing lines\<close>

definition nl :: char where
  "nl = CHR 0x0A"

datatype read = Line string string | BufferFull | ReadError

text \<open>
  \<^verbatim>\<open>bufio.Reader.ReadSlice\<close> with a buffer of \<open>size\<close> bytes: the bytes up to and including the first
  newline, if they fit the buffer; otherwise a full buffer, or the end of the input.
\<close>

definition ReadSlice :: "goint \<Rightarrow> string \<Rightarrow> read" where
  "ReadSlice bufsize s = (
     let pre = takeWhile (\<lambda>c. c \<noteq> nl) s in
     if length pre < length s \<and> go_len pre < bufsize then Line (pre @ [nl]) (drop (Suc (length pre)) s)
     else if bufsize \<le> go_len s then BufferFull
     else ReadError)"

definition writeResponse ::
  "(string \<Rightarrow> string option) \<Rightarrow> Response \<Rightarrow> (string list \<times> LogLine list) \<times> string option" where
  "writeResponse wr resp = (case EncodeResponse resp of
      Inl err \<Rightarrow> (([], [log_line LevelWarn ''tcp_listener encode error'' [Attr_Error ''error'' err]]), Some err)
    | Inr out \<Rightarrow> (([out @ [nl]], []), wr (out @ [nl])))"

subsection \<open>One connection\<close>

datatype conn_end = Ended | TooLarge | WriteFailed | Crashed

record served =
  sv_written :: "string list"
  sv_logs :: "LogLine list"
  sv_end :: conn_end

lemma ReadSlice_shorter [termination_simp]: "ReadSlice n s = Line l r \<Longrightarrow> length r < length s"
  by (auto simp: ReadSlice_def Let_def split: if_splits)

function handle_loop ::
  "TCPListener \<Rightarrow> (nat \<Rightarrow> Registry option \<times> time) \<Rightarrow> (nat \<Rightarrow> string \<Rightarrow> string option) \<Rightarrow> nat \<Rightarrow> string \<Rightarrow> served" where
  "handle_loop l world wr k s = (case ReadSlice (tl_maxRequest l) s of
      ReadError \<Rightarrow> \<lparr>sv_written = [], sv_logs = [], sv_end = Ended\<rparr>
    | BufferFull \<Rightarrow> (case writeResponse (wr k) (NewError '''' ''request too large'') of
        ((w, lg), _) \<Rightarrow> \<lparr>sv_written = w, sv_logs = lg, sv_end = TooLarge\<rparr>)
    | Line line rest \<Rightarrow>
        (case MessageDispatcher_Dispatch (tl_dispatcher l) (fst (world k)) (snd (world k)) line of
           None \<Rightarrow> \<lparr>sv_written = [], sv_logs = [], sv_end = Crashed\<rparr>
         | Some resp \<Rightarrow> (case writeResponse (wr k) resp of
             ((w, lg), Some _) \<Rightarrow> \<lparr>sv_written = w, sv_logs = lg, sv_end = WriteFailed\<rparr>
           | ((w, lg), None) \<Rightarrow>
               let r = handle_loop l world wr (Suc k) rest
               in r\<lparr>sv_written := w @ sv_written r, sv_logs := lg @ sv_logs r\<rparr>)))"
  by pat_completeness auto
termination
  by (relation "measure (\<lambda>(l, world, wr, k, s). length s)") (auto dest: ReadSlice_shorter)

declare handle_loop.simps [simp del]

definition handle :: "TCPListener \<Rightarrow> (nat \<Rightarrow> Registry option \<times> time) \<Rightarrow> (nat \<Rightarrow> string \<Rightarrow> string option) \<Rightarrow> string \<Rightarrow> served" where
  "handle l world wr s = handle_loop l world wr 0 s"

subsection \<open>Accepting connections\<close>

text \<open>What \<^verbatim>\<open>Accept\<close> gives: a connection, or an error and whether the context is done by then.\<close>

datatype 'conn accept = Accepted 'conn | AcceptError string bool

record 'conn listening =
  ls_handled :: "'conn list"
  ls_logs :: "LogLine list"
  ls_returned :: bool

primrec accept_loop :: "'conn accept list \<Rightarrow> 'conn listening" where
  "accept_loop [] = \<lparr>ls_handled = [], ls_logs = [], ls_returned = False\<rparr>"
| "accept_loop (a # as) = (case a of
     Accepted conn \<Rightarrow> (let r = accept_loop as in r\<lparr>ls_handled := conn # ls_handled r\<rparr>)
   | AcceptError err ctx_done \<Rightarrow>
       if ctx_done then \<lparr>ls_handled = [], ls_logs = [], ls_returned = True\<rparr>
       else (let r = accept_loop as in
         r\<lparr>ls_logs := log_line LevelWarn ''tcp_listener accept error'' [Attr_Error ''error'' err] # ls_logs r\<rparr>))"

text \<open>
  \<open>bound\<close> is the outcome of binding: an error, or the address. The result is the listener, and an
  error or the run so far. A listener that is run again closes a closed channel, which panics.
\<close>

definition publish :: "string \<Rightarrow> TCPListener \<Rightarrow> TCPListener option" where
  "publish addr l = (if tl_ready l then None else Some (l\<lparr>tl_addr := Some addr, tl_ready := True\<rparr>))"

definition TCPListener_Run ::
  "string + string \<Rightarrow> 'conn accept list \<Rightarrow> TCPListener \<Rightarrow> (TCPListener \<times> (string + 'conn listening)) option" where
  "TCPListener_Run bound as l = (case bound of
      Inl err \<Rightarrow> Some (l, Inl err)
    | Inr addr \<Rightarrow> map_option (\<lambda>l. (l, let r = accept_loop as in
        Inr (r\<lparr>ls_logs := log_line LevelInfo ''tcp_listener listening'' [Attr_String ''addr'' addr] # ls_logs r\<rparr>)))
        (publish addr l))"

definition Ready :: "TCPListener \<Rightarrow> bool" where
  "Ready l = tl_ready l"

definition Addr :: "TCPListener \<Rightarrow> string option" where
  "Addr l = tl_addr l"

end
