(* ===== verification/ServerSpec.thy ===== *)
theory ServerSpec
  imports TCPListener ProtocolSpec
begin

text \<open>
  What the request server promises: an answer to every line whatever its bytes, the id echoed, one
  response for each complete line in order, no more than the request bound buffered, and a summary
  that reports every unit of the registry.
\<close>

subsection \<open>Routing\<close>

lemma handler_Handle_total:
  assumes "case reg of None \<Rightarrow> True | Some r \<Rightarrow> reg_inv r"
  shows "\<exists>resp. handler_Handle reg now h req = Some resp \<and> rsp_Version resp = Version \<and> rsp_ID resp = req_ID req
    \<and> rsp_Type resp = (case h of PingHandler \<Rightarrow> TypePong | SummaryHandler \<Rightarrow> TypeSummary)"
proof -
  obtain fs where "Summary reg now = Some fs"
    using assms Summary_eq by (cases reg) (auto simp: Summary_def [of None])
  then show ?thesis by (cases h) (simp_all add: handler_Handle_def NewPong_def NewSummary_def)
qed

lemma NewMessageDispatcher_lookup:
  "NewMessageDispatcher hs t = find (\<lambda>h. handler_Type h = t) (rev hs)"
proof -
  have "fold (\<lambda>h m. m(handler_Type h \<mapsto> h)) hs m t =
      (case find (\<lambda>h. handler_Type h = t) (rev hs) of None \<Rightarrow> m t | Some h \<Rightarrow> Some h)" for m
    by (induction hs rule: rev_induct) auto
  then show ?thesis unfolding NewMessageDispatcher_def by (simp split: option.splits)
qed

lemma Dispatch_cases:
  assumes "case reg of None \<Rightarrow> True | Some r \<Rightarrow> reg_inv r"
  shows "\<exists>resp. MessageDispatcher_Dispatch d reg now line = Some resp \<and> rsp_Version resp = Version
    \<and> (case DecodeRequest line of
         (req, None) \<Rightarrow> rsp_ID resp = req_ID req
           \<and> (case d (req_Type req) of
               None \<Rightarrow> resp = NewError (req_ID req) ''unsupported request type''
             | Some PingHandler \<Rightarrow> resp = NewPong req
             | Some SummaryHandler \<Rightarrow> rsp_Type resp = TypeSummary)
       | (req, Some (VersionMismatch v)) \<Rightarrow> resp = NewError (req_ID req) ''unsupported protocol version''
       | (req, Some (DecodeFailed e)) \<Rightarrow> resp = NewError '''' ''malformed request'')"
proof -
  obtain req e where dec: "DecodeRequest line = (req, e)" by (cases "DecodeRequest line")
  show ?thesis
  proof (cases e)
    case (Some err)
    then show ?thesis
      by (cases err) (simp_all add: MessageDispatcher_Dispatch_def dec NewError_def)
  next
    case None
    show ?thesis
    proof (cases "d (req_Type req)")
      case (Some h)
      with handler_Handle_total [OF assms, of now h req] show ?thesis
        by (cases h) (auto simp: MessageDispatcher_Dispatch_def dec \<open>e = None\<close> handler_Handle_def)
    qed (simp add: MessageDispatcher_Dispatch_def dec \<open>e = None\<close> NewError_def)
  qed
qed

subsection \<open>Framing\<close>

lemma ReadSlice_line:
  assumes "nl \<notin> set l" and "go_len l < n"
  shows "ReadSlice n (l @ nl # s) = Line (l @ [nl]) s"
proof -
  have "takeWhile (\<lambda>c. c \<noteq> nl) (l @ nl # s) = l" using assms(1) by (auto simp: takeWhile_append takeWhile_eq_all_conv)
  with assms(2) show ?thesis by (simp add: ReadSlice_def Let_def)
qed

lemma ReadSlice_tail:
  assumes "nl \<notin> set (take (nat n) s)"
  shows "ReadSlice n s = (if n \<le> go_len s then BufferFull else ReadError)"
proof -
  let ?pre = "takeWhile (\<lambda>c. c \<noteq> nl) s"
  have "\<not> (length ?pre < length s \<and> go_len ?pre < n)"
  proof
    assume a: "length ?pre < length s \<and> go_len ?pre < n"
    then have "s ! length ?pre = nl" using nth_length_takeWhile by blast
    moreover have "s ! length ?pre \<in> set (take (nat n) s)"
      using a by (auto simp: in_set_conv_nth go_len_def intro!: exI [of _ "length ?pre"])
    ultimately show False using assms by simp
  qed
  then show ?thesis by (auto simp: ReadSlice_def Let_def)
qed

lemma ReadSlice_Line: "ReadSlice n s = Line l r \<Longrightarrow> s = l @ r \<and> go_len l \<le> n \<and> last l = nl"
proof -
  let ?pre = "takeWhile (\<lambda>c. c \<noteq> nl) s"
  assume a: "ReadSlice n s = Line l r"
  then have lt: "length ?pre < length s" "go_len ?pre < n" and l: "l = ?pre @ [nl]" "r = drop (Suc (length ?pre)) s"
    by (auto simp: ReadSlice_def Let_def split: if_splits)
  have "s ! length ?pre = nl" using nth_length_takeWhile [OF lt(1)] by simp
  then have "drop (length ?pre) s = nl # r" using lt(1) l(2) Cons_nth_drop_Suc by metis
  then have "?pre @ drop (length ?pre) s = l @ r" by (simp add: l(1))
  then have "s = l @ r" by (simp add: dropWhile_eq_drop [symmetric])
  moreover have "go_len l \<le> n" "last l = nl" using lt(2) unfolding l(1) by (simp_all add: go_len_def)
  ultimately show ?thesis by blast
qed

subsection \<open>Connections\<close>

text \<open>The bytes answering the \<open>k\<close>-th line, when it is answered and the answer can be encoded.\<close>

definition answer :: "TCPListener \<Rightarrow> (nat \<Rightarrow> Registry option \<times> time) \<Rightarrow> nat \<Rightarrow> string \<Rightarrow> string option" where
  "answer l world k line =
     Option.bind (MessageDispatcher_Dispatch (tl_dispatcher l) (fst (world k)) (snd (world k)) line)
       (\<lambda>resp. case EncodeResponse resp of Inl _ \<Rightarrow> None | Inr out \<Rightarrow> Some (out @ [nl]))"

lemma handle_loop_step:
  assumes "ReadSlice (tl_maxRequest l) s = Line line rest" and "answer l world k line = Some out" and "wr k out = None"
  shows "handle_loop l world wr k s =
    (let r = handle_loop l world wr (Suc k) rest in r\<lparr>sv_written := out # sv_written r\<rparr>)"
proof -
  obtain resp where d: "MessageDispatcher_Dispatch (tl_dispatcher l) (fst (world k)) (snd (world k)) line = Some resp"
    and e: "(case EncodeResponse resp of Inl _ \<Rightarrow> None | Inr out \<Rightarrow> Some (out @ [nl])) = Some out"
    using assms(2) by (auto simp: answer_def bind_eq_Some_conv)
  from e obtain t where "EncodeResponse resp = Inr t" "out = t @ [nl]" by (cases "EncodeResponse resp") auto
  with d assms(1,3) show ?thesis
    by (subst handle_loop.simps) (simp add: writeResponse_def Let_def)
qed

lemma handle_loop_never_crashes:
  assumes "\<And>k. registry_ok (fst (world k))"
  shows "sv_end (handle_loop l world wr k s) \<noteq> Crashed"
proof (induction "length s" arbitrary: k s rule: less_induct)
  case less
  have "\<exists>resp. MessageDispatcher_Dispatch (tl_dispatcher l) (fst (world k)) (snd (world k)) line = Some resp" for line
    using Dispatch_cases [of "fst (world k)" "tl_dispatcher l" "snd (world k)" line] assms [of k]
    by (auto simp: registry_ok_def)
  then obtain g where total:
    "\<And>line. MessageDispatcher_Dispatch (tl_dispatcher l) (fst (world k)) (snd (world k)) line = Some (g line)" by metis
  have "sv_end (handle_loop l world wr (Suc k) rest) \<noteq> Crashed"
    if "ReadSlice (tl_maxRequest l) s = Line line rest" for line rest
    using less ReadSlice_shorter [OF that] by blast
  with total show ?case
    by (subst handle_loop.simps) (auto simp: Let_def split: read.splits option.splits prod.splits)
qed

lemma handle_loop_lines:
  assumes "\<And>l'. l' \<in> set ls \<Longrightarrow> nl \<notin> set l' \<and> go_len l' < tl_maxRequest l"
    and "length outs = length ls"
    and "\<And>i. i < length ls \<Longrightarrow> answer l world (k + i) (ls ! i @ [nl]) = Some (outs ! i) \<and> wr (k + i) (outs ! i) = None"
  shows "handle_loop l world wr k (concat (map (\<lambda>l. l @ [nl]) ls) @ tail) =
    (let r = handle_loop l world wr (k + length ls) tail in r\<lparr>sv_written := outs @ sv_written r\<rparr>)"
  using assms
proof (induction ls arbitrary: k outs)
  case (Cons x xs)
  then obtain o1 os where os: "outs = o1 # os" by (cases outs) auto
  have "ReadSlice (tl_maxRequest l) (concat (map (\<lambda>l. l @ [nl]) (x # xs)) @ tail) =
      Line (x @ [nl]) (concat (map (\<lambda>l. l @ [nl]) xs) @ tail)"
    using Cons.prems(1) [of x] by (simp add: ReadSlice_line)
  moreover have "answer l world k (x @ [nl]) = Some o1" "wr k o1 = None" using Cons.prems(3) [of 0] os by simp_all
  ultimately have "handle_loop l world wr k (concat (map (\<lambda>l. l @ [nl]) (x # xs)) @ tail) =
      (let r = handle_loop l world wr (Suc k) (concat (map (\<lambda>l. l @ [nl]) xs) @ tail) in r\<lparr>sv_written := o1 # sv_written r\<rparr>)"
    by (rule handle_loop_step)
  moreover have "handle_loop l world wr (Suc k) (concat (map (\<lambda>l. l @ [nl]) xs) @ tail) =
      (let r = handle_loop l world wr (Suc k + length xs) tail in r\<lparr>sv_written := os @ sv_written r\<rparr>)"
  proof (rule Cons.IH)
    show "\<And>l'. l' \<in> set xs \<Longrightarrow> nl \<notin> set l' \<and> go_len l' < tl_maxRequest l" using Cons.prems(1) by simp
    show "length os = length xs" using Cons.prems(2) os by simp
    show "answer l world (Suc k + i) (xs ! i @ [nl]) = Some (os ! i) \<and> wr (Suc k + i) (os ! i) = None"
      if "i < length xs" for i using Cons.prems(3) [of "Suc i"] that os by simp
  qed
  ultimately show ?case by (simp add: Let_def os)
qed (simp add: Let_def)

lemma handle_loop_tail:
  assumes "nl \<notin> set (take (nat (tl_maxRequest l)) tail)" and "EncodeResponse (NewError '''' ''request too large'') = Inr big"
  shows "handle_loop l world wr k tail =
    (if tl_maxRequest l \<le> go_len tail
     then \<lparr>sv_written = [big @ [nl]], sv_logs = [], sv_end = TooLarge\<rparr>
     else \<lparr>sv_written = [], sv_logs = [], sv_end = Ended\<rparr>)"
  using assms by (subst handle_loop.simps) (simp add: ReadSlice_tail writeResponse_def)

lemma EncodeResponse_error: "\<exists>out. EncodeResponse (NewError ident msg) = Inr out"
  by (simp add: EncodeResponse_def marshal_response_def NewError_def)

subsection \<open>Properties\<close>

text \<open>
  C19. Every request line, whatever its bytes, gets exactly one response of the spoken version:
  malformed input and a wrong version give their error responses, an unknown type gives its error,
  a ping its pong, a summary request its summary, each echoing the id whenever one was decoded.
\<close>

theorem Dispatch_answers_every_line:
  assumes "registry_ok reg"
  shows "\<exists>resp. MessageDispatcher_Dispatch (NewMessageDispatcher hs) reg now line = Some resp \<and> rsp_Version resp = Version
    \<and> (case DecodeRequest line of
         (req, None) \<Rightarrow> rsp_ID resp = req_ID req
           \<and> (case find (\<lambda>h. handler_Type h = req_Type req) (rev hs) of
               None \<Rightarrow> resp = NewError (req_ID req) ''unsupported request type''
             | Some PingHandler \<Rightarrow> resp = NewPong req
             | Some SummaryHandler \<Rightarrow> rsp_Type resp = TypeSummary)
       | (req, Some (VersionMismatch v)) \<Rightarrow> resp = NewError (req_ID req) ''unsupported protocol version''
       | (req, Some (DecodeFailed e)) \<Rightarrow> resp = NewError '''' ''malformed request'')"
  using Dispatch_cases [of reg "NewMessageDispatcher hs" now line] assms
  unfolding registry_ok_def NewMessageDispatcher_lookup by blast

theorem Dispatch_answers_every_line_witness:
  "\<exists>resp. MessageDispatcher_Dispatch (NewMessageDispatcher [PingHandler]) None 0 ''null'' = Some resp
    \<and> resp = NewError '''' ''unsupported protocol version''"
proof -
  have "json_unmarshal (json_text JNull @ []) = Inr JNull" by (rule unmarshal_good) simp_all
  then have "DecodeRequest ''null'' = (zeroRequest, Some (VersionMismatch ''''))"
    by (simp add: DecodeRequest_def dec_request_def dec_object_def zeroRequest_def Version_def)
  with Dispatch_answers_every_line [of None "[PingHandler]" 0 "''null''"]
  show ?thesis by (simp add: registry_ok_def zeroRequest_def)
qed

text \<open>
  C6. A connection that sends complete lines below the size bound and then a rest without a
  newline in its first \<open>maxRequest\<close> bytes is answered line by line, in order, one response each;
  the rest gets one error response if it fills the buffer and none otherwise, and the connection
  ends there.
\<close>

theorem handle_serves_lines:
  assumes "\<And>l'. l' \<in> set ls \<Longrightarrow> nl \<notin> set l' \<and> go_len l' < tl_maxRequest l"
    and "length outs = length ls"
    and "\<And>i. i < length ls \<Longrightarrow> answer l world i (ls ! i @ [nl]) = Some (outs ! i) \<and> wr i (outs ! i) = None"
    and "nl \<notin> set (take (nat (tl_maxRequest l)) tail)"
  shows "\<exists>big. EncodeResponse (NewError '''' ''request too large'') = Inr big
    \<and> handle l world wr (concat (map (\<lambda>l. l @ [nl]) ls) @ tail) =
      (if tl_maxRequest l \<le> go_len tail
       then \<lparr>sv_written = outs @ [big @ [nl]], sv_logs = [], sv_end = TooLarge\<rparr>
       else \<lparr>sv_written = outs, sv_logs = [], sv_end = Ended\<rparr>)"
proof -
  obtain big where big: "EncodeResponse (NewError '''' ''request too large'') = Inr big" using EncodeResponse_error by blast
  have "handle l world wr (concat (map (\<lambda>l. l @ [nl]) ls) @ tail) =
      (let r = handle_loop l world wr (length ls) tail in r\<lparr>sv_written := outs @ sv_written r\<rparr>)"
    unfolding handle_def using handle_loop_lines [where k = 0 and outs = outs and ls = ls, OF assms(1,2)] assms(3) by simp
  with handle_loop_tail [OF assms(4) big] big show ?thesis by (auto simp: Let_def)
qed

lemma decode_x: "DecodeRequest (''x'' @ [nl]) = (zeroRequest, Some (DecodeFailed ''invalid JSON''))"
proof -
  have "next_token (''x'' @ [nl]) = None"
    by (simp add: next_token_def token_at_def is_space_def dquote_def scan_number_def scan_minus_def scan_int_def
        digits1_def is_digit_def)
  then show ?thesis by (simp add: DecodeRequest_def json_unmarshal_def parse_from.simps)
qed

theorem handle_serves_lines_witness:
  "\<exists>out. EncodeResponse (NewError '''' ''malformed request'') = Inr out
    \<and> handle (NewTCPListener ''a'' 1 (NewMessageDispatcher [PingHandler])) (\<lambda>_. (None, 0)) (\<lambda>_ _. None)
        (concat (map (\<lambda>l. l @ [nl]) [''x'']) @ ''y'') = \<lparr>sv_written = [out @ [nl]], sv_logs = [], sv_end = Ended\<rparr>"
proof -
  define l where "l = NewTCPListener ''a'' 1 (NewMessageDispatcher [PingHandler])"
  have mx: "tl_maxRequest l = 65536" by (simp add: l_def NewTCPListener_def defaultMaxRequestBytes_def)
  have ne: "nl \<noteq> CHR ''x''" "nl \<noteq> CHR ''y''" by (simp_all add: nl_def)
  obtain out where out: "EncodeResponse (NewError '''' ''malformed request'') = Inr out" using EncodeResponse_error by blast
  then have ans: "answer l (\<lambda>_. (None, 0)) 0 (''x'' @ [nl]) = Some (out @ [nl])"
    unfolding answer_def MessageDispatcher_Dispatch_def decode_x by simp
  from handle_serves_lines [of "[''x'']" l "[out @ [nl]]" "\<lambda>_. (None, 0)" "\<lambda>_ _. None" "''y''"] ans ne out show ?thesis
    by (simp add: mx go_len_def flip: l_def)
qed



subsection \<open>The accept loop\<close>

definition shutdown_error :: "'conn accept \<Rightarrow> bool" where
  "shutdown_error a = (case a of AcceptError _ ctx_done \<Rightarrow> ctx_done | Accepted _ \<Rightarrow> False)"

definition connections :: "'conn accept list \<Rightarrow> 'conn list" where
  "connections as = concat (map (\<lambda>a. case a of Accepted c \<Rightarrow> [c] | AcceptError _ _ \<Rightarrow> []) as)"

lemma accept_loop_serves:
  "ls_handled (accept_loop as) = connections (takeWhile (\<lambda>a. \<not> shutdown_error a) as)"
  "ls_returned (accept_loop as) \<longleftrightarrow> (\<exists>a \<in> set as. shutdown_error a)"
  by (induction as) (auto simp: connections_def shutdown_error_def Let_def split: accept.splits)

text \<open>
  A bound listener publishes its address and hands every connection it accepts before the shutdown
  to a handler, accept errors notwithstanding; it returns at the first error after the shutdown. A
  second run of a listener that was bound panics.
\<close>

lemma TCPListener_Run_serves:
  assumes "\<not> Ready l"
  shows "\<exists>l' r. TCPListener_Run (Inr addr) as l = Some (l', Inr r) \<and> Ready l' \<and> Addr l' = Some addr
    \<and> ls_handled r = connections (takeWhile (\<lambda>a. \<not> shutdown_error a) as)
    \<and> (ls_returned r \<longleftrightarrow> (\<exists>a \<in> set as. shutdown_error a))
    \<and> (\<forall>addr' as'. TCPListener_Run (Inr addr') as' l' = (None :: (TCPListener \<times> (string + 'conn listening)) option))"
  using assms by (auto simp: TCPListener_Run_def publish_def Ready_def Addr_def Let_def accept_loop_serves)

end
