(* ===== verification/FixedText.thy ===== *)
theory FixedText
  imports Float64 GoStrings
begin

text \<open>
  The \<^verbatim>\<open>%.2f\<close> of \<^verbatim>\<open>fmt\<close>: the exact value rounded to hundredths, halves to even; the infinities and NaN by
  name. (A negative zero cannot be told from zero here; no number the sources print is one.)
\<close>

definition hundredths :: "rat \<Rightarrow> nat" where
  "hundredths x = nat (rnd_int (100 * \<bar>x\<bar>))"

definition fixed2 :: "float64 \<Rightarrow> string" where
  "fixed2 f = (case f of
      Fin x \<Rightarrow> (if x < 0 then ''-'' else '''') @ nat_text (hundredths x div 100) @ ''.'' @ pad 2 (hundredths x mod 100)
    | PInf \<Rightarrow> ''+Inf''
    | NInf \<Rightarrow> ''-Inf''
    | NaN \<Rightarrow> ''NaN'')"

text \<open>The printed number is at most half a hundredth away from the value.\<close>

lemma hundredths_near: "\<bar>of_nat (hundredths x) / 100 - \<bar>x\<bar>\<bar> \<le> 1 / 200"
proof -
  have "0 \<le> rnd_int (100 * \<bar>x\<bar>)" by (rule rnd_int_ge) simp
  then have "of_nat (hundredths x) = (of_int (rnd_int (100 * \<bar>x\<bar>)) :: rat)" by (simp add: hundredths_def)
  with rnd_int_near [of "100 * \<bar>x\<bar>"] show ?thesis
    by (intro abs_leI) (simp_all add: field_simps)
qed

end
