(* ===== verification/Roles.thy ===== *)
theory Roles
  imports Registry Protocol Dispatcher GoURL FixedText
begin

text \<open>
  The monitoring roles of \<^verbatim>\<open>internal/roles\<close>: \<^verbatim>\<open>roles.go\<close>, \<^verbatim>\<open>ping_monitor.go\<close>, \<^verbatim>\<open>http_probe.go\<close>,
  \<^verbatim>\<open>url_monitor.go\<close>, \<^verbatim>\<open>internet_check.go\<close>, \<^verbatim>\<open>speed_check.go\<close> and \<^verbatim>\<open>summary_reporter.go\<close>. A check
  cycle takes the state of its unit and the shared registry and returns both with what it logged
  and dispatched, in order; \<^term>\<open>None\<close> is a panic. The network, the clock, the speedtest binary, and
  the texts of quoted strings and of URL errors are arguments.
\<close>

datatype effect = ELog LogLine | EDispatch Alert "string list"

text \<open>The three readings of the clock in a cycle.\<close>

record check_times =
  ct_observe :: time
  ct_record :: time
  ct_alert :: time

subsection \<open>roles.go\<close>

definition stateName :: "State \<Rightarrow> string" where
  "stateName s = (if s = Unhealthy then ''UNHEALTHY'' else ''HEALTHY'')"

definition dispatchEvent :: "string list \<Rightarrow> string \<Rightarrow> string \<Rightarrow> Event \<Rightarrow> goint \<Rightarrow> time \<Rightarrow> effect list" where
  "dispatchEvent channels role detail ev consecutive now = (case ev of
      AlertUnhealthy \<Rightarrow> [EDispatch \<lparr>al_Role = role, al_State = ''UNHEALTHY'', al_Timestamp = now,
        al_Detail = detail, al_ConsecutiveFailures = consecutive\<rparr> channels]
    | RecoveryHealthy \<Rightarrow> [EDispatch \<lparr>al_Role = role, al_State = ''HEALTHY'', al_Timestamp = now,
        al_Detail = detail, al_ConsecutiveFailures = 0\<rparr> channels]
    | NoEvent \<Rightarrow> [])"

text \<open>
  The second half of every \<open>runCheck\<close>: observe the result, update and record it in the registry
  (with the measured speed, for the speed check), log a snapshot on a transition, dispatch.
\<close>

definition finishCheck ::
  "Handle option \<Rightarrow> string list \<Rightarrow> string \<Rightarrow> string \<Rightarrow> check_times \<Rightarrow> bool \<Rightarrow> float64 option \<Rightarrow>
    StateMachine \<Rightarrow> Registry option \<Rightarrow> (StateMachine \<times> Registry option \<times> effect list) option" where
  "finishCheck h channels role detail tms success mbps sm reg = do {
     (ev, sm) \<leftarrow> Observe sm (ct_observe tms) success;
     let reg = Handle_Update h reg sm;
     reg \<leftarrow> RecordCheck h reg (ct_record tms) success;
     reg \<leftarrow> (case mbps of None \<Rightarrow> Some reg | Some v \<Rightarrow> RecordSpeed h reg (ct_record tms) v);
     let snap = (if ev \<noteq> NoEvent then map ELog (Handle_LogSnapshot h reg True) else []);
     Some (sm, reg, snap @ dispatchEvent channels role detail ev (ConsecutiveFailures sm) (ct_alert tms))
   }"

text \<open>\<^verbatim>\<open>time.NewTicker\<close> panics on an interval that is not positive; \<open>ticks\<close> are the cycles that ran.\<close>

definition run_ticker :: "duration \<Rightarrow> ('s \<Rightarrow> 'i \<Rightarrow> ('s \<times> effect list) option) \<Rightarrow> 's \<Rightarrow> 'i list \<Rightarrow> ('s \<times> effect list) option" where
  "run_ticker interval cycle s ticks = (if interval \<le> 0 then None
     else go_range (\<lambda>(s, es) i. map_option (\<lambda>(s', es'). (s', es @ es')) (cycle s i)) (s, []) ticks)"

subsection \<open>ping_monitor.go\<close>

record rolePingTarget =
  rp_Target :: string
  rp_Interval :: duration
  rp_Timeout :: duration
  rp_Channels :: "string list"
  rp_Mon :: MonConfig

record pingTargetMonitor =
  pg_target :: string
  pg_interval :: duration
  pg_timeout :: duration
  pg_channels :: "string list"
  pg_sm :: StateMachine
  pg_handle :: "Handle option"
  pg_idCounter :: "64 word"

definition NewPingMonitor ::
  "rolePingTarget list \<Rightarrow> Registry option \<Rightarrow> (pingTargetMonitor list \<times> Registry option) option" where
  "NewPingMonitor targets reg = go_range (\<lambda>(ms, reg) t. do {
      sm \<leftarrow> NewWithConfig (rp_Mon t);
      (h, reg) \<leftarrow> Register reg (''ping_monitor:'' @ rp_Target t);
      Some (ms @ [\<lparr>pg_target = rp_Target t, pg_interval = rp_Interval t, pg_timeout = rp_Timeout t,
        pg_channels = rp_Channels t, pg_sm = sm, pg_handle = h, pg_idCounter = 0\<rparr>], reg)
    }) ([], reg) targets"

text \<open>
  What one probe meets: the error of dialling or of writing, the clock, and what is read back
  for the line sent (a line, or an error such as the deadline).
\<close>

record ping_env =
  pe_dial :: "string option"
  pe_now :: time
  pe_write :: "string option"
  pe_read :: "string \<Rightarrow> string + string"

definition ping_request :: "string \<Rightarrow> time \<Rightarrow> Request" where
  "ping_request ident now = \<lparr>req_Version = Version, req_ID = ident, req_Type = TypePing,
     req_Payload = \<lparr>pl_Timestamp = UnixMilli now, pl_Message = ''''\<rparr>\<rparr>"

definition check_pong :: "(string \<Rightarrow> string) \<Rightarrow> string \<Rightarrow> Response \<Rightarrow> string option" where
  "check_pong quote ident resp = (
     if rsp_Type resp \<noteq> TypePong then Some (''expected pong, got type '' @ quote (rsp_Type resp))
     else if rsp_ID resp \<noteq> ident then Some (''id mismatch: sent '' @ quote ident @ '' got '' @ quote (rsp_ID resp))
     else None)"

definition ping_probe ::
  "(string \<Rightarrow> string) \<Rightarrow> ping_env \<Rightarrow> pingTargetMonitor \<Rightarrow> string option \<times> pingTargetMonitor" where
  "ping_probe quote env m = (case pe_dial env of
      Some err \<Rightarrow> (Some (''dial: '' @ err), m)
    | None \<Rightarrow>
        let m = m\<lparr>pg_idCounter := pg_idCounter m + 1\<rparr>;
            ident = nat_text (unat (pg_idCounter m))
        in (case EncodeRequest (ping_request ident (pe_now env)) of
            Inl err \<Rightarrow> Some (''encode: '' @ err)
          | Inr line \<Rightarrow> (case pe_write env of
              Some err \<Rightarrow> Some (''write: '' @ err)
            | None \<Rightarrow> (case pe_read env (line @ [CHR 0x0A]) of
                Inl err \<Rightarrow> Some (''read: '' @ err)
              | Inr respLine \<Rightarrow> (case DecodeResponse respLine of
                  Inl err \<Rightarrow> Some (''decode: '' @ err)
                | Inr resp \<Rightarrow> check_pong quote ident resp))), m))"

definition ping_runCheck ::
  "(string \<Rightarrow> string) \<Rightarrow> ping_env \<Rightarrow> check_times \<Rightarrow> pingTargetMonitor \<Rightarrow> Registry option \<Rightarrow>
    ((pingTargetMonitor \<times> Registry option) \<times> effect list) option" where
  "ping_runCheck quote env tms m reg = (
     let (err, m) = ping_probe quote env m;
         success = (err = None);
         detail = (case err of
             None \<Rightarrow> ''ping to '' @ pg_target m @ '' succeeded''
           | Some e \<Rightarrow> ''ping to '' @ pg_target m @ '' failed: '' @ e);
         warn = (case err of None \<Rightarrow> [] | Some e \<Rightarrow> [ELog (log_line LevelWarn ''ping_monitor check failed''
           [Attr_String ''target'' (pg_target m), Attr_Error ''error'' e])])
     in do {
       (sm, reg, es) \<leftarrow> finishCheck (pg_handle m) (pg_channels m) ''ping_monitor'' detail tms success None (pg_sm m) reg;
       Some ((m\<lparr>pg_sm := sm\<rparr>, reg), warn @ es)
     })"

definition ping_run ::
  "(string \<Rightarrow> string) \<Rightarrow> pingTargetMonitor \<times> Registry option \<Rightarrow> (ping_env \<times> check_times) list \<Rightarrow>
    ((pingTargetMonitor \<times> Registry option) \<times> effect list) option" where
  "ping_run quote s ticks = run_ticker (pg_interval (fst s))
     (\<lambda>(m, reg) (env, tms). ping_runCheck quote env tms m reg) s ticks"

subsection \<open>http\_probe.go and url\_monitor.go\<close>

record http_client =
  hc_timeout :: duration
  hc_insecure :: bool

definition NewHTTPClient :: "duration \<Rightarrow> bool \<Rightarrow> http_client" where
  "NewHTTPClient timeout insecureSkipVerify =
     (if \<not> insecureSkipVerify then \<lparr>hc_timeout = timeout, hc_insecure = False\<rparr>
      else \<lparr>hc_timeout = timeout, hc_insecure = True\<rparr>)"

text \<open>
  The network of a GET: the text of the error of a URL that cannot be parsed, which is what keeps a
  request from being built, and the transport error or the status.
\<close>

record get_env =
  ge_urlError :: "string \<Rightarrow> url_error \<Rightarrow> string"
  ge_do :: "http_client \<Rightarrow> string \<Rightarrow> string + goint"

definition httpProbe :: "get_env \<Rightarrow> http_client \<Rightarrow> string \<Rightarrow> string option" where
  "httpProbe env client url = (case url_Parse url of
      Inl err \<Rightarrow> Some (''request: '' @ ge_urlError env url err)
    | Inr _ \<Rightarrow> (case ge_do env client url of
        Inl err \<Rightarrow> Some (''get: '' @ err)
      | Inr code \<Rightarrow> if code < 200 \<or> 300 \<le> code then Some (''non-2xx status: '' @ itoa code) else None))"

record roleURLTarget =
  ru_URL :: string
  ru_Interval :: duration
  ru_Timeout :: duration
  ru_Channels :: "string list"
  ru_Mon :: MonConfig
  ru_InsecureSkipVerify :: bool

record urlTargetMonitor =
  ul_url :: string
  ul_interval :: duration
  ul_timeout :: duration
  ul_channels :: "string list"
  ul_sm :: StateMachine
  ul_handle :: "Handle option"
  ul_client :: http_client

definition NewURLMonitor ::
  "roleURLTarget list \<Rightarrow> Registry option \<Rightarrow> (urlTargetMonitor list \<times> Registry option) option" where
  "NewURLMonitor targets reg = go_range (\<lambda>(ms, reg) t. do {
      sm \<leftarrow> NewWithConfig (ru_Mon t);
      (h, reg) \<leftarrow> Register reg (''url_monitor:'' @ ru_URL t);
      Some (ms @ [\<lparr>ul_url = ru_URL t, ul_interval = ru_Interval t, ul_timeout = ru_Timeout t,
        ul_channels = ru_Channels t, ul_sm = sm, ul_handle = h,
        ul_client = NewHTTPClient (ru_Timeout t) (ru_InsecureSkipVerify t)\<rparr>], reg)
    }) ([], reg) targets"

definition url_probe :: "get_env \<Rightarrow> urlTargetMonitor \<Rightarrow> string option" where
  "url_probe env m = httpProbe env (ul_client m) (ul_url m)"

definition url_runCheck ::
  "get_env \<Rightarrow> check_times \<Rightarrow> urlTargetMonitor \<Rightarrow> Registry option \<Rightarrow>
    ((urlTargetMonitor \<times> Registry option) \<times> effect list) option" where
  "url_runCheck env tms m reg = (
     let err = url_probe env m;
         success = (err = None);
         detail = (case err of None \<Rightarrow> ul_url m @ '' healthy'' | Some e \<Rightarrow> ul_url m @ '' unhealthy: '' @ e);
         warn = (case err of None \<Rightarrow> [] | Some e \<Rightarrow> [ELog (log_line LevelWarn ''url_monitor check failed''
           [Attr_String ''url'' (ul_url m), Attr_Error ''error'' e])])
     in do {
       (sm, reg, es) \<leftarrow> finishCheck (ul_handle m) (ul_channels m) ''url_monitor'' detail tms success None (ul_sm m) reg;
       Some ((m\<lparr>ul_sm := sm\<rparr>, reg), warn @ es)
     })"

definition url_run ::
  "urlTargetMonitor \<times> Registry option \<Rightarrow> (get_env \<times> check_times) list \<Rightarrow>
    ((urlTargetMonitor \<times> Registry option) \<times> effect list) option" where
  "url_run s ticks = run_ticker (ul_interval (fst s)) (\<lambda>(m, reg) (env, tms). url_runCheck env tms m reg) s ticks"

subsection \<open>internet\_check.go\<close>

record roleInternetCheck =
  in_sites :: "string list"
  in_interval :: duration
  in_timeout :: duration
  in_channels :: "string list"
  in_sm :: StateMachine
  in_handle :: "Handle option"
  in_client :: http_client
  in_next :: goint

definition NewInternetCheck ::
  "string list \<Rightarrow> duration \<Rightarrow> duration \<Rightarrow> MonConfig \<Rightarrow> string list \<Rightarrow> http_client option \<Rightarrow> Registry option \<Rightarrow>
    (roleInternetCheck \<times> Registry option) option" where
  "NewInternetCheck sites interval timeout mon channels client reg = do {
     let client = (case client of None \<Rightarrow> \<lparr>hc_timeout = timeout, hc_insecure = False\<rparr> | Some cl \<Rightarrow> cl);
     sm \<leftarrow> NewWithConfig mon;
     (h, reg) \<leftarrow> Register reg ''internet_check'';
     Some (\<lparr>in_sites = sites, in_interval = interval, in_timeout = timeout, in_channels = channels, in_sm = sm,
       in_handle = h, in_client = client, in_next = 0\<rparr>, reg)
   }"

definition nextSite :: "roleInternetCheck \<Rightarrow> (string \<times> roleInternetCheck) option" where
  "nextSite c = do {
     i \<leftarrow> go_rem (in_next c) (go_len (in_sites c));
     site \<leftarrow> go_index (in_sites c) i;
     Some (site, c\<lparr>in_next := go_add (in_next c) 1\<rparr>)
   }"

definition checkSite :: "get_env \<Rightarrow> roleInternetCheck \<Rightarrow> string \<Rightarrow> string option" where
  "checkSite env c site = httpProbe env (in_client c) site"

definition internet_runCheck ::
  "get_env \<Rightarrow> check_times \<Rightarrow> roleInternetCheck \<Rightarrow> Registry option \<Rightarrow>
    ((roleInternetCheck \<times> Registry option) \<times> effect list) option" where
  "internet_runCheck env tms c reg = do {
     (site, c) \<leftarrow> nextSite c;
     let err = checkSite env c site;
     let success = (err = None);
     let detail = (case err of None \<Rightarrow> site @ '' reachable'' | Some e \<Rightarrow> site @ '' unreachable: '' @ e);
     let warn = (case err of None \<Rightarrow> [] | Some e \<Rightarrow> [ELog (log_line LevelWarn ''internet_check failed''
       [Attr_String ''site'' site, Attr_Error ''error'' e])]);
     (sm, reg, es) \<leftarrow> finishCheck (in_handle c) (in_channels c) ''internet_check'' detail tms success None (in_sm c) reg;
     Some ((c\<lparr>in_sm := sm\<rparr>, reg), warn @ es)
   }"

definition internet_run ::
  "roleInternetCheck \<times> Registry option \<Rightarrow> (get_env \<times> check_times) list \<Rightarrow>
    ((roleInternetCheck \<times> Registry option) \<times> effect list) option" where
  "internet_run s ticks = run_ticker (in_interval (fst s)) (\<lambda>(c, reg) (env, tms). internet_runCheck env tms c reg) s ticks"

subsection \<open>speed\_check.go\<close>

record roleSpeedCheck =
  sp_binary :: string
  sp_interval :: duration
  sp_threshold :: float64
  sp_channels :: "string list"
  sp_sm :: StateMachine
  sp_handle :: "Handle option"

definition NewSpeedCheck ::
  "string \<Rightarrow> duration \<Rightarrow> float64 \<Rightarrow> MonConfig \<Rightarrow> string list \<Rightarrow> Registry option \<Rightarrow>
    (roleSpeedCheck \<times> Registry option) option" where
  "NewSpeedCheck binary interval threshold mon channels reg = do {
     sm \<leftarrow> NewWithConfig mon;
     (h, reg) \<leftarrow> Register reg ''speed_check'';
     Some (\<lparr>sp_binary = binary, sp_interval = interval, sp_threshold = threshold, sp_channels = channels,
       sp_sm = sm, sp_handle = h\<rparr>, reg)
   }"

text \<open>The command line the default runner executes.\<close>

definition execRunner_args :: "roleSpeedCheck \<Rightarrow> string list" where
  "execRunner_args s = [sp_binary s, ''--accept-license'', ''--accept-gdpr'', ''--format=json'']"

definition put_ookla :: "string \<Rightarrow> json \<Rightarrow> float64 \<Rightarrow> float64 option" where
  "put_ookla f v bandwidth = dec_struct [''bandwidth''] (\<lambda>_ v b. dec_float v b) v bandwidth"

definition dec_ookla :: "json \<Rightarrow> float64 option" where
  "dec_ookla v = dec_struct [''download''] put_ookla v (Fin 0)"

text \<open>\<open>out\<close> is what the runner returned; the result is the throughput in Mbps.\<close>

definition measure_speed :: "string + string \<Rightarrow> string + float64" where
  "measure_speed out = (case out of
      Inl err \<Rightarrow> Inl (''run speedtest: '' @ err)
    | Inr bytes \<Rightarrow> (case json_unmarshal bytes of
        Inl err \<Rightarrow> Inl (''parse speedtest json: '' @ err)
      | Inr v \<Rightarrow> (case dec_ookla v of
          None \<Rightarrow> Inl ''parse speedtest json: json: cannot unmarshal''
        | Some bandwidth \<Rightarrow> Inr (fl_div (fl_mul bandwidth (Fin 8)) (Fin 1000000)))))"

definition speed_runCheck ::
  "string + string \<Rightarrow> check_times \<Rightarrow> roleSpeedCheck \<Rightarrow> Registry option \<Rightarrow>
    ((roleSpeedCheck \<times> Registry option) \<times> effect list) option" where
  "speed_runCheck out tms s reg = (
     let r = measure_speed out;
         mbps = (case r of Inl _ \<Rightarrow> Fin 0 | Inr v \<Rightarrow> v);
         (success, detail) = (case r of
             Inl err \<Rightarrow> (False, ''speedtest failed: '' @ err)
           | Inr v \<Rightarrow>
               if fl_less v (sp_threshold s)
               then (False, ''download '' @ fixed2 v @ '' Mbps below threshold '' @ fixed2 (sp_threshold s) @ '' Mbps'')
               else (True, ''download '' @ fixed2 v @ '' Mbps at/above threshold '' @ fixed2 (sp_threshold s) @ '' Mbps''));
         level = (if success then LevelInfo else LevelWarn);
         attrs = [Attr_Float64 ''mbps'' mbps, Attr_Float64 ''threshold_mbps'' (sp_threshold s),
           Attr_Bool ''success'' success, Attr_String ''detail'' detail]
           @ (case r of Inl err \<Rightarrow> [Attr_Error ''error'' err] | Inr _ \<Rightarrow> [])
     in do {
       (sm, reg, es) \<leftarrow> finishCheck (sp_handle s) (sp_channels s) ''speed_check'' detail tms success
         (case r of Inl _ \<Rightarrow> None | Inr v \<Rightarrow> Some v) (sp_sm s) reg;
       Some ((s\<lparr>sp_sm := sm\<rparr>, reg), ELog (log_line level ''speed_check result'' attrs) # es)
     })"

definition speed_run ::
  "roleSpeedCheck \<times> Registry option \<Rightarrow> ((string + string) \<times> check_times) list \<Rightarrow>
    ((roleSpeedCheck \<times> Registry option) \<times> effect list) option" where
  "speed_run s ticks = run_ticker (sp_interval (fst s))
     (\<lambda>(m, reg) (out, tms). speed_runCheck out tms m reg) s ticks"

subsection \<open>summary\_reporter.go\<close>

record SummaryReporter =
  sr_interval :: duration

definition NewSummaryReporter :: "duration \<Rightarrow> SummaryReporter" where
  "NewSummaryReporter interval = \<lparr>sr_interval = interval\<rparr>"

text \<open>Each tick finds the registry as it is then, and the time.\<close>

definition SummaryReporter_run ::
  "SummaryReporter \<Rightarrow> (Registry option \<times> time) list \<Rightarrow> (unit \<times> effect list) option" where
  "SummaryReporter_run r ticks = run_ticker (sr_interval r)
     (\<lambda>_ (reg, now). map_option (\<lambda>ls. ((), map ELog ls)) (LogSummary reg True now)) () ticks"

end
