(* ===== verification/RolesSpec.thy ===== *)
theory RolesSpec
  imports Roles ProtocolSpec
begin

text \<open>
  What a monitoring role promises: a cycle never panics, changes the registry by exactly its own
  operations, and what its channels see alternates between UNHEALTHY and HEALTHY alerts, beginning
  with UNHEALTHY. Every role is an instance of one contract, shown by interpretation.
\<close>

subsection \<open>What the channels see\<close>

definition alerts_of :: "effect list \<Rightarrow> Alert list" where
  "alerts_of es = concat (map (\<lambda>e. case e of EDispatch a _ \<Rightarrow> [a] | ELog _ \<Rightarrow> []) es)"

definition alert_event :: "effect list \<Rightarrow> Event" where
  "alert_event es = (case alerts_of es of [] \<Rightarrow> NoEvent
     | a # _ \<Rightarrow> if al_State a = ''UNHEALTHY'' then AlertUnhealthy else RecoveryHealthy)"

lemma alerts_of_simps [simp]:
  "alerts_of [] = []" "alerts_of (xs @ ys) = alerts_of xs @ alerts_of ys"
  "alerts_of (ELog l # es) = alerts_of es" "alerts_of (EDispatch a cs # es) = a # alerts_of es"
  "alerts_of (map ELog ls) = []"
  by (simp_all add: alerts_of_def)

lemma alerts_of_dispatchEvent:
  "alerts_of (dispatchEvent channels role detail ev n now) = (case ev of NoEvent \<Rightarrow> []
     | AlertUnhealthy \<Rightarrow> [\<lparr>al_Role = role, al_State = ''UNHEALTHY'', al_Timestamp = now, al_Detail = detail, al_ConsecutiveFailures = n\<rparr>]
     | RecoveryHealthy \<Rightarrow> [\<lparr>al_Role = role, al_State = ''HEALTHY'', al_Timestamp = now, al_Detail = detail, al_ConsecutiveFailures = 0\<rparr>])"
  by (cases ev) (simp_all add: dispatchEvent_def)

lemma alert_event_dispatchEvent [simp]:
  "alert_event (map ELog ls @ dispatchEvent channels role detail ev n now) = ev"
  "alert_event (dispatchEvent channels role detail ev n now) = ev"
  by (cases ev; simp add: alert_event_def alerts_of_dispatchEvent)+

lemma alert_event_log [simp]: "alert_event (ELog l # es) = alert_event es"
  by (simp add: alert_event_def)

subsection \<open>One cycle\<close>

lemma RecordCheck_ok:
  assumes "registry_ok reg"
  shows "\<exists>reg'. RecordCheck h reg t b = Some reg' \<and> registry_ok reg'"
  using assms recordCheck_ok
  by (fastforce simp: RecordCheck_def registry_ok_def split: option.splits)

lemma RecordSpeed_ok:
  assumes "registry_ok reg"
  shows "\<exists>reg'. RecordSpeed h reg t v = Some reg' \<and> registry_ok reg'"
  using assms recordSpeed_ok
  by (fastforce simp: RecordSpeed_def registry_ok_def split: option.splits)

lemma Handle_Update_ok: "registry_ok reg \<Longrightarrow> registry_ok (Handle_Update h reg sm)"
  using Registry_set_ok by (auto simp: Handle_Update_def registry_ok_def split: option.splits)

lemma finishCheck_ok:
  assumes "sm_inv sm" and "registry_ok reg"
  shows "\<exists>sm' reg' es. finishCheck h channels role detail tms success mbps sm reg = Some (sm', reg', es)
    \<and> Observe sm (ct_observe tms) success = Some (event_of (m_state sm) (m_state sm'), sm')
    \<and> sm_inv sm' \<and> registry_ok reg' \<and> alert_event es = event_of (m_state sm) (m_state sm')"
proof -
  obtain sm' where ob: "Observe sm (ct_observe tms) success = Some (event_of (m_state sm) (m_state sm'), sm')" "sm_inv sm'"
    using Observe_step [OF assms(1)] by blast
  obtain r1 where r1: "RecordCheck h (Handle_Update h reg sm') (ct_record tms) success = Some r1" "registry_ok r1"
    using RecordCheck_ok Handle_Update_ok [OF assms(2)] by blast
  obtain r2 where r2: "(case mbps of None \<Rightarrow> Some r1 | Some v \<Rightarrow> RecordSpeed h r1 (ct_record tms) v) = Some r2" "registry_ok r2"
    using RecordSpeed_ok [OF r1(2), of h "ct_record tms"] r1(2) by (cases mbps) (simp, force)
  show ?thesis
    using ob r1(1) r2 by (simp add: finishCheck_def)
qed

text \<open>The registry operations of a cycle of the unit \<open>name\<close> that ended in the machine \<open>sm\<close>.\<close>

definition cycle_ops :: "string \<Rightarrow> check_times \<Rightarrow> bool \<Rightarrow> float64 option \<Rightarrow> StateMachine \<Rightarrow> RegOp list" where
  "cycle_ops name tms success mbps sm =
     [OpSet \<lparr>us_Name = name, us_State = SM_State sm, us_HasWindow = HasWindow sm, us_Availability = Availability sm,
        us_Consecutive = ConsecutiveFailures sm, us_LastSuccess = LastSuccess sm\<rparr>,
      OpCheck name (ct_record tms) success]
     @ (case mbps of None \<Rightarrow> [] | Some v \<Rightarrow> [OpSpeed name (ct_record tms) v])"

lemma finishCheck_registry:
  assumes "finishCheck (Some h) channels role detail tms success mbps sm (Some r) = Some (sm', reg', es)"
  shows "reg' = go_range reg_step r (cycle_ops (hd_name h) tms success mbps sm')"
  using assms
  by (cases mbps) (auto simp: finishCheck_def cycle_ops_def reg_step_def Handle_Update_def RecordCheck_def
      RecordSpeed_def Let_def split: bind_splits option.splits)

subsection \<open>The contract of a role\<close>

text \<open>The states a sequence of alerts announces, from the health before to the health after.\<close>

fun toggles :: "State \<Rightarrow> string list \<Rightarrow> State \<Rightarrow> bool" where
  "toggles s [] s' \<longleftrightarrow> s = s'"
| "toggles Healthy (x # xs) s' \<longleftrightarrow> x = ''UNHEALTHY'' \<and> toggles Unhealthy xs s'"
| "toggles Unhealthy (x # xs) s' \<longleftrightarrow> x = ''HEALTHY'' \<and> toggles Healthy xs s'"

definition announced :: "effect list \<Rightarrow> string list" where
  "announced es = map al_State (alerts_of es)"

lemma announced_simps [simp]: "announced [] = []" "announced (xs @ ys) = announced xs @ announced ys"
  "announced (ELog l # es) = announced es" "announced (map ELog ls) = []"
  by (simp_all add: announced_def)

lemma toggles_append: "toggles s xs t \<Longrightarrow> toggles t ys u \<Longrightarrow> toggles s (xs @ ys) u"
  by (induction s xs t rule: toggles.induct) auto

lemma toggles_dispatchEvent:
  "toggles s (announced (dispatchEvent channels role detail (event_of s t) n now)) t"
  by (cases s; cases t) (simp_all add: announced_def alerts_of_dispatchEvent)

lemma toggles_nth:
  "toggles s xs t \<Longrightarrow> i < length xs \<Longrightarrow>
    xs ! i = (if even i = (s = Healthy) then ''UNHEALTHY'' else ''HEALTHY'')"
proof (induction s xs t arbitrary: i rule: toggles.induct)
  case (2 x xs s')
  then show ?case by (cases i) auto
next
  case (3 x xs s')
  then show ?case by (cases i) auto
qed simp

lemma toggles_end: "toggles s xs t \<Longrightarrow> (t = s) = even (length xs)"
  by (induction s xs t rule: toggles.induct) (auto, (metis State.exhaust)+)

text \<open>
  A role's cycle works as long as its invariant grants another one: it does not panic, and it
  announces exactly the change of health it makes.
\<close>

locale alerting_role =
  fixes cycle :: "'s \<Rightarrow> 'i \<Rightarrow> ('s \<times> effect list) option"
    and health :: "'s \<Rightarrow> State"
    and invar :: "nat \<Rightarrow> 's \<Rightarrow> bool"
  assumes cycle_ok: "invar (Suc n) s \<Longrightarrow> \<exists>s' es. cycle s i = Some (s', es) \<and> invar n s'
    \<and> toggles (health s) (announced es) (health s')"
begin

lemma cycles_ok:
  "invar (length ticks) s \<Longrightarrow> \<exists>s' es. go_range (\<lambda>(s, es) i. map_option (\<lambda>(s', es'). (s', es @ es')) (cycle s i)) (s, es0) ticks
      = Some (s', es0 @ es) \<and> invar 0 s' \<and> toggles (health s) (announced es) (health s')"
proof (induction ticks arbitrary: s es0)
  case (Cons i ticks)
  then obtain t es1 where t: "cycle s i = Some (t, es1)" "invar (length ticks) t" "toggles (health s) (announced es1) (health t)"
    using cycle_ok [of "length ticks" s i] by auto
  obtain u es2 where "go_range (\<lambda>(s, es) i. map_option (\<lambda>(s', es'). (s', es @ es')) (cycle s i)) (t, es0 @ es1) ticks
      = Some (u, (es0 @ es1) @ es2)" "invar 0 u" "toggles (health t) (announced es2) (health u)"
    using Cons.IH [OF t(2)] by blast
  with t toggles_append show ?case by fastforce
qed auto

lemma run_alternates:
  assumes "0 < interval" and "invar (length ticks) s"
  shows "\<exists>s' es. run_ticker interval cycle s ticks = Some (s', es) \<and> invar 0 s'
    \<and> toggles (health s) (announced es) (health s')"
  using cycles_ok [OF assms(2), of "[]"] assms(1) by (simp add: run_ticker_def)

end

subsection \<open>The roles\<close>

definition unit_ok :: "StateMachine \<Rightarrow> Registry option \<Rightarrow> bool" where
  "unit_ok sm reg \<longleftrightarrow> sm_inv sm \<and> registry_ok reg"

lemma finishCheck_announces:
  assumes "unit_ok sm reg"
  shows "\<exists>sm' reg' es. finishCheck h channels role detail tms success mbps sm reg = Some (sm', reg', es)
    \<and> unit_ok sm' reg' \<and> toggles (SM_State sm) (announced es) (SM_State sm')"
proof -
  have inv: "sm_inv sm" "registry_ok reg" using assms by (simp_all add: unit_ok_def)
  from finishCheck_ok [OF inv] obtain sm' reg' es where
    f: "finishCheck h channels role detail tms success mbps sm reg = Some (sm', reg', es)"
    and o': "Observe sm (ct_observe tms) success = Some (event_of (m_state sm) (m_state sm'), sm')"
    and ok: "sm_inv sm'" "registry_ok reg'" by blast
  have "toggles (SM_State sm) (announced es) (SM_State sm')"
    using f o' toggles_dispatchEvent
    by (auto simp: finishCheck_def Let_def SM_State_def split: bind_splits if_splits)
  with f ok show ?thesis by (auto simp: unit_ok_def)
qed

text \<open>The end of every cycle: the machine is put back and the cycle's own log lines come first.\<close>

lemma finish_cycle:
  assumes "unit_ok sm reg" and "announced warn = []" and "\<And>x. get (put x) = x"
  shows "\<exists>s' reg' es. Option.bind (finishCheck h channels role detail tms success mbps sm reg)
      (\<lambda>(sm, reg, es). Some ((put sm, reg), warn @ es)) = Some ((s', reg'), es)
    \<and> unit_ok (get s') reg' \<and> toggles (SM_State sm) (announced es) (SM_State (get s'))"
  using finishCheck_announces [OF assms(1), of h channels role detail tms success mbps] assms(2,3) by auto

lemma announced_warn: "announced (case err of None \<Rightarrow> [] | Some e \<Rightarrow> [ELog (f e)]) = []"
  by (simp split: option.splits)

lemma ping_runCheck_ok:
  assumes "unit_ok (pg_sm m) reg"
  shows "\<exists>m' reg' es. ping_runCheck quote env tms m reg = Some ((m', reg'), es) \<and> unit_ok (pg_sm m') reg'
    \<and> toggles (SM_State (pg_sm m)) (announced es) (SM_State (pg_sm m'))"
proof -
  obtain err m1 where pr: "ping_probe quote env m = (err, m1)" by fastforce
  then have sm: "pg_sm m = pg_sm m1" by (auto simp: ping_probe_def Let_def split: option.splits)
  show ?thesis
    using assms unfolding ping_runCheck_def pr Let_def prod.case sm
    by (intro finish_cycle announced_warn) simp_all
qed

lemma url_runCheck_ok:
  assumes "unit_ok (ul_sm m) reg"
  shows "\<exists>m' reg' es. url_runCheck env tms m reg = Some ((m', reg'), es) \<and> unit_ok (ul_sm m') reg'
    \<and> toggles (SM_State (ul_sm m)) (announced es) (SM_State (ul_sm m'))"
  using assms unfolding url_runCheck_def Let_def by (intro finish_cycle announced_warn) simp_all

lemma speed_runCheck_ok:
  assumes "unit_ok (sp_sm s) reg"
  shows "\<exists>s' reg' es. speed_runCheck out tms s reg = Some ((s', reg'), es) \<and> unit_ok (sp_sm s') reg'
    \<and> toggles (SM_State (sp_sm s)) (announced es) (SM_State (sp_sm s'))"
proof -
  have "\<exists>s' reg' es. Option.bind (finishCheck (sp_handle s) (sp_channels s) ''speed_check'' detail tms success mbps (sp_sm s) reg)
      (\<lambda>(sm, reg, es). Some ((s\<lparr>sp_sm := sm\<rparr>, reg), [ELog l] @ es)) = Some ((s', reg'), es)
    \<and> unit_ok (sp_sm s') reg' \<and> toggles (SM_State (sp_sm s)) (announced es) (SM_State (sp_sm s'))" for detail success mbps l
    using assms by (intro finish_cycle) simp_all
  then show ?thesis
    unfolding speed_runCheck_def Let_def by (auto split: sum.splits)
qed

text \<open>The round robin: as long as the counter has not run through its type, the next site exists.\<close>

definition sites_ok :: "nat \<Rightarrow> roleInternetCheck \<Rightarrow> bool" where
  "sites_ok n c \<longleftrightarrow> in_sites c \<noteq> [] \<and> length (in_sites c) < 2 ^ 63 \<and> 0 \<le> in_next c \<and> in_next c + int n < 2 ^ 63"

lemma nextSite_ok:
  assumes "sites_ok (Suc n) c"
  shows "nextSite c = Some (in_sites c ! nat (in_next c mod int (length (in_sites c))), c\<lparr>in_next := in_next c + 1\<rparr>)"
    and "sites_ok n (c\<lparr>in_next := in_next c + 1\<rparr>)"
proof -
  let ?l = "int (length (in_sites c))"
  have l: "0 < ?l" "0 \<le> in_next c" "in_next c + 1 < 2 ^ 63" using assms by (auto simp: sites_ok_def)
  have "go_rem (in_next c) (go_len (in_sites c)) = Some (in_next c mod ?l)"
    using l go_rem_nonneg [of "in_next c" ?l] by (simp add: go_len_def)
  moreover have "go_index (in_sites c) (in_next c mod ?l) = Some (in_sites c ! nat (in_next c mod ?l))"
    using l by (simp add: go_index_def go_len_def)
  moreover have "go_add (in_next c) 1 = in_next c + 1" using l by (simp add: go_simps in_int64_def)
  ultimately show "nextSite c = Some (in_sites c ! nat (in_next c mod ?l), c\<lparr>in_next := in_next c + 1\<rparr>)"
    by (simp add: nextSite_def)
  show "sites_ok n (c\<lparr>in_next := in_next c + 1\<rparr>)" using assms by (simp add: sites_ok_def)
qed

lemma internet_runCheck_ok:
  assumes "unit_ok (in_sm c) reg" and "sites_ok (Suc n) c"
  shows "\<exists>c' reg' es. internet_runCheck env tms c reg = Some ((c', reg'), es) \<and> unit_ok (in_sm c') reg' \<and> sites_ok n c'
    \<and> toggles (SM_State (in_sm c)) (announced es) (SM_State (in_sm c'))"
proof -
  define c1 where "c1 = c\<lparr>in_next := in_next c + 1\<rparr>"
  obtain site where site: "nextSite c = Some (site, c1)" and ok: "sites_ok n c1" "in_sm c1 = in_sm c"
    using nextSite_ok [OF assms(2)] by (simp add: c1_def)
  define warn where "warn = (case checkSite env c1 site of None \<Rightarrow> [] | Some e \<Rightarrow> [ELog (log_line LevelWarn ''internet_check failed''
       [Attr_String ''site'' site, Attr_Error ''error'' e])])"
  have w: "announced warn = []" unfolding warn_def by (rule announced_warn)
  obtain detail success where run: "internet_runCheck env tms c reg =
      Option.bind (finishCheck (in_handle c1) (in_channels c1) ''internet_check'' detail tms success None (in_sm c1) reg)
        (\<lambda>(sm, reg, es). Some ((c1\<lparr>in_sm := sm\<rparr>, reg), warn @ es))"
    unfolding internet_runCheck_def site Let_def warn_def by simp
  obtain sm' reg' es where "finishCheck (in_handle c1) (in_channels c1) ''internet_check'' detail tms success None (in_sm c1) reg = Some (sm', reg', es)"
    "unit_ok sm' reg'" "toggles (SM_State (in_sm c)) (announced es) (SM_State sm')"
    using finishCheck_announces assms(1) ok(2) by metis
  with run w ok show ?thesis by (auto simp: sites_ok_def)
qed

interpretation ping: alerting_role "\<lambda>(m, reg) (env, tms). ping_runCheck quote env tms m reg"
  "\<lambda>(m, reg). SM_State (pg_sm m)" "\<lambda>_ (m, reg). unit_ok (pg_sm m) reg" for quote
  by unfold_locales (use ping_runCheck_ok in \<open>fastforce split: prod.splits\<close>)

interpretation url: alerting_role "\<lambda>(m, reg) (env, tms). url_runCheck env tms m reg"
  "\<lambda>(m, reg). SM_State (ul_sm m)" "\<lambda>_ (m, reg). unit_ok (ul_sm m) reg"
  by unfold_locales (use url_runCheck_ok in \<open>fastforce split: prod.splits\<close>)

interpretation speed: alerting_role "\<lambda>(m, reg) (out, tms). speed_runCheck out tms m reg"
  "\<lambda>(m, reg). SM_State (sp_sm m)" "\<lambda>_ (m, reg). unit_ok (sp_sm m) reg"
  by unfold_locales (use speed_runCheck_ok in \<open>fastforce split: prod.splits\<close>)

interpretation internet: alerting_role "\<lambda>(c, reg) (env, tms). internet_runCheck env tms c reg"
  "\<lambda>(c, reg). SM_State (in_sm c)" "\<lambda>n (c, reg). unit_ok (in_sm c) reg \<and> sites_ok n c"
  by unfold_locales (use internet_runCheck_ok in \<open>fastforce split: prod.splits\<close>)

text \<open>What the run of a role that starts healthy has announced, in closed form.\<close>

definition alternating :: "effect list \<Rightarrow> State \<Rightarrow> bool" where
  "alternating es final \<longleftrightarrow>
     (\<forall>i < length (alerts_of es). al_State (alerts_of es ! i) = (if even i then ''UNHEALTHY'' else ''HEALTHY''))
     \<and> (final = Unhealthy \<longleftrightarrow> odd (length (alerts_of es)))"

lemma toggles_alternating: "toggles Healthy (announced es) final \<Longrightarrow> alternating es final"
proof -
  assume t: "toggles Healthy (announced es) final"
  then have "(final = Healthy) = even (length (alerts_of es))" using toggles_end by (fastforce simp: announced_def)
  then show ?thesis
    using toggles_nth [OF t] by (cases final) (auto simp: alternating_def announced_def)
qed

subsection \<open>New units\<close>

lemma NewWithConfig_unit:
  assumes "mc_WindowSize cfg < 2 ^ 63"
  shows "\<exists>sm. NewWithConfig cfg = Some sm \<and> sm_inv sm \<and> SM_State sm = Healthy"
proof (cases "0 < mc_WindowSize cfg")
  case True
  with assms newWindow_ok [of "mc_WindowSize cfg"] show ?thesis
    by (auto simp: NewWithConfig_def sm_inv_def SM_State_def Let_def)
next
  case False
  then show ?thesis by (simp add: NewWithConfig_def sm_inv_def SM_State_def Let_def)
qed

lemma Register_ok:
  assumes "registry_ok reg"
  shows "\<exists>h reg'. Register reg name = Some (h, reg') \<and> registry_ok reg'"
proof (cases reg)
  case (Some r)
  with assms have "reg_inv r" by (simp add: registry_ok_def)
  with Some Register_new [of r name] Register_again [of r name] show ?thesis
    by (cases "name \<in> unit_names r") (auto simp: registry_ok_def)
qed (simp add: Register_def registry_ok_def)

lemma go_range_build:
  assumes "ok reg" and "\<And>t xs reg. t \<in> set ts \<Longrightarrow> ok reg \<Longrightarrow> \<exists>x reg'. body (xs, reg) t = Some (xs @ [x], reg') \<and> P t x \<and> ok reg'"
  shows "\<exists>ys reg'. go_range body (xs, reg) ts = Some (xs @ ys, reg') \<and> list_all2 P ts ys \<and> ok reg'"
  using assms
proof (induction ts arbitrary: xs reg)
  case (Cons t ts)
  then obtain x r1 where x: "body (xs, reg) t = Some (xs @ [x], r1)" "P t x" "ok r1" by (metis list.set_intros(1))
  obtain ys r2 where "go_range body (xs @ [x], r1) ts = Some ((xs @ [x]) @ ys, r2)" "list_all2 P ts ys" "ok r2"
    using Cons.IH [OF x(3), of "xs @ [x]"] Cons.prems(2) by (metis list.set_intros(2))
  with x show ?case by auto
qed auto

definition ping_unit :: "rolePingTarget \<Rightarrow> pingTargetMonitor \<Rightarrow> bool" where
  "ping_unit t m \<longleftrightarrow> pg_target m = rp_Target t \<and> pg_interval m = rp_Interval t \<and> pg_timeout m = rp_Timeout t
     \<and> pg_channels m = rp_Channels t \<and> NewWithConfig (rp_Mon t) = Some (pg_sm m) \<and> sm_inv (pg_sm m)
     \<and> SM_State (pg_sm m) = Healthy"

definition url_unit :: "roleURLTarget \<Rightarrow> urlTargetMonitor \<Rightarrow> bool" where
  "url_unit t m \<longleftrightarrow> ul_url m = ru_URL t \<and> ul_interval m = ru_Interval t \<and> ul_timeout m = ru_Timeout t
     \<and> ul_channels m = ru_Channels t \<and> ul_client m = NewHTTPClient (ru_Timeout t) (ru_InsecureSkipVerify t)
     \<and> NewWithConfig (ru_Mon t) = Some (ul_sm m) \<and> sm_inv (ul_sm m) \<and> SM_State (ul_sm m) = Healthy"

lemma NewPingMonitor_ok:
  assumes "registry_ok reg" and "\<And>t. t \<in> set ts \<Longrightarrow> mc_WindowSize (rp_Mon t) < 2 ^ 63"
  shows "\<exists>ms reg'. NewPingMonitor ts reg = Some (ms, reg') \<and> list_all2 ping_unit ts ms \<and> registry_ok reg'"
proof -
  have "\<exists>x reg'. (\<lambda>(ms, reg) t. do {
      sm \<leftarrow> NewWithConfig (rp_Mon t);
      (h, reg) \<leftarrow> Register reg (''ping_monitor:'' @ rp_Target t);
      Some (ms @ [\<lparr>pg_target = rp_Target t, pg_interval = rp_Interval t, pg_timeout = rp_Timeout t,
        pg_channels = rp_Channels t, pg_sm = sm, pg_handle = h, pg_idCounter = 0\<rparr>], reg)
    }) (xs, reg) t = Some (xs @ [x], reg') \<and> ping_unit t x \<and> registry_ok reg'"
    if "t \<in> set ts" "registry_ok reg" for t xs reg
    using NewWithConfig_unit [OF assms(2) [OF that(1)]] Register_ok [OF that(2), of "''ping_monitor:'' @ rp_Target t"]
    by (auto simp: ping_unit_def)
  from go_range_build [OF assms(1) this, where xs = "[]"] show ?thesis by (simp add: NewPingMonitor_def)
qed

lemma NewURLMonitor_ok:
  assumes "registry_ok reg" and "\<And>t. t \<in> set ts \<Longrightarrow> mc_WindowSize (ru_Mon t) < 2 ^ 63"
  shows "\<exists>ms reg'. NewURLMonitor ts reg = Some (ms, reg') \<and> list_all2 url_unit ts ms \<and> registry_ok reg'"
proof -
  have "\<exists>x reg'. (\<lambda>(ms, reg) t. do {
      sm \<leftarrow> NewWithConfig (ru_Mon t);
      (h, reg) \<leftarrow> Register reg (''url_monitor:'' @ ru_URL t);
      Some (ms @ [\<lparr>ul_url = ru_URL t, ul_interval = ru_Interval t, ul_timeout = ru_Timeout t,
        ul_channels = ru_Channels t, ul_sm = sm, ul_handle = h,
        ul_client = NewHTTPClient (ru_Timeout t) (ru_InsecureSkipVerify t)\<rparr>], reg)
    }) (xs, reg) t = Some (xs @ [x], reg') \<and> url_unit t x \<and> registry_ok reg'"
    if "t \<in> set ts" "registry_ok reg" for t xs reg
    using NewWithConfig_unit [OF assms(2) [OF that(1)]] Register_ok [OF that(2), of "''url_monitor:'' @ ru_URL t"]
    by (auto simp: url_unit_def)
  from go_range_build [OF assms(1) this, where xs = "[]"] show ?thesis by (simp add: NewURLMonitor_def)
qed

lemma NewInternetCheck_ok:
  assumes "registry_ok reg" and "mc_WindowSize mon < 2 ^ 63"
  shows "\<exists>c reg'. NewInternetCheck sites interval timeout mon channels client reg = Some (c, reg') \<and> registry_ok reg'
    \<and> sm_inv (in_sm c) \<and> SM_State (in_sm c) = Healthy \<and> in_sites c = sites \<and> in_interval c = interval
    \<and> in_channels c = channels \<and> in_next c = 0"
  using NewWithConfig_unit [OF assms(2)] Register_ok [OF assms(1), of "''internet_check''"]
  by (auto simp: NewInternetCheck_def Let_def)

lemma NewSpeedCheck_ok:
  assumes "registry_ok reg" and "mc_WindowSize mon < 2 ^ 63"
  shows "\<exists>s reg'. NewSpeedCheck binary interval threshold mon channels reg = Some (s, reg') \<and> registry_ok reg'
    \<and> sm_inv (sp_sm s) \<and> SM_State (sp_sm s) = Healthy \<and> sp_interval s = interval \<and> sp_threshold s = threshold
    \<and> sp_channels s = channels"
  using NewWithConfig_unit [OF assms(2)] Register_ok [OF assms(1), of "''speed_check''"]
  by (auto simp: NewSpeedCheck_def)

subsection \<open>Properties\<close>

lemma run_alternating:
  assumes "\<exists>s' es. run = Some (s', es) \<and> I s' \<and> toggles Healthy (announced es) (hl s')"
  shows "\<exists>s' es. run = Some (s', es) \<and> alternating es (hl s')"
  using assms toggles_alternating by blast

definition example_unit :: StateMachine where
  "example_unit = \<lparr>m_failureThreshold = 1, m_trigger = TriggerConsecutive, m_minAvailability = Fin 0,
     m_state = Healthy, m_consecutive = 0, m_window = None, m_lastSuccess = 0, m_now = None\<rparr>"

lemma example_unit_ok: "unit_ok example_unit None" "SM_State example_unit = Healthy"
  by (simp_all add: unit_ok_def example_unit_def sm_inv_def registry_ok_def SM_State_def)

text \<open>From any healthy start the alerts alternate: UNHEALTHY first, then HEALTHY, and so on.\<close>

lemma roles_alerts_alternate:
  assumes "registry_ok reg"
    and "sm_inv (pg_sm m)" "SM_State (pg_sm m) = Healthy" "0 < pg_interval m"
    and "sm_inv (ul_sm u)" "SM_State (ul_sm u) = Healthy" "0 < ul_interval u"
    and "sm_inv (sp_sm s)" "SM_State (sp_sm s) = Healthy" "0 < sp_interval s"
  shows "(\<exists>m' reg' es. ping_run quote (m, reg) pticks = Some ((m', reg'), es) \<and> alternating es (SM_State (pg_sm m')))
    \<and> (\<exists>u' reg' es. url_run (u, reg) uticks = Some ((u', reg'), es) \<and> alternating es (SM_State (ul_sm u')))
    \<and> (\<exists>s' reg' es. speed_run (s, reg) sticks = Some ((s', reg'), es) \<and> alternating es (SM_State (sp_sm s')))"
  using ping.run_alternates [of "pg_interval m" "(m, reg)" quote pticks]
    url.run_alternates [of "ul_interval u" "(u, reg)" uticks]
    speed.run_alternates [of "sp_interval s" "(s, reg)" sticks] assms
  by (auto simp: ping_run_def url_run_def speed_run_def unit_ok_def intro!: toggles_alternating)

text \<open>
  The internet check probes its sites in turn: for any number of cycles below the range of
  its counter, the \<open>k\<close>-th cycle probes site \<open>k mod n\<close>, no cycle panics, and the alerts alternate.
\<close>

lemma internet_round_robin:
  assumes "in_sites c \<noteq> []" and "length (in_sites c) < 2 ^ 63" and "in_next c = 0" and "length ticks < 2 ^ 63"
    and "registry_ok reg" and "sm_inv (in_sm c)" and "SM_State (in_sm c) = Healthy" and "0 < in_interval c"
  shows "(\<exists>c'. run_events (\<lambda>c _. nextSite c) c ticks =
      Some (map (\<lambda>k. in_sites c ! (k mod length (in_sites c))) [0..<length ticks], c'))
    \<and> (\<exists>c' reg' es. internet_run (c, reg) ticks = Some ((c', reg'), es) \<and> alternating es (SM_State (in_sm c')))"
proof
  have "run_events (\<lambda>c _. nextSite c) c (take k ticks) =
      Some (map (\<lambda>i. in_sites c ! (i mod length (in_sites c))) [0..<k], c\<lparr>in_next := int k\<rparr>)" if "k \<le> length ticks" for k
    using that
  proof (induction k)
    case 0
    then show ?case using assms(3) by simp
  next
    case (Suc k)
    have "sites_ok (Suc 0) (c\<lparr>in_next := int k\<rparr>)" using assms Suc.prems by (simp add: sites_ok_def)
    from nextSite_ok(1) [OF this] Suc show ?case
      by (simp add: take_Suc_conv_app_nth run_events_snoc zmod_int [symmetric] add.commute)
  qed
  from this [of "length ticks"] show "\<exists>c'. run_events (\<lambda>c _. nextSite c) c ticks =
      Some (map (\<lambda>k. in_sites c ! (k mod length (in_sites c))) [0..<length ticks], c')" by simp
  have "sites_ok (length ticks) c" using assms by (simp add: sites_ok_def)
  then show "\<exists>c' reg' es. internet_run (c, reg) ticks = Some ((c', reg'), es) \<and> alternating es (SM_State (in_sm c'))"
    using internet.run_alternates [of "in_interval c" ticks "(c, reg)"] assms
    by (auto simp: internet_run_def unit_ok_def intro!: toggles_alternating)
qed

definition example_internet :: roleInternetCheck where
  "example_internet = \<lparr>in_sites = [''a'', ''b''], in_interval = 1, in_timeout = 1, in_channels = [], in_sm = example_unit,
     in_handle = None, in_client = NewHTTPClient 1 False, in_next = 0\<rparr>"

text \<open>
  C25. A check cycle touches only its own unit in the registry: its status becomes the machine's,
  the result (and the speed, if one was measured) is appended to its bounded history, and every
  other unit and the order of registration stay as they were. These are exactly the cycle's
  registry operations, so they interleave with those of other units.
\<close>

theorem cycle_footprint:
  assumes "reg_inv r" and "hd_name h \<in> unit_names r" and "sm_inv sm"
  shows "\<exists>sm' r' es. finishCheck (Some h) channels role detail tms success mbps sm (Some r) = Some (sm', Some r', es)
    \<and> go_range reg_step r (cycle_ops (hd_name h) tms success mbps sm') = Some r'
    \<and> reg_inv r' \<and> reg_order r' = reg_order r
    \<and> reg_units r' = (reg_units r)(hd_name h \<mapsto> \<lparr>us_Name = hd_name h, us_State = SM_State sm', us_HasWindow = HasWindow sm',
         us_Availability = Availability sm', us_Consecutive = ConsecutiveFailures sm', us_LastSuccess = LastSuccess sm'\<rparr>)
    \<and> unit_checks r' = (unit_checks r)(hd_name h := lastn (nat historyCap)
         (unit_checks r (hd_name h) @ [\<lparr>cs_Time = ct_record tms, cs_Success = success\<rparr>]))
    \<and> unit_speeds r' = (case mbps of None \<Rightarrow> unit_speeds r | Some v \<Rightarrow> (unit_speeds r)(hd_name h := lastn (nat historyCap)
         (unit_speeds r (hd_name h) @ [\<lparr>ss_Time = ct_record tms, ss_Mbps = v\<rparr>])))"
proof -
  let ?n = "hd_name h"
  obtain sm' reg' es where f: "finishCheck (Some h) channels role detail tms success mbps sm (Some r) = Some (sm', reg', es)"
    using finishCheck_ok [OF assms(3), of "Some r"] assms(1) by (force simp: registry_ok_def)
  define u where "u = \<lparr>us_Name = ?n, us_State = SM_State sm', us_HasWindow = HasWindow sm',
    us_Availability = Availability sm', us_Consecutive = ConsecutiveFailures sm', us_LastSuccess = LastSuccess sm'\<rparr>"
  have r1: "reg_inv (Registry_set r u)" "reg_order (Registry_set r u) = reg_order r" "unit_checks (Registry_set r u) = unit_checks r"
    "unit_speeds (Registry_set r u) = unit_speeds r" "reg_units (Registry_set r u) = (reg_units r)(?n \<mapsto> u)"
    using Registry_set_ok [OF assms(1), of u] assms(2) by (simp_all add: u_def)
  have n1: "?n \<in> unit_names (Registry_set r u)" using assms(2) r1(2) by (simp add: unit_names_def)
  obtain r2 where r2: "recordCheck (Registry_set r u) ?n (ct_record tms) success = Some r2" "reg_inv r2" "reg_order r2 = reg_order r"
    "reg_units r2 = (reg_units r)(?n \<mapsto> u)" "unit_speeds r2 = unit_speeds r"
    "unit_checks r2 = (unit_checks r)(?n := lastn (nat historyCap) (unit_checks r ?n @ [\<lparr>cs_Time = ct_record tms, cs_Success = success\<rparr>]))"
    using recordCheck_ok [OF r1(1), of ?n "ct_record tms" success] r1 n1 by auto
  have n2: "?n \<in> unit_names r2" using assms(2) r2(3) by (simp add: unit_names_def)
  have fin: "reg' = go_range reg_step r (cycle_ops ?n tms success mbps sm')" by (rule finishCheck_registry [OF f])
  show ?thesis
  proof (cases mbps)
    case None
    then have "reg' = Some r2" using fin r2(1) by (simp add: cycle_ops_def reg_step_def u_def)
    with f fin [symmetric] r2 None show ?thesis by (auto simp: u_def)
  next
    case (Some v)
    obtain r3 where r3: "recordSpeed r2 ?n (ct_record tms) v = Some r3" "reg_inv r3" "reg_order r3 = reg_order r"
      "reg_units r3 = (reg_units r)(?n \<mapsto> u)" "unit_checks r3 = unit_checks r2"
      "unit_speeds r3 = (unit_speeds r)(?n := lastn (nat historyCap) (unit_speeds r ?n @ [\<lparr>ss_Time = ct_record tms, ss_Mbps = v\<rparr>]))"
      using recordSpeed_ok [OF r2(2), of ?n "ct_record tms" v] r2 n2 by auto
    then have "reg' = Some r3" using fin r2(1) Some by (simp add: cycle_ops_def reg_step_def u_def)
    with f fin [symmetric] r2 r3 Some show ?thesis by (auto simp: u_def)
  qed
qed

theorem cycle_footprint_witness:
  "\<exists>r sm' r' es. Register (Some NewRegistry) ''a'' = Some (Some \<lparr>hd_name = ''a''\<rparr>, Some r)
    \<and> finishCheck (Some \<lparr>hd_name = ''a''\<rparr>) [] ''ping_monitor'' ''d'' \<lparr>ct_observe = 1, ct_record = 2, ct_alert = 3\<rparr> False None
        example_unit (Some r) = Some (sm', Some r', es)
    \<and> unit_checks r' ''a'' = [\<lparr>cs_Time = 2, cs_Success = False\<rparr>]"
proof -
  have "''a'' \<notin> unit_names NewRegistry" by (simp add: unit_names_def NewRegistry_def)
  from Register_new [OF NewRegistry_inv this] obtain r
    where r: "Register (Some NewRegistry) ''a'' = Some (Some \<lparr>hd_name = ''a''\<rparr>, Some r)" "reg_inv r"
      "reg_order r = reg_order NewRegistry @ [''a'']" "unit_checks r = (unit_checks NewRegistry)(''a'' := [])" by blast
  have "hd_name \<lparr>hd_name = ''a''\<rparr> \<in> unit_names r" using r(3) by (simp add: unit_names_def)
  from cycle_footprint [OF r(2) this, of example_unit "[]" "''ping_monitor''" "''d''"
    "\<lparr>ct_observe = 1, ct_record = 2, ct_alert = 3\<rparr>" False None] example_unit_ok r
  show ?thesis by (auto simp: unit_ok_def lastn_def historyCap_def)
qed

end
