(* ===== verification/MonitorRun.thy ===== *)
theory MonitorRun
  imports Roles
begin

text \<open>
  \<open>PingMonitor.Run\<close> and \<open>URLMonitor.Run\<close> of \<^verbatim>\<open>internal/roles\<close>: one goroutine for each target, all of
  them sharing the registry, joined by a wait group. The interleaving is a step relation in which a
  goroutine makes one registry operation at a time (each holds the registry's mutex); a panic in any
  of them ends the process.
\<close>

subsection \<open>A check in stages\<close>

text \<open>
  What \<open>runCheck\<close> does between two accesses to shared state: the probe and the state machine are
  the goroutine's own; then its registry operations follow one by one; the snapshot it logs on a
  transition reads the registry as it is by then, and the alert is dispatched.
\<close>

type_synonym 'm stages = "'m \<times> effect list \<times> RegOp list \<times> (Registry option \<Rightarrow> effect list)"

definition update_status :: "string \<Rightarrow> StateMachine \<Rightarrow> UnitStatus" where
  "update_status name sm = \<lparr>us_Name = name, us_State = SM_State sm, us_HasWindow = HasWindow sm,
     us_Availability = Availability sm, us_Consecutive = ConsecutiveFailures sm, us_LastSuccess = LastSuccess sm\<rparr>"

definition check_stages ::
  "Handle option \<Rightarrow> string list \<Rightarrow> string \<Rightarrow> string \<Rightarrow> check_times \<Rightarrow> bool \<Rightarrow> StateMachine \<Rightarrow> StateMachine stages option" where
  "check_stages h channels role detail tms success sm = do {
     (ev, sm) \<leftarrow> Observe sm (ct_observe tms) success;
     Some (sm, [],
       (case h of None \<Rightarrow> [] | Some h \<Rightarrow> [OpSet (update_status (hd_name h) sm), OpCheck (hd_name h) (ct_record tms) success]),
       (\<lambda>reg. (if ev \<noteq> NoEvent then map ELog (Handle_LogSnapshot h reg True) else [])
          @ dispatchEvent channels role detail ev (ConsecutiveFailures sm) (ct_alert tms)))
   }"

definition ping_stages ::
  "(string \<Rightarrow> string) \<Rightarrow> ping_env \<times> check_times \<Rightarrow> pingTargetMonitor \<Rightarrow> pingTargetMonitor stages option" where
  "ping_stages quote inp m = (
     let (env, tms) = inp;
         (err, m) = ping_probe quote env m;
         detail = (case err of
             None \<Rightarrow> ''ping to '' @ pg_target m @ '' succeeded''
           | Some e \<Rightarrow> ''ping to '' @ pg_target m @ '' failed: '' @ e);
         warn = (case err of None \<Rightarrow> [] | Some e \<Rightarrow> [ELog (log_line LevelWarn ''ping_monitor check failed''
           [Attr_String ''target'' (pg_target m), Attr_Error ''error'' e])])
     in map_option (\<lambda>(sm, _, ops, post). (m\<lparr>pg_sm := sm\<rparr>, warn, ops, post))
          (check_stages (pg_handle m) (pg_channels m) ''ping_monitor'' detail tms (err = None) (pg_sm m)))"

definition url_stages :: "get_env \<times> check_times \<Rightarrow> urlTargetMonitor \<Rightarrow> urlTargetMonitor stages option" where
  "url_stages inp m = (
     let (env, tms) = inp;
         err = url_probe env m;
         detail = (case err of None \<Rightarrow> ul_url m @ '' healthy'' | Some e \<Rightarrow> ul_url m @ '' unhealthy: '' @ e);
         warn = (case err of None \<Rightarrow> [] | Some e \<Rightarrow> [ELog (log_line LevelWarn ''url_monitor check failed''
           [Attr_String ''url'' (ul_url m), Attr_Error ''error'' e])])
     in map_option (\<lambda>(sm, _, ops, post). (m\<lparr>ul_sm := sm\<rparr>, warn, ops, post))
          (check_stages (ul_handle m) (ul_channels m) ''url_monitor'' detail tms (err = None) (ul_sm m)))"

text \<open>An operation through a handle; without a registry it does nothing.\<close>

definition handle_step :: "Registry option \<Rightarrow> RegOp \<Rightarrow> Registry option option" where
  "handle_step reg op = (case reg of None \<Rightarrow> Some None | Some r \<Rightarrow> map_option Some (reg_step r op))"

subsection \<open>Run\<close>

datatype 'm goroutine =
    Unspawned 'm
  | Spawned 'm                                                  \<comment> \<open>before \<open>time.NewTicker\<close>\<close>
  | Selecting 'm                                                \<comment> \<open>in the select of \<open>run\<close>\<close>
  | Checking 'm "RegOp list" "Registry option \<Rightarrow> effect list"   \<comment> \<open>in \<open>runCheck\<close>, with what is left of it\<close>
  | Exited 'm

datatype run_state = Spawning nat | WaitGroup | RunReturned | Crashed

record 'm monitor_run =
  mr_main :: run_state
  mr_gos :: "'m goroutine list"
  mr_reg :: "Registry option"
  mr_cancelled :: bool

definition monitor_run_start :: "'m list \<Rightarrow> Registry option \<Rightarrow> 'm monitor_run" where
  "monitor_run_start ms reg = \<lparr>mr_main = Spawning 0, mr_gos = map Unspawned ms, mr_reg = reg, mr_cancelled = False\<rparr>"

abbreviation set_go :: "'m monitor_run \<Rightarrow> nat \<Rightarrow> 'm goroutine \<Rightarrow> 'm monitor_run" where
  "set_go s i g \<equiv> s\<lparr>mr_gos := (mr_gos s)[i := g]\<rparr>"

datatype 'i run_label =
    RSpawn nat | RTicker nat
  | RTick nat 'i "effect list" | ROp nat RegOp | RDone nat "effect list"
  | RExit nat | RCancel | RWait | RReturn | RPanic

definition alive :: "'m monitor_run \<Rightarrow> nat \<Rightarrow> 'm goroutine \<Rightarrow> bool" where
  "alive s i g \<longleftrightarrow> mr_main s \<noteq> Crashed \<and> i < length (mr_gos s) \<and> mr_gos s ! i = g"

inductive monitor_step ::
  "('m \<Rightarrow> duration) \<Rightarrow> ('i \<Rightarrow> 'm \<Rightarrow> 'm stages option) \<Rightarrow> 'm monitor_run \<Rightarrow> 'i run_label \<Rightarrow> 'm monitor_run \<Rightarrow> bool"
  for interval :: "'m \<Rightarrow> duration" and check :: "'i \<Rightarrow> 'm \<Rightarrow> 'm stages option" where
  spawn: "mr_main s = Spawning i \<Longrightarrow> alive s i (Unspawned m) \<Longrightarrow>
    monitor_step interval check s (RSpawn i) ((set_go s i (Spawned m))\<lparr>mr_main := Spawning (Suc i)\<rparr>)"
| wait: "mr_main s = Spawning (length (mr_gos s)) \<Longrightarrow> monitor_step interval check s RWait (s\<lparr>mr_main := WaitGroup\<rparr>)"
| ticker: "alive s i (Spawned m) \<Longrightarrow> 0 < interval m \<Longrightarrow> monitor_step interval check s (RTicker i) (set_go s i (Selecting m))"
| ticker_panics: "alive s i (Spawned m) \<Longrightarrow> interval m \<le> 0 \<Longrightarrow> monitor_step interval check s RPanic (s\<lparr>mr_main := Crashed\<rparr>)"
| tick: "alive s i (Selecting m) \<Longrightarrow> check inp m = Some (m', warn, ops, post) \<Longrightarrow>
    monitor_step interval check s (RTick i inp warn) (set_go s i (Checking m' ops post))"
| tick_panics: "alive s i (Selecting m) \<Longrightarrow> check inp m = None \<Longrightarrow> monitor_step interval check s RPanic (s\<lparr>mr_main := Crashed\<rparr>)"
| op: "alive s i (Checking m (op # ops) post) \<Longrightarrow> handle_step (mr_reg s) op = Some reg \<Longrightarrow>
    monitor_step interval check s (ROp i op) ((set_go s i (Checking m ops post))\<lparr>mr_reg := reg\<rparr>)"
| op_panics: "alive s i (Checking m (op # ops) post) \<Longrightarrow> handle_step (mr_reg s) op = None \<Longrightarrow>
    monitor_step interval check s RPanic (s\<lparr>mr_main := Crashed\<rparr>)"
| checked: "alive s i (Checking m [] post) \<Longrightarrow>
    monitor_step interval check s (RDone i (post (mr_reg s))) (set_go s i (Selecting m))"
| exit: "alive s i (Selecting m) \<Longrightarrow> mr_cancelled s \<Longrightarrow> monitor_step interval check s (RExit i) (set_go s i (Exited m))"
| cancel: "mr_main s \<noteq> Crashed \<Longrightarrow> \<not> mr_cancelled s \<Longrightarrow> monitor_step interval check s RCancel (s\<lparr>mr_cancelled := True\<rparr>)"
| returns: "mr_main s = WaitGroup \<Longrightarrow> (\<forall>g \<in> set (mr_gos s). \<exists>m. g = Exited m) \<Longrightarrow>
    monitor_step interval check s RReturn (s\<lparr>mr_main := RunReturned\<rparr>)"

inductive monitor_steps ::
  "('m \<Rightarrow> duration) \<Rightarrow> ('i \<Rightarrow> 'm \<Rightarrow> 'm stages option) \<Rightarrow> 'm monitor_run \<Rightarrow> 'i run_label list \<Rightarrow> 'm monitor_run \<Rightarrow> bool"
  for interval :: "'m \<Rightarrow> duration" and check :: "'i \<Rightarrow> 'm \<Rightarrow> 'm stages option" where
  start: "monitor_steps interval check s [] s"
| step: "monitor_steps interval check s ls t \<Longrightarrow> monitor_step interval check t l u \<Longrightarrow> monitor_steps interval check s (ls @ [l]) u"

text \<open>The two roles.\<close>

definition PingMonitor_Run ::
  "(string \<Rightarrow> string) \<Rightarrow> pingTargetMonitor list \<Rightarrow> Registry option \<Rightarrow> (ping_env \<times> check_times) run_label list \<Rightarrow>
    pingTargetMonitor monitor_run \<Rightarrow> bool" where
  "PingMonitor_Run quote ms reg = monitor_steps pg_interval (ping_stages quote) (monitor_run_start ms reg)"

definition URLMonitor_Run ::
  "urlTargetMonitor list \<Rightarrow> Registry option \<Rightarrow> (get_env \<times> check_times) run_label list \<Rightarrow> urlTargetMonitor monitor_run \<Rightarrow> bool" where
  "URLMonitor_Run ms reg = monitor_steps ul_interval url_stages (monitor_run_start ms reg)"

end
