(* ===== verification/MonitorRunSpec.thy ===== *)
theory MonitorRunSpec
  imports MonitorRun RolesSpec
begin

text \<open>
  What the per-target goroutines promise under every schedule: each target is monitored exactly as
  if it were alone (its state machine, the alerts it dispatches, its part of the registry), and the
  role returns once its context is cancelled.
\<close>

subsection \<open>What a target dispatches\<close>

definition dispatches :: "effect list \<Rightarrow> (Alert \<times> string list) list" where
  "dispatches es = concat (map (\<lambda>e. case e of EDispatch a cs \<Rightarrow> [(a, cs)] | ELog _ \<Rightarrow> []) es)"

lemma dispatches_simps [simp]:
  "dispatches [] = []" "dispatches (xs @ ys) = dispatches xs @ dispatches ys"
  "dispatches (ELog l # es) = dispatches es" "dispatches (EDispatch a cs # es) = (a, cs) # dispatches es"
  "dispatches (map ELog ls) = []"
  by (simp_all add: dispatches_def)

lemma alerts_of_dispatches: "alerts_of es = map fst (dispatches es)"
  by (induction es) (auto simp: alerts_of_def dispatches_def split: effect.splits)

subsection \<open>A unit's part of the registry\<close>

type_synonym unit_view = "UnitStatus option \<times> CheckSample list \<times> SpeedSample list"

definition unit_view :: "Registry \<Rightarrow> string \<Rightarrow> unit_view" where
  "unit_view r n = (reg_units r n, unit_checks r n, unit_speeds r n)"

fun op_unit :: "RegOp \<Rightarrow> string" where
  "op_unit (OpRegister n) = n"
| "op_unit (OpSet u) = us_Name u"
| "op_unit (OpCheck n _ _) = n"
| "op_unit (OpSpeed n _ _) = n"

fun view_op :: "unit_view \<Rightarrow> RegOp \<Rightarrow> unit_view" where
  "view_op v (OpRegister _) = v"
| "view_op (u, cs, ss) (OpSet u') = (Some u', cs, ss)"
| "view_op (u, cs, ss) (OpCheck _ t b) = (u, lastn (nat historyCap) (cs @ [\<lparr>cs_Time = t, cs_Success = b\<rparr>]), ss)"
| "view_op (u, cs, ss) (OpSpeed _ t v) = (u, cs, lastn (nat historyCap) (ss @ [\<lparr>ss_Time = t, ss_Mbps = v\<rparr>]))"

lemma reg_step_view:
  assumes "reg_inv r" and "n \<in> unit_names r"
  shows "\<exists>r'. reg_step r op = Some r' \<and> reg_inv r' \<and> n \<in> unit_names r'
    \<and> unit_view r' n = (if op_unit op = n then view_op (unit_view r n) op else unit_view r n)"
proof (cases op)
  case (OpRegister k)
  then show ?thesis
    using Register_again [OF assms(1), of k] Register_new [OF assms(1), of k] assms
    by (cases "k \<in> unit_names r") (auto simp: reg_step_def unit_view_def unit_names_def)
next
  case (OpSet u)
  then show ?thesis using Registry_set_ok [OF assms(1), of u] assms
    by (auto simp: reg_step_def unit_view_def unit_names_def)
next
  case (OpCheck k t b)
  then show ?thesis using recordCheck_ok [OF assms(1), of k t b] assms
    by (auto simp: reg_step_def unit_view_def unit_names_def)
next
  case (OpSpeed k t v)
  then show ?thesis using recordSpeed_ok [OF assms(1), of k t v] assms
    by (auto simp: reg_step_def unit_view_def unit_names_def)
qed

lemma reg_steps_view:
  assumes "reg_inv r" and "n \<in> unit_names r"
  shows "\<exists>r'. go_range reg_step r ops = Some r' \<and> reg_inv r'
    \<and> unit_view r' n = foldl view_op (unit_view r n) (filter (\<lambda>op. op_unit op = n) ops)"
  using assms
proof (induction ops arbitrary: r)
  case (Cons op ops)
  from reg_step_view [OF Cons.prems, of op] obtain r1 where r1: "reg_step r op = Some r1" "reg_inv r1" "n \<in> unit_names r1"
    "unit_view r1 n = (if op_unit op = n then view_op (unit_view r n) op else unit_view r n)" by blast
  from Cons.IH [OF r1(2,3)] r1 show ?case by auto
qed auto

lemma handle_step_ok:
  assumes "registry_ok reg"
  shows "\<exists>reg'. handle_step reg op = Some reg' \<and> registry_ok reg'"
proof (cases reg)
  case (Some r)
  with assms reg_step_ok [of r op] show ?thesis by (auto simp: handle_step_def registry_ok_def)
qed (simp add: handle_step_def registry_ok_def)

lemma handle_steps_ok:
  "registry_ok reg \<Longrightarrow> \<exists>reg'. go_range handle_step reg ops = Some reg' \<and> registry_ok reg'"
proof (induction ops arbitrary: reg)
  case (Cons op ops)
  with handle_step_ok [OF Cons.prems, of op] show ?case by auto
qed simp

lemma handle_steps_Some: "go_range handle_step (Some r) ops = map_option Some (go_range reg_step r ops)"
proof (induction ops arbitrary: r)
  case (Cons op ops)
  then show ?case by (cases "reg_step r op") (simp_all add: handle_step_def)
qed simp

subsection \<open>Reading a schedule\<close>

definition ticks_of :: "nat \<Rightarrow> 'i run_label list \<Rightarrow> 'i list" where
  "ticks_of i ls = concat (map (\<lambda>l. case l of RTick j inp _ \<Rightarrow> if j = i then [inp] else [] | _ \<Rightarrow> []) ls)"

definition effects_of :: "nat \<Rightarrow> 'i run_label list \<Rightarrow> effect list" where
  "effects_of i ls = concat (map (\<lambda>l. case l of RTick j _ es \<Rightarrow> if j = i then es else []
     | RDone j es \<Rightarrow> if j = i then es else [] | _ \<Rightarrow> []) ls)"

definition ops_of :: "'i run_label list \<Rightarrow> (nat \<times> RegOp) list" where
  "ops_of ls = concat (map (\<lambda>l. case l of ROp j op \<Rightarrow> [(j, op)] | _ \<Rightarrow> []) ls)"

definition own_ops :: "nat \<Rightarrow> (nat \<times> RegOp) list \<Rightarrow> RegOp list" where
  "own_ops i jops = map snd (filter (\<lambda>(j, _). j = i) jops)"

lemma schedule_simps [simp]:
  "ticks_of i [] = []" "ticks_of i (ls @ [l]) = ticks_of i ls @ (case l of RTick j inp _ \<Rightarrow> if j = i then [inp] else [] | _ \<Rightarrow> [])"
  "effects_of i [] = []" "effects_of i (ls @ [l]) = effects_of i ls @ (case l of RTick j _ es \<Rightarrow> if j = i then es else []
     | RDone j es \<Rightarrow> if j = i then es else [] | _ \<Rightarrow> [])"
  "ops_of [] = []" "ops_of (ls @ [l]) = ops_of ls @ (case l of ROp j op \<Rightarrow> [(j, op)] | _ \<Rightarrow> [])"
  "own_ops i [] = []" "own_ops i (jops @ [(j, op)]) = own_ops i jops @ (if j = i then [op] else [])"
  by (simp_all add: ticks_of_def effects_of_def ops_of_def own_ops_def)

fun mon_of :: "'m goroutine \<Rightarrow> 'm" where
  "mon_of (Unspawned m) = m" | "mon_of (Spawned m) = m" | "mon_of (Selecting m) = m"
| "mon_of (Checking m _ _) = m" | "mon_of (Exited m) = m"

text \<open>What is left of the check a goroutine is in.\<close>

fun left_ops :: "'m goroutine \<Rightarrow> RegOp list" where
  "left_ops (Checking _ ops _) = ops" | "left_ops _ = []"

fun left_alerts :: "'m goroutine \<Rightarrow> (Alert \<times> string list) list" where
  "left_alerts (Checking _ _ post) = dispatches (post None)" | "left_alerts _ = []"

fun in_check :: "'m goroutine \<Rightarrow> bool" where
  "in_check (Checking _ _ _) = True" | "in_check _ = False"

lemma not_in_check [simp]: "\<not> in_check g \<Longrightarrow> left_ops g = []" "\<not> in_check g \<Longrightarrow> left_alerts g = []"
  by (cases g; simp)+

text \<open>The checks of one target on its own: the monitor at the end, all its registry operations and alerts.\<close>

definition solo ::
  "('i \<Rightarrow> 'm \<Rightarrow> 'm stages option) \<Rightarrow> 'm \<Rightarrow> 'i list \<Rightarrow> ('m \<times> RegOp list \<times> (Alert \<times> string list) list) option" where
  "solo check m inps = go_range (\<lambda>(m, opss, as) inp. map_option (\<lambda>(m', warn, ops, post).
     (m', opss @ ops, as @ dispatches (post None))) (check inp m)) (m, [], []) inps"

lemma solo_Nil [simp]: "solo check m [] = Some (m, [], [])"
  by (simp add: solo_def)

lemma solo_snoc:
  assumes "solo check m inps = Some (m1, ops1, as1)" and "check inp m1 = Some (m2, warn, ops, post)"
  shows "solo check m (inps @ [inp]) = Some (m2, ops1 @ ops, as1 @ dispatches (post None))"
  using assms by (simp add: solo_def go_range_append)

subsection \<open>The contract of a staged check\<close>

text \<open>What the end of a check dispatches is the same whatever the registry holds.\<close>

definition steady :: "(Registry option \<Rightarrow> effect list) \<Rightarrow> bool" where
  "steady post \<longleftrightarrow> (\<forall>reg reg'. dispatches (post reg) = dispatches (post reg'))"

lemma steadyD: "steady post \<Longrightarrow> dispatches (post reg) = dispatches (post reg')"
  unfolding steady_def by blast

text \<open>
  \<open>cycle\<close> is the check as one step, \<open>check\<close> the same in stages; \<open>name\<close> is the unit it writes to. A
  check of a good monitor does not panic, writes to its own unit only, and what it dispatches does
  not depend on the registry.
\<close>

locale staged_role =
  fixes check :: "'i \<Rightarrow> 'm \<Rightarrow> 'm stages option"
    and cycle :: "'m \<times> Registry option \<Rightarrow> 'i \<Rightarrow> (('m \<times> Registry option) \<times> effect list) option"
    and interval :: "'m \<Rightarrow> duration"
    and name :: "'m \<Rightarrow> string"
    and invar :: "'m \<Rightarrow> bool"
  assumes check_ok: "invar m \<Longrightarrow> \<exists>m' warn ops post. check inp m = Some (m', warn, ops, post) \<and> invar m'
      \<and> name m' = name m \<and> dispatches warn = [] \<and> (\<forall>op \<in> set ops. op_unit op = name m)
      \<and> steady post"
    and cycle_stages: "cycle (m, reg) inp = Option.bind (check inp m) (\<lambda>(m', warn, ops, post).
      Option.bind (go_range handle_step reg ops) (\<lambda>reg'. Some ((m', reg'), warn @ post reg')))"
begin

text \<open>The goroutine of the target \<open>m\<close> after the part \<open>ls\<close> of a schedule.\<close>

definition go_inv :: "nat \<Rightarrow> 'm \<Rightarrow> 'i run_label list \<Rightarrow> 'm goroutine \<Rightarrow> bool" where
  "go_inv i m ls g \<longleftrightarrow> invar (mon_of g) \<and> name (mon_of g) = name m
     \<and> solo check m (ticks_of i ls) = Some (mon_of g, own_ops i (ops_of ls) @ left_ops g, dispatches (effects_of i ls) @ left_alerts g)
     \<and> (\<forall>op \<in> set (left_ops g). op_unit op = name m)
     \<and> (\<forall>m' ops post. g = Checking m' ops post \<longrightarrow> steady post)"

definition run_inv :: "'m list \<Rightarrow> Registry option \<Rightarrow> 'i run_label list \<Rightarrow> 'm monitor_run \<Rightarrow> bool" where
  "run_inv ms reg ls s \<longleftrightarrow> mr_main s \<noteq> Crashed \<and> length (mr_gos s) = length ms
     \<and> (\<forall>i < length ms. go_inv i (ms ! i) ls (mr_gos s ! i) \<and> (\<forall>m. mr_gos s ! i = Spawned m \<or> mr_gos s ! i = Unspawned m \<longrightarrow> m = ms ! i))
     \<and> go_range handle_step reg (map snd (ops_of ls)) = Some (mr_reg s) \<and> registry_ok (mr_reg s)
     \<and> (\<forall>(j, op) \<in> set (ops_of ls). j < length ms \<and> op_unit op = name (ms ! j))"

lemma run_inv_start:
  assumes "\<forall>m \<in> set ms. invar m" and "registry_ok reg"
  shows "run_inv ms reg [] (monitor_run_start ms reg)"
  using assms by (simp add: run_inv_def go_inv_def monitor_run_start_def)

text \<open>A label leaves the goroutines it does not name as they are.\<close>

lemma go_inv_other:
  assumes "go_inv k m ls g"
    and "case l of RTick j _ _ \<Rightarrow> j \<noteq> k | ROp j _ \<Rightarrow> j \<noteq> k | RDone j _ \<Rightarrow> j \<noteq> k | _ \<Rightarrow> True"
  shows "go_inv k m (ls @ [l]) g"
  using assms by (auto simp: go_inv_def split: run_label.splits)

lemma tick_inv:
  assumes "go_inv i m0 ls (Selecting m)" and "check inp m = Some (m', warn, ops, post)"
  shows "go_inv i m0 (ls @ [RTick i inp warn]) (Checking m' ops post)"
proof -
  have inv: "invar m" "name m = name m0" and so: "solo check m0 (ticks_of i ls) = Some (m, own_ops i (ops_of ls), dispatches (effects_of i ls))"
    using assms(1) by (simp_all add: go_inv_def)
  from check_ok [OF inv(1), of inp] assms(2) inv(2) have "invar m'" "name m' = name m0" "dispatches warn = []"
    "\<forall>op \<in> set ops. op_unit op = name m0" "steady post" by auto
  with solo_snoc [OF so assms(2)] show ?thesis by (simp add: go_inv_def)
qed

lemma op_inv:
  assumes "go_inv i m0 ls (Checking m (op # ops) post)"
  shows "go_inv i m0 (ls @ [ROp i op]) (Checking m ops post)" and "op_unit op = name m0"
  using assms by (auto simp: go_inv_def)

lemma done_inv:
  assumes "go_inv i m0 ls (Checking m [] post)"
  shows "go_inv i m0 (ls @ [RDone i (post reg)]) (Selecting m)"
proof -
  have "steady post" using assms by (simp add: go_inv_def)
  from steadyD [OF this, of None reg] assms show ?thesis by (simp add: go_inv_def)
qed

lemma go_inv_same:
  assumes "go_inv i m0 ls g" and "\<not> in_check g" and "\<not> in_check g'" and "mon_of g' = mon_of g"
    and "case l of RTick _ _ _ \<Rightarrow> False | ROp _ _ \<Rightarrow> False | RDone _ _ \<Rightarrow> False | _ \<Rightarrow> True"
  shows "go_inv i m0 (ls @ [l]) g'"
  using assms by (cases g') (auto simp: go_inv_def split: run_label.splits)

lemma run_invD:
  assumes "run_inv ms reg ls s" and "alive s i g"
  shows "i < length ms" and "go_inv i (ms ! i) ls g" and "mr_gos s ! i = g"
    and "g = Spawned m \<or> g = Unspawned m \<Longrightarrow> m = ms ! i"
  using assms by (auto simp: run_inv_def alive_def)

text \<open>A step of one goroutine, with the label that names it.\<close>

definition names_only :: "nat \<Rightarrow> 'i run_label \<Rightarrow> bool" where
  "names_only i l \<longleftrightarrow> (case l of RTick j _ _ \<Rightarrow> j = i | ROp j _ \<Rightarrow> j = i | RDone j _ \<Rightarrow> j = i | _ \<Rightarrow> True)"

lemma run_inv_update:
  assumes "run_inv ms reg ls s" and "i < length ms" and "go_inv i (ms ! i) (ls @ [l]) g" and "names_only i l"
    and "\<forall>m. g = Spawned m \<or> g = Unspawned m \<longrightarrow> m = ms ! i"
    and "mr_gos s' = (mr_gos s)[i := g]" and "mr_main s' \<noteq> Crashed"
    and "case l of ROp _ op \<Rightarrow> handle_step (mr_reg s) op = Some (mr_reg s') \<and> op_unit op = name (ms ! i) | _ \<Rightarrow> mr_reg s' = mr_reg s"
  shows "run_inv ms reg (ls @ [l]) s'"
proof -
  have len: "length (mr_gos s) = length ms" using assms(1) by (simp add: run_inv_def)
  have gos: "go_inv k (ms ! k) (ls @ [l]) (mr_gos s' ! k) \<and> (\<forall>m. mr_gos s' ! k = Spawned m \<or> mr_gos s' ! k = Unspawned m \<longrightarrow> m = ms ! k)"
    if "k < length ms" for k
  proof (cases "k = i")
    case True
    with assms(2,3,5,6) len show ?thesis by simp
  next
    case False
    with that assms(1) have "go_inv k (ms ! k) ls (mr_gos s ! k)"
      "\<forall>m. mr_gos s ! k = Spawned m \<or> mr_gos s ! k = Unspawned m \<longrightarrow> m = ms ! k" by (simp_all add: run_inv_def)
    moreover have "case l of RTick j _ _ \<Rightarrow> j \<noteq> k | ROp j _ \<Rightarrow> j \<noteq> k | RDone j _ \<Rightarrow> j \<noteq> k | _ \<Rightarrow> True"
      using assms(4) False by (auto simp: names_only_def split: run_label.splits)
    ultimately show ?thesis using go_inv_other False assms(6) by simp
  qed
  have reg: "go_range handle_step reg (map snd (ops_of (ls @ [l]))) = Some (mr_reg s') \<and> registry_ok (mr_reg s')
    \<and> (\<forall>(j, op) \<in> set (ops_of (ls @ [l])). j < length ms \<and> op_unit op = name (ms ! j))"
  proof (cases l)
    case (ROp j op)
    then have j: "j = i" "handle_step (mr_reg s) op = Some (mr_reg s')" "op_unit op = name (ms ! i)"
      using assms(4,8) by (simp_all add: names_only_def)
    with assms(1,2) handle_step_ok [of "mr_reg s" op] ROp show ?thesis
      by (auto simp: run_inv_def go_range_append)
  qed (use assms(1,8) in \<open>simp_all add: run_inv_def\<close>)
  from gos reg len assms(6,7) show ?thesis by (simp add: run_inv_def)
qed

lemma run_inv_step:
  assumes "monitor_step interval check s l s'" and inv: "run_inv ms reg ls s" and pos: "\<forall>m \<in> set ms. 0 < interval m"
  shows "run_inv ms reg (ls @ [l]) s'"
  using assms(1)
proof cases
  case (spawn i m)
  note d = run_invD [OF inv spawn(4)]
  from d(2) have "go_inv i (ms ! i) (ls @ [l]) (Spawned m)" by (rule go_inv_same) (simp_all add: spawn(1))
  from run_inv_update [OF inv d(1) this] d(4) spawn show ?thesis by (simp add: names_only_def)
next
  case wait
  with inv show ?thesis using go_inv_other by (simp add: run_inv_def)
next
  case (ticker i m)
  note d = run_invD [OF inv ticker(3)]
  from d(2) have "go_inv i (ms ! i) (ls @ [l]) (Selecting m)" by (rule go_inv_same) (simp_all add: ticker(1))
  from run_inv_update [OF inv d(1) this] ticker show ?thesis by (simp add: names_only_def alive_def)
next
  case (ticker_panics i m)
  from run_invD(1) [OF inv ticker_panics(3)] run_invD(4) [OF inv ticker_panics(3), of m] pos [THEN bspec, OF nth_mem] ticker_panics(4)
  show ?thesis by fastforce
next
  case (tick i m inp m' warn ops post)
  note d = run_invD [OF inv tick(3)]
  from run_inv_update [OF inv d(1) tick_inv [OF d(2) tick(4)]] tick show ?thesis by (simp add: names_only_def alive_def)
next
  case (tick_panics i m inp)
  from run_invD(2) [OF inv tick_panics(3)] check_ok [of m inp] tick_panics(4) show ?thesis by (auto simp: go_inv_def)
next
  case (op i m op' ops post r)
  note d = run_invD [OF inv op(3)]
  from run_inv_update [OF inv d(1) op_inv(1) [OF d(2)]] op_inv(2) [OF d(2)] op show ?thesis
    by (simp add: names_only_def alive_def)
next
  case (op_panics i m op' ops post)
  with inv handle_step_ok [of "mr_reg s" op'] show ?thesis by (auto simp: run_inv_def)
next
  case (checked i m post)
  note d = run_invD [OF inv checked(3)]
  from run_inv_update [OF inv d(1) done_inv [OF d(2)]] checked show ?thesis by (simp add: names_only_def alive_def)
next
  case (exit i m)
  note d = run_invD [OF inv exit(3)]
  from d(2) have "go_inv i (ms ! i) (ls @ [l]) (Exited m)" by (rule go_inv_same) (simp_all add: exit(1))
  from run_inv_update [OF inv d(1) this] exit show ?thesis by (simp add: names_only_def alive_def)
next
  case cancel
  with inv show ?thesis using go_inv_other by (simp add: run_inv_def)
next
  case returns
  with inv show ?thesis using go_inv_other by (simp add: run_inv_def)
qed

lemma run_inv_steps:
  assumes "monitor_steps interval check (monitor_run_start ms reg) ls s"
    and "\<forall>m \<in> set ms. invar m \<and> 0 < interval m" and "registry_ok reg"
  shows "run_inv ms reg ls s"
  using assms(1)
proof (induction "monitor_run_start ms reg" ls s rule: monitor_steps.induct)
  case start
  show ?case using run_inv_start assms(2,3) by blast
next
  case (step ls t l u)
  then show ?case using run_inv_step assms(2) by blast
qed

text \<open>The same checks as whole cycles.\<close>

lemma solo_cycles:
  assumes "invar m" and "registry_ok reg"
  shows "\<exists>m' ops reg' es. solo check m inps = Some (m', ops, dispatches es)
    \<and> go_range (\<lambda>(s, es) i. map_option (\<lambda>(s', es'). (s', es @ es')) (cycle s i)) ((m, reg), []) inps = Some ((m', reg'), es)
    \<and> go_range handle_step reg ops = Some reg' \<and> registry_ok reg' \<and> invar m'"
proof (induction inps rule: rev_induct)
  case (snoc inp inps)
  then obtain m1 ops1 r1 es1 where IH: "solo check m inps = Some (m1, ops1, dispatches es1)"
    "go_range (\<lambda>(s, es) i. map_option (\<lambda>(s', es'). (s', es @ es')) (cycle s i)) ((m, reg), []) inps = Some ((m1, r1), es1)"
    "go_range handle_step reg ops1 = Some r1" "registry_ok r1" "invar m1" by blast
  obtain m2 warn ops post where c: "check inp m1 = Some (m2, warn, ops, post)" "invar m2" "dispatches warn = []" "steady post"
    using check_ok [OF IH(5)] by blast
  obtain r2 where r2: "go_range handle_step r1 ops = Some r2" "registry_ok r2" using handle_steps_ok [OF IH(4)] by blast
  have "cycle (m1, r1) inp = Some ((m2, r2), warn @ post r2)" using cycle_stages [of m1 r1 inp] c(1) r2(1) by simp
  moreover have "solo check m (inps @ [inp]) = Some (m2, ops1 @ ops, dispatches (es1 @ warn @ post r2))"
    using solo_snoc [OF IH(1) c(1)] c(3) steadyD [OF c(4), of r2 None] by simp
  ultimately show ?case using IH c r2 by (auto simp: go_range_append intro!: exI)
qed (use assms in simp)

lemma isolates_dispatches:
  assumes "monitor_steps interval check (monitor_run_start ms reg) ls s"
    and ms: "\<forall>m \<in> set ms. invar m \<and> 0 < interval m" and reg: "registry_ok reg"
    and i: "i < length ms" and idle: "\<not> in_check (mr_gos s ! i)"
  shows "\<exists>m' reg' es. run_ticker (interval (ms ! i)) cycle (ms ! i, reg) (ticks_of i ls) = Some ((m', reg'), es)
    \<and> mon_of (mr_gos s ! i) = m' \<and> dispatches (effects_of i ls) = dispatches es"
proof -
  have inv: "run_inv ms reg ls s" by (rule run_inv_steps [OF assms(1-3)])
  have m: "invar (ms ! i)" "0 < interval (ms ! i)" using ms i by simp_all
  from solo_cycles [OF m(1) reg, of "ticks_of i ls"] m(2) inv i idle show ?thesis
    by (fastforce simp: run_ticker_def run_inv_def go_inv_def)
qed

lemma isolates:
  assumes run: "monitor_steps interval check (monitor_run_start ms (Some r)) ls s"
    and ms: "\<forall>m \<in> set ms. invar m \<and> 0 < interval m" and r: "reg_inv r"
    and i: "i < length ms" "distinct (map name ms)" "name (ms ! i) \<in> unit_names r" and idle: "\<not> in_check (mr_gos s ! i)"
  shows "\<exists>m' r1 es r'. run_ticker (interval (ms ! i)) cycle (ms ! i, Some r) (ticks_of i ls) = Some ((m', Some r1), es)
    \<and> mon_of (mr_gos s ! i) = m' \<and> dispatches (effects_of i ls) = dispatches es
    \<and> mr_reg s = Some r' \<and> unit_view r' (name (ms ! i)) = unit_view r1 (name (ms ! i))"
proof -
  have reg: "registry_ok (Some r)" using r by (simp add: registry_ok_def)
  have inv: "run_inv ms (Some r) ls s" by (rule run_inv_steps [OF run ms reg])
  have m: "invar (ms ! i)" "0 < interval (ms ! i)" using ms i(1) by simp_all
  from solo_cycles [OF m(1) reg, of "ticks_of i ls"] obtain m' ops reg1 es where
    so: "solo check (ms ! i) (ticks_of i ls) = Some (m', ops, dispatches es)"
    and cy: "run_ticker (interval (ms ! i)) cycle (ms ! i, Some r) (ticks_of i ls) = Some ((m', reg1), es)"
    and alone: "go_range handle_step (Some r) ops = Some reg1"
    using m(2) by (auto simp: run_ticker_def)
  have g: "mon_of (mr_gos s ! i) = m'" "own_ops i (ops_of ls) = ops" "dispatches (effects_of i ls) = dispatches es"
    using inv i(1) idle so by (simp_all add: run_inv_def go_inv_def)
  have mine: "filter (\<lambda>op. op_unit op = name (ms ! i)) (map snd (ops_of ls)) = ops"
  proof -
    have "(op_unit op = name (ms ! i)) = (j = i)" if "(j, op) \<in> set (ops_of ls)" for j op
      using that inv i nth_eq_iff_index_eq [of "map name ms" j i] by (fastforce simp: run_inv_def)
    then have "filter (\<lambda>op. op_unit op = name (ms ! i)) (map snd (ops_of ls)) = own_ops i (ops_of ls)"
      unfolding own_ops_def filter_map by (intro arg_cong [of _ _ "map snd"] filter_cong) auto
    with g(2) show ?thesis by simp
  qed
  have own: "filter (\<lambda>op. op_unit op = name (ms ! i)) ops = ops" using arg_cong [OF mine, of set] by (auto simp: filter_id_conv)
  from reg_steps_view [OF r i(3), of "map snd (ops_of ls)"] obtain r' where r': "go_range reg_step r (map snd (ops_of ls)) = Some r'"
    "unit_view r' (name (ms ! i)) = foldl view_op (unit_view r (name (ms ! i))) ops" unfolding mine by blast
  from reg_steps_view [OF r i(3), of ops] obtain r1 where r1: "go_range reg_step r ops = Some r1"
    "unit_view r1 (name (ms ! i)) = foldl view_op (unit_view r (name (ms ! i))) ops" unfolding own by blast
  have "mr_reg s = Some r'" using inv r'(1) by (simp add: run_inv_def handle_steps_Some)
  moreover have "reg1 = Some r1" using alone r1(1) by (simp add: handle_steps_Some)
  ultimately show ?thesis using cy g r1(2) r'(2) by auto
qed

end

subsection \<open>Returning\<close>

fun go_weight :: "'m goroutine \<Rightarrow> nat" where
  "go_weight (Unspawned _) = 3" | "go_weight (Spawned _) = 2" | "go_weight (Selecting _) = 1"
| "go_weight (Checking _ ops _) = length ops + 2" | "go_weight (Exited _) = 0"

fun run_weight :: "run_state \<Rightarrow> nat" where
  "run_weight (Spawning _) = 2" | "run_weight WaitGroup = 1" | "run_weight _ = 0"

definition work_left :: "'m monitor_run \<Rightarrow> nat" where
  "work_left s = run_weight (mr_main s) + sum_list (map go_weight (mr_gos s))"

definition tickless :: "'i run_label \<Rightarrow> bool" where
  "tickless l \<longleftrightarrow> (case l of RTick _ _ _ \<Rightarrow> False | RCancel \<Rightarrow> False | _ \<Rightarrow> True)"

lemma work_left_set_go:
  assumes "alive s i g" and "go_weight g' < go_weight g"
  shows "sum_list (map go_weight ((mr_gos s)[i := g'])) < sum_list (map go_weight (mr_gos s))"
proof -
  let ?ws = "map go_weight (mr_gos s)"
  have i: "i < length ?ws" "?ws ! i = go_weight g" using assms(1) by (auto simp: alive_def)
  with elem_le_sum_list [OF i(1)] sum_list_update [OF i(1), of "go_weight g'"] assms(2)
  have "sum_list (?ws[i := go_weight g']) < sum_list ?ws" by linarith
  then show ?thesis by (simp add: map_update)
qed

lemma tickless_decreases:
  assumes "monitor_step interval check s l s'" and "tickless l" and "mr_main s \<noteq> Crashed" and "mr_main s' \<noteq> Crashed"
  shows "work_left s' < work_left s"
  using assms(1)
proof cases
  case (spawn i m)
  with work_left_set_go [OF spawn(4), of "Spawned m"] show ?thesis by (simp add: work_left_def)
next
  case (ticker i m)
  with work_left_set_go [OF ticker(3), of "Selecting m"] show ?thesis by (simp add: work_left_def)
next
  case (op i m op' ops post reg)
  with work_left_set_go [OF op(3), of "Checking m ops post"] show ?thesis by (simp add: work_left_def)
next
  case (checked i m post)
  with work_left_set_go [OF checked(3), of "Selecting m"] show ?thesis by (simp add: work_left_def)
next
  case (exit i m)
  with work_left_set_go [OF exit(3), of "Exited m"] show ?thesis by (simp add: work_left_def)
qed (use assms in \<open>simp_all add: work_left_def tickless_def\<close>)

fun unspawned :: "'m goroutine \<Rightarrow> bool" where
  "unspawned (Unspawned _) = True" | "unspawned _ = False"

fun exited :: "'m goroutine \<Rightarrow> bool" where
  "exited (Exited _) = True" | "exited _ = False"

lemma exited_iff: "(\<exists>m. g = Exited m) \<longleftrightarrow> exited g"
  by (cases g) auto

text \<open>Goroutines are spawned in order, and \<open>Run\<close> has returned only when all of them have.\<close>

definition main_inv :: "'m monitor_run \<Rightarrow> bool" where
  "main_inv s \<longleftrightarrow> (case mr_main s of
      Spawning k \<Rightarrow> k \<le> length (mr_gos s) \<and> (\<forall>j < length (mr_gos s). unspawned (mr_gos s ! j) \<longleftrightarrow> k \<le> j)
    | WaitGroup \<Rightarrow> (\<forall>g \<in> set (mr_gos s). \<not> unspawned g)
    | RunReturned \<Rightarrow> (\<forall>g \<in> set (mr_gos s). exited g)
    | Crashed \<Rightarrow> True)"

lemma main_inv_start: "main_inv (monitor_run_start ms reg)"
  by (simp add: main_inv_def monitor_run_start_def)

lemma main_inv_set_go:
  assumes "main_inv s" and "alive s i g" and "\<not> unspawned g" and "\<not> exited g" and "\<not> unspawned g'"
    and "mr_gos s' = (mr_gos s)[i := g']" and "mr_main s' = mr_main s"
  shows "main_inv s'"
proof -
  have "mr_main s \<noteq> RunReturned" using assms(1,2,4) by (auto simp: main_inv_def alive_def split: run_state.splits)
  with assms show ?thesis
    by (auto simp: main_inv_def alive_def nth_list_update split: run_state.splits
        dest!: set_update_subset_insert [THEN subsetD])
qed

lemma main_inv_step:
  assumes "monitor_step interval check s l s'" and "main_inv s"
  shows "main_inv s'"
  using assms(1)
proof cases
  case (spawn i m)
  with assms(2) show ?thesis by (auto simp: main_inv_def alive_def nth_list_update)
next
  case wait
  with assms(2) show ?thesis by (auto simp: main_inv_def in_set_conv_nth)
next
  case (ticker i m)
  from main_inv_set_go [OF assms(2) ticker(3), of "Selecting m" s'] ticker show ?thesis by simp
next
  case (tick i m inp m' warn ops post)
  from main_inv_set_go [OF assms(2) tick(3), of "Checking m' ops post" s'] tick show ?thesis by simp
next
  case (op i m op' ops post reg)
  from main_inv_set_go [OF assms(2) op(3), of "Checking m ops post" s'] op show ?thesis by simp
next
  case (checked i m post)
  from main_inv_set_go [OF assms(2) checked(3), of "Selecting m" s'] checked show ?thesis by simp
next
  case (exit i m)
  from main_inv_set_go [OF assms(2) exit(3), of "Exited m" s'] exit show ?thesis by simp
next
  case cancel
  with assms(2) show ?thesis by (auto simp: main_inv_def split: run_state.splits)
next
  case returns
  then show ?thesis by (auto simp: main_inv_def exited_iff)
qed (simp_all add: main_inv_def)

lemma main_inv_steps: "monitor_steps interval check (monitor_run_start ms reg) ls s \<Longrightarrow> main_inv s"
proof (induction "monitor_run_start ms reg" ls s rule: monitor_steps.induct)
  case start
  show ?case by (rule main_inv_start)
next
  case (step ls t l u)
  then show ?case using main_inv_step by blast
qed

lemma cancelled_stays: "monitor_step interval check s l s' \<Longrightarrow> mr_cancelled s \<Longrightarrow> mr_cancelled s'"
  by (induction rule: monitor_step.induct) simp_all

context staged_role
begin

lemma goroutine_progress:
  assumes inv: "run_inv ms reg ls s" and pos: "\<forall>m \<in> set ms. 0 < interval m" and "mr_cancelled s"
    and i: "i < length ms" "\<not> unspawned (mr_gos s ! i)" "\<not> exited (mr_gos s ! i)"
  shows "\<exists>l s'. monitor_step interval check s l s' \<and> tickless l"
proof -
  have al: "alive s i (mr_gos s ! i)" using inv i(1) by (simp add: run_inv_def alive_def)
  show ?thesis
  proof (cases "mr_gos s ! i")
    case (Spawned m)
    with run_invD(4) [OF inv al, of m] pos i(1) al monitor_step.ticker [of s i m interval check] show ?thesis
      by (fastforce simp: tickless_def)
  next
    case (Selecting m)
    with al assms(3) monitor_step.exit [of s i m interval check] show ?thesis by (fastforce simp: tickless_def)
  next
    case (Checking m ops post)
    show ?thesis
    proof (cases ops)
      case Nil
      with Checking al monitor_step.checked [of s i m post interval check] show ?thesis by (fastforce simp: tickless_def)
    next
      case (Cons op ops')
      have "registry_ok (mr_reg s)" using inv by (simp add: run_inv_def)
      from handle_step_ok [OF this, of op] obtain reg' where "handle_step (mr_reg s) op = Some reg'" by blast
      with Checking Cons al monitor_step.op [of s i m op ops' post reg' interval check] show ?thesis
        by (fastforce simp: tickless_def)
    qed
  qed (use i in simp_all)
qed

lemma run_progress:
  assumes inv: "run_inv ms reg ls s" and pos: "\<forall>m \<in> set ms. 0 < interval m" and "mr_cancelled s"
    and main: "main_inv s" "mr_main s \<noteq> RunReturned"
  shows "\<exists>l s'. monitor_step interval check s l s' \<and> tickless l"
proof (cases "mr_main s")
  case (Spawning k)
  show ?thesis
  proof (cases "k < length (mr_gos s)")
    case True
    with main(1) Spawning have "unspawned (mr_gos s ! k)" by (simp add: main_inv_def)
    then obtain m where "mr_gos s ! k = Unspawned m" by (cases "mr_gos s ! k") auto
    with True Spawning monitor_step.spawn [of s k m interval check] show ?thesis
      by (fastforce simp: tickless_def alive_def)
  next
    case False
    with main(1) Spawning have "mr_main s = Spawning (length (mr_gos s))" by (simp add: main_inv_def)
    from monitor_step.wait [OF this, of interval check] show ?thesis by (fastforce simp: tickless_def)
  qed
next
  case WaitGroup
  show ?thesis
  proof (cases "\<forall>g \<in> set (mr_gos s). exited g")
    case True
    with WaitGroup monitor_step.returns [of s interval check] show ?thesis by (fastforce simp: tickless_def exited_iff)
  next
    case False
    then obtain i where "i < length ms" "\<not> exited (mr_gos s ! i)" using inv by (auto simp: in_set_conv_nth run_inv_def)
    moreover from this have "\<not> unspawned (mr_gos s ! i)" using main(1) WaitGroup inv by (simp add: main_inv_def run_inv_def)
    ultimately show ?thesis using goroutine_progress [OF inv pos assms(3)] by blast
  qed
qed (use main inv in \<open>simp_all add: run_inv_def\<close>)

lemma run_returns:
  assumes "monitor_steps interval check (monitor_run_start ms reg) ls s"
    and ms: "\<forall>m \<in> set ms. invar m \<and> 0 < interval m" and reg: "registry_ok reg" and "mr_cancelled s"
  shows "\<exists>ls' s'. monitor_steps interval check (monitor_run_start ms reg) (ls @ ls') s' \<and> mr_main s' = RunReturned
    \<and> list_all tickless ls' \<and> length ls' \<le> work_left s \<and> list_all exited (mr_gos s')"
  using assms(1,4)
proof (induction "work_left s" arbitrary: ls s rule: less_induct)
  case less
  note inv = run_inv_steps [OF less.prems(1) ms reg] and main = main_inv_steps [OF less.prems(1)]
  show ?case
  proof (cases "mr_main s = RunReturned")
    case True
    with less.prems(1) main show ?thesis by (intro exI [of _ "[]"] exI [of _ s]) (simp add: main_inv_def list_all_iff)
  next
    case False
    with run_progress [OF inv _ less.prems(2) main] ms obtain l t where t: "monitor_step interval check s l t" "tickless l" by blast
    have run: "monitor_steps interval check (monitor_run_start ms reg) (ls @ [l]) t"
      by (rule monitor_steps.step [OF less.prems(1) t(1)])
    have "work_left t < work_left s"
      using tickless_decreases [OF t] inv run_inv_steps [OF run ms reg] by (simp add: run_inv_def)
    moreover from less.hyps [OF this run cancelled_stays [OF t(1) less.prems(2)]] obtain ls' s' where
      "monitor_steps interval check (monitor_run_start ms reg) (ls @ l # ls') s'" "mr_main s' = RunReturned"
      "list_all tickless ls'" "length ls' \<le> work_left t" "list_all exited (mr_gos s')" by auto
    ultimately show ?thesis using t(2) by (intro exI [of _ "l # ls'"] exI [of _ s']) simp
  qed
qed

end

text \<open>A check under way can be finished, and a target can be scheduled for a first check.\<close>

lemma check_finishes:
  assumes "monitor_steps interval check s0 ls s" and "alive s i (Checking m ops post)" and "registry_ok (mr_reg s)"
  shows "\<exists>ls' s'. monitor_steps interval check s0 (ls @ ls') s' \<and> alive s' i (Selecting m) \<and> ticks_of k (ls @ ls') = ticks_of k ls"
  using assms
proof (induction ops arbitrary: ls s)
  case Nil
  from monitor_steps.step [OF Nil.prems(1) monitor_step.checked [OF Nil.prems(2)]] Nil.prems(2) show ?case
    by (intro exI [of _ "[RDone i (post (mr_reg s))]"] exI [of _ "set_go s i (Selecting m)"]) (simp add: alive_def)
next
  case (Cons op ops)
  let ?s = "\<lambda>reg. (set_go s i (Checking m ops post))\<lparr>mr_reg := reg\<rparr>"
  obtain reg' where r: "handle_step (mr_reg s) op = Some reg'" "registry_ok reg'" using handle_step_ok [OF Cons.prems(3)] by blast
  have "monitor_steps interval check s0 (ls @ [ROp i op]) (?s reg')"
    by (rule monitor_steps.step [OF Cons.prems(1) monitor_step.op [OF Cons.prems(2) r(1)]])
  moreover have "alive (?s reg') i (Checking m ops post)" using Cons.prems(2) by (simp add: alive_def)
  moreover have "registry_ok (mr_reg (?s reg'))" using r(2) by simp
  ultimately obtain ls' s' where "monitor_steps interval check s0 ((ls @ [ROp i op]) @ ls') s'" "alive s' i (Selecting m)"
    "ticks_of k ((ls @ [ROp i op]) @ ls') = ticks_of k (ls @ [ROp i op])" using Cons.IH by blast
  then show ?case by (intro exI [of _ "ROp i op # ls'"] exI [of _ s']) simp
qed

lemma first_check:
  assumes "0 < interval m" and "check inp m = Some (m', warn, ops, post)" and "registry_ok reg"
  shows "\<exists>ls s. monitor_steps interval check (monitor_run_start (m # ms) reg) ls s \<and> ticks_of 0 ls = [inp] \<and> \<not> in_check (mr_gos s ! 0)"
proof -
  let ?init = "monitor_run_start (m # ms) reg"
  let ?s = "\<lambda>g. ?init\<lparr>mr_main := Spawning 1, mr_gos := g # map Unspawned ms\<rparr>"
  have "monitor_step interval check ?init (RSpawn 0) (?s (Spawned m))"
    using monitor_step.spawn [of ?init 0 m interval check] by (simp add: monitor_run_start_def alive_def)
  from monitor_steps.step [OF monitor_steps.start this]
  have "monitor_steps interval check ?init [RSpawn 0] (?s (Spawned m))" by simp
  moreover have "monitor_step interval check (?s (Spawned m)) (RTicker 0) (?s (Selecting m))"
    using monitor_step.ticker [of "?s (Spawned m)" 0 m interval check] assms(1) by (simp add: alive_def)
  ultimately have "monitor_steps interval check ?init [RSpawn 0, RTicker 0] (?s (Selecting m))"
    using monitor_steps.step by fastforce
  moreover have "monitor_step interval check (?s (Selecting m)) (RTick 0 inp warn) (?s (Checking m' ops post))"
    using monitor_step.tick [of "?s (Selecting m)" 0 m check inp m' warn ops post interval] assms(2) by (simp add: alive_def)
  ultimately have run: "monitor_steps interval check ?init [RSpawn 0, RTicker 0, RTick 0 inp warn] (?s (Checking m' ops post))"
    using monitor_steps.step by fastforce
  have "alive (?s (Checking m' ops post)) 0 (Checking m' ops post)" "registry_ok (mr_reg (?s (Checking m' ops post)))"
    using assms(3) by (simp_all add: alive_def monitor_run_start_def)
  from check_finishes [OF run this, of 0] obtain ls' s' where "monitor_steps interval check ?init ([RSpawn 0, RTicker 0, RTick 0 inp warn] @ ls') s'"
    "alive s' 0 (Selecting m')" "ticks_of 0 ([RSpawn 0, RTicker 0, RTick 0 inp warn] @ ls') = ticks_of 0 [RSpawn 0, RTicker 0, RTick 0 inp warn]"
    by blast
  moreover have "ticks_of 0 [RSpawn 0, RTicker 0, RTick 0 inp warn] = [inp]" by (simp add: ticks_of_def)
  ultimately show ?thesis by (metis alive_def in_check.simps(4))
qed

subsection \<open>The two roles\<close>

definition handle_name :: "Handle option \<Rightarrow> string" where
  "handle_name h = (case h of None \<Rightarrow> '''' | Some h \<Rightarrow> hd_name h)"

lemma finishCheck_stages:
  "finishCheck h channels role detail tms success None sm reg =
    Option.bind (check_stages h channels role detail tms success sm) (\<lambda>(sm', warn, ops, post).
      Option.bind (go_range handle_step reg ops) (\<lambda>reg'. Some (sm', reg', post reg')))"
proof (cases "Observe sm (ct_observe tms) success")
  case (Some p)
  obtain ev sm' where p: "p = (ev, sm')" by fastforce
  show ?thesis
  proof (cases h)
    case None
    with Some p show ?thesis by (simp add: finishCheck_def check_stages_def Handle_Update_def RecordCheck_def)
  next
    case (Some k)
    with \<open>Observe sm (ct_observe tms) success = Some p\<close> p show ?thesis
      by (cases reg) (auto simp: finishCheck_def check_stages_def Handle_Update_def RecordCheck_def handle_step_def
          reg_step_def update_status_def Let_def split: option.splits)
  qed
qed (simp add: finishCheck_def check_stages_def)

lemma check_stages_ok:
  assumes "sm_inv sm"
  shows "\<exists>sm' ops post. check_stages h channels role detail tms success sm = Some (sm', [], ops, post) \<and> sm_inv sm'
    \<and> (\<forall>op \<in> set ops. op_unit op = handle_name h) \<and> steady post"
  using Observe_step [OF assms, of "ct_observe tms" success]
  by (auto simp: check_stages_def handle_name_def update_status_def steady_def split: option.splits)

lemma dispatches_warn: "dispatches (case err of None \<Rightarrow> [] | Some e \<Rightarrow> [ELog (f e)]) = []"
  by (simp split: option.splits)

lemma ping_probe_keeps:
  "ping_probe quote env m = (err, m1) \<Longrightarrow> pg_sm m1 = pg_sm m \<and> pg_handle m1 = pg_handle m"
  by (auto simp: ping_probe_def Let_def split: option.splits)

text \<open>The stages of a role around those of its state machine: \<open>put\<close> stores the machine, \<open>w\<close> is logged first.\<close>

lemma role_stages_ok:
  assumes "sm_inv sm" and "dispatches w = []" and "\<And>x. get (put x) = x" and "\<And>x. nm (put x) = handle_name h"
  shows "\<exists>m' warn ops post. map_option (\<lambda>(sm, _, ops, post). (put sm, w, ops, post)) (check_stages h channels role detail tms success sm)
      = Some (m', warn, ops, post) \<and> sm_inv (get m') \<and> nm m' = handle_name h \<and> dispatches warn = []
    \<and> (\<forall>op \<in> set ops. op_unit op = handle_name h) \<and> steady post"
  using check_stages_ok [OF assms(1), of h channels role detail tms success] assms(2-4) by auto

lemma role_stages_cycle:
  "Option.bind (Option.bind cs (\<lambda>(sm', warn, ops, post).
      Option.bind (go_range handle_step reg ops) (\<lambda>reg'. Some (sm', reg', post reg'))))
    (\<lambda>(sm, reg, es). Some ((put sm, reg), w @ es)) =
   Option.bind (map_option (\<lambda>(sm, _, ops, post). (put sm, w, ops, post)) cs) (\<lambda>(m', warn, ops, post).
      Option.bind (go_range handle_step reg ops) (\<lambda>reg'. Some ((m', reg'), warn @ post reg')))"
  by (cases cs) (auto split: bind_splits)

interpretation ping_fan: staged_role "ping_stages quote" "\<lambda>(m, reg) (env, tms). ping_runCheck quote env tms m reg"
  pg_interval "\<lambda>m. handle_name (pg_handle m)" "\<lambda>m. sm_inv (pg_sm m)" for quote
proof
  fix m :: pingTargetMonitor and inp :: "ping_env \<times> check_times" and reg
  obtain env tms err m1 where inp: "inp = (env, tms)" and pr: "ping_probe quote env m = (err, m1)" by (metis surj_pair)
  note keeps = ping_probe_keeps [OF pr]
  show "\<exists>m' warn ops post. ping_stages quote inp m = Some (m', warn, ops, post) \<and> sm_inv (pg_sm m')
      \<and> handle_name (pg_handle m') = handle_name (pg_handle m) \<and> dispatches warn = []
      \<and> (\<forall>op \<in> set ops. op_unit op = handle_name (pg_handle m)) \<and> steady post" if "sm_inv (pg_sm m)"
    unfolding ping_stages_def inp Let_def prod.case pr keeps [THEN conjunct2, symmetric]
    using that keeps by (intro role_stages_ok) (simp_all add: dispatches_warn)
  show "(case (m, reg) of (m, reg) \<Rightarrow> \<lambda>(env, tms). ping_runCheck quote env tms m reg) inp =
      Option.bind (ping_stages quote inp m) (\<lambda>(m', warn, ops, post).
        Option.bind (go_range handle_step reg ops) (\<lambda>reg'. Some ((m', reg'), warn @ post reg')))"
    unfolding ping_stages_def ping_runCheck_def inp Let_def prod.case pr finishCheck_stages by (rule role_stages_cycle)
qed

interpretation url_fan: staged_role url_stages "\<lambda>(m, reg) (env, tms). url_runCheck env tms m reg"
  ul_interval "\<lambda>m. handle_name (ul_handle m)" "\<lambda>m. sm_inv (ul_sm m)"
proof
  fix m :: urlTargetMonitor and inp :: "get_env \<times> check_times" and reg
  obtain env tms where inp: "inp = (env, tms)" by fastforce
  show "\<exists>m' warn ops post. url_stages inp m = Some (m', warn, ops, post) \<and> sm_inv (ul_sm m')
      \<and> handle_name (ul_handle m') = handle_name (ul_handle m) \<and> dispatches warn = []
      \<and> (\<forall>op \<in> set ops. op_unit op = handle_name (ul_handle m)) \<and> steady post" if "sm_inv (ul_sm m)"
    unfolding url_stages_def inp Let_def prod.case
    using that by (intro role_stages_ok) (simp_all add: dispatches_warn)
  show "(case (m, reg) of (m, reg) \<Rightarrow> \<lambda>(env, tms). url_runCheck env tms m reg) inp =
      Option.bind (url_stages inp m) (\<lambda>(m', warn, ops, post).
        Option.bind (go_range handle_step reg ops) (\<lambda>reg'. Some ((m', reg'), warn @ post reg')))"
    unfolding url_stages_def url_runCheck_def inp Let_def prod.case finishCheck_stages by (rule role_stages_cycle)
qed

text \<open>The handles the constructors hand out name units of the registry.\<close>

lemma go_range_keeps:
  assumes "go_range f s xs = Some s'" and "P s" and "\<And>t x t'. P t \<Longrightarrow> f t x = Some t' \<Longrightarrow> P t'"
  shows "P s'"
  using assms(1,2)
proof (induction xs arbitrary: s)
  case (Cons x xs)
  then show ?case using assms(3) by (auto split: bind_splits)
qed simp

definition handles_known :: "('m \<Rightarrow> Handle option) \<Rightarrow> ('m \<Rightarrow> string) \<Rightarrow> 'm list \<times> Registry option \<Rightarrow> bool" where
  "handles_known handle unit p \<longleftrightarrow> (\<exists>r. snd p = Some r \<and> reg_inv r
     \<and> (\<forall>m \<in> set (fst p). handle m = Some \<lparr>hd_name = unit m\<rparr> \<and> unit m \<in> unit_names r))"

lemma handles_known_Register:
  assumes "handles_known handle unit (ms, reg)" and "Register reg n = Some (h, reg')" and "handle m = h" and "unit m = n"
  shows "handles_known handle unit (ms @ [m], reg')"
proof -
  obtain r where r: "reg = Some r" "reg_inv r" "\<forall>m \<in> set ms. handle m = Some \<lparr>hd_name = unit m\<rparr> \<and> unit m \<in> unit_names r"
    using assms(1) by (auto simp: handles_known_def)
  show ?thesis
    using r assms(2-4) Register_again [OF r(2), of n] Register_new [OF r(2), of n]
    by (cases "n \<in> unit_names r") (auto simp: handles_known_def unit_names_def)
qed

lemma NewPingMonitor_handles:
  assumes "NewPingMonitor ts (Some r0) = Some (ms, reg)" and "reg_inv r0"
  shows "handles_known pg_handle (\<lambda>m. ''ping_monitor:'' @ pg_target m) (ms, reg)"
  using assms(1) unfolding NewPingMonitor_def
proof (rule go_range_keeps)
  show "handles_known pg_handle (\<lambda>m. ''ping_monitor:'' @ pg_target m) ([], Some r0)" using assms(2) by (simp add: handles_known_def)
qed (auto split: bind_splits intro!: handles_known_Register)

lemma NewURLMonitor_handles:
  assumes "NewURLMonitor ts (Some r0) = Some (ms, reg)" and "reg_inv r0"
  shows "handles_known ul_handle (\<lambda>m. ''url_monitor:'' @ ul_url m) (ms, reg)"
  using assms(1) unfolding NewURLMonitor_def
proof (rule go_range_keeps)
  show "handles_known ul_handle (\<lambda>m. ''url_monitor:'' @ ul_url m) ([], Some r0)" using assms(2) by (simp add: handles_known_def)
qed (auto split: bind_splits intro!: handles_known_Register)

lemma distinct_units:
  assumes "\<forall>m \<in> set ms. unit m = pre @ address m" and "distinct (map address ms)"
  shows "distinct (map unit ms)"
proof -
  have "map unit ms = map (append pre) (map address ms)" using assms(1) by simp
  then show ?thesis using assms(2) by (simp only: distinct_map) (simp add: inj_on_def)
qed

lemma ping_monitors_ok:
  assumes "reg_inv r0" and "NewPingMonitor ts (Some r0) = Some (ms, Some r)"
    and "\<forall>t \<in> set ts. 0 < rp_Interval t \<and> mc_WindowSize (rp_Mon t) < 2 ^ 63"
  shows "\<forall>m \<in> set ms. sm_inv (pg_sm m) \<and> 0 < pg_interval m" and "reg_inv r" and "map pg_target ms = map rp_Target ts"
    and "\<forall>m \<in> set ms. handle_name (pg_handle m) = ''ping_monitor:'' @ pg_target m \<and> handle_name (pg_handle m) \<in> unit_names r"
proof -
  have reg: "registry_ok (Some r0)" using assms(1) by (simp add: registry_ok_def)
  have u: "list_all2 ping_unit ts ms" using NewPingMonitor_ok [OF reg, of ts] assms(2,3) by auto
  then show "\<forall>m \<in> set ms. sm_inv (pg_sm m) \<and> 0 < pg_interval m"
    using assms(3) by (fastforce simp: list_all2_conv_all_nth in_set_conv_nth ping_unit_def)
  show "reg_inv r"
    and "\<forall>m \<in> set ms. handle_name (pg_handle m) = ''ping_monitor:'' @ pg_target m \<and> handle_name (pg_handle m) \<in> unit_names r"
    using NewPingMonitor_handles [OF assms(2,1)] by (auto simp: handles_known_def handle_name_def)
  show "map pg_target ms = map rp_Target ts"
    using u by (intro nth_equalityI) (auto simp: list_all2_conv_all_nth ping_unit_def)
qed

lemma url_monitors_ok:
  assumes "reg_inv r0" and "NewURLMonitor ts (Some r0) = Some (ms, Some r)"
    and "\<forall>t \<in> set ts. 0 < ru_Interval t \<and> mc_WindowSize (ru_Mon t) < 2 ^ 63"
  shows "\<forall>m \<in> set ms. sm_inv (ul_sm m) \<and> 0 < ul_interval m" and "reg_inv r" and "map ul_url ms = map ru_URL ts"
    and "\<forall>m \<in> set ms. handle_name (ul_handle m) = ''url_monitor:'' @ ul_url m \<and> handle_name (ul_handle m) \<in> unit_names r"
proof -
  have reg: "registry_ok (Some r0)" using assms(1) by (simp add: registry_ok_def)
  have u: "list_all2 url_unit ts ms" using NewURLMonitor_ok [OF reg, of ts] assms(2,3) by auto
  then show "\<forall>m \<in> set ms. sm_inv (ul_sm m) \<and> 0 < ul_interval m"
    using assms(3) by (fastforce simp: list_all2_conv_all_nth in_set_conv_nth url_unit_def)
  show "reg_inv r"
    and "\<forall>m \<in> set ms. handle_name (ul_handle m) = ''url_monitor:'' @ ul_url m \<and> handle_name (ul_handle m) \<in> unit_names r"
    using NewURLMonitor_handles [OF assms(2,1)] by (auto simp: handles_known_def handle_name_def)
  show "map ul_url ms = map ru_URL ts"
    using u by (intro nth_equalityI) (auto simp: list_all2_conv_all_nth url_unit_def)
qed

subsection \<open>Properties\<close>


definition example_ping_target :: "string \<Rightarrow> rolePingTarget" where
  "example_ping_target a = \<lparr>rp_Target = a, rp_Interval = 1, rp_Timeout = 1, rp_Channels = [],
     rp_Mon = \<lparr>mc_FailureThreshold = 1, mc_WindowSize = 3, mc_Trigger = TriggerConsecutive, mc_MinAvailability = Fin 0\<rparr>\<rparr>"

definition example_ticks :: "ping_env \<times> check_times" where
  "example_ticks = (\<lparr>pe_dial = Some ''refused'', pe_now = 1, pe_write = None, pe_read = Inl\<rparr>, \<lparr>ct_observe = 1, ct_record = 1, ct_alert = 1\<rparr>)"

lemma example_ping_monitors:
  "\<exists>m0 m1 r. NewPingMonitor [example_ping_target ''a'', example_ping_target ''b''] (Some NewRegistry) = Some ([m0, m1], Some r)
    \<and> sm_inv (pg_sm m0) \<and> pg_interval m0 = 1"
proof -
  let ?ts = "[example_ping_target ''a'', example_ping_target ''b'']"
  have "registry_ok (Some NewRegistry)" using NewRegistry_inv by (simp add: registry_ok_def)
  moreover have "mc_WindowSize (rp_Mon t) < 2 ^ 63" if "t \<in> set ?ts" for t using that by (auto simp: example_ping_target_def)
  ultimately obtain ms reg where n: "NewPingMonitor ?ts (Some NewRegistry) = Some (ms, reg)" "list_all2 ping_unit ?ts ms"
    using NewPingMonitor_ok by blast
  with NewPingMonitor_handles [OF n(1) NewRegistry_inv] show ?thesis
    by (auto simp: list_all2_Cons1 ping_unit_def example_ping_target_def handles_known_def)
qed


text \<open>
  C33. Once its context is cancelled, a ping or URL role returns: from every state a schedule can
  reach, steps of its own (no further tick) lead to the return, at most as many as work is left,
  and by then every goroutine has exited.
\<close>

theorem monitors_return_after_cancel:
  assumes "reg_inv r0" and "NewPingMonitor ts (Some r0) = Some (ms, Some r)" and "NewURLMonitor us (Some r) = Some (vs, Some r')"
    and "\<forall>t \<in> set ts. 0 < rp_Interval t \<and> mc_WindowSize (rp_Mon t) < 2 ^ 63"
    and "\<forall>t \<in> set us. 0 < ru_Interval t \<and> mc_WindowSize (ru_Mon t) < 2 ^ 63"
    and "PingMonitor_Run quote ms (Some r') ls s" and "mr_cancelled s"
    and "URLMonitor_Run vs (Some r') ks t" and "mr_cancelled t"
  shows "(\<exists>ls' s'. PingMonitor_Run quote ms (Some r') (ls @ ls') s' \<and> mr_main s' = RunReturned \<and> list_all tickless ls'
      \<and> length ls' \<le> work_left s \<and> list_all exited (mr_gos s'))
    \<and> (\<exists>ks' t'. URLMonitor_Run vs (Some r') (ks @ ks') t' \<and> mr_main t' = RunReturned \<and> list_all tickless ks'
      \<and> length ks' \<le> work_left t \<and> list_all exited (mr_gos t'))"
proof -
  note p = ping_monitors_ok [OF assms(1,2,4)]
  note u = url_monitors_ok [OF p(2) assms(3,5)]
  have reg: "registry_ok (Some r')" using u(2) by (simp add: registry_ok_def)
  show ?thesis
    unfolding PingMonitor_Run_def URLMonitor_Run_def
    using ping_fan.run_returns [OF assms(6) [unfolded PingMonitor_Run_def] p(1) reg assms(7)]
      url_fan.run_returns [OF assms(8) [unfolded URLMonitor_Run_def] u(1) reg assms(9)] by blast
qed

lemma start_cancelled:
  "monitor_steps interval check (monitor_run_start ms reg) [RCancel] ((monitor_run_start ms reg)\<lparr>mr_cancelled := True\<rparr>)"
  using monitor_steps.step [OF monitor_steps.start monitor_step.cancel, of "monitor_run_start ms reg" interval check]
  by (simp add: monitor_run_start_def)

theorem monitors_return_after_cancel_witness:
  "\<exists>m0 m1 r ls s. NewPingMonitor [example_ping_target ''a'', example_ping_target ''b''] (Some NewRegistry) = Some ([m0, m1], Some r)
    \<and> PingMonitor_Run id [m0, m1] (Some r) ls s \<and> mr_main s = RunReturned \<and> list_all exited (mr_gos s)"
proof -
  obtain m0 m1 r where n: "NewPingMonitor [example_ping_target ''a'', example_ping_target ''b''] (Some NewRegistry) = Some ([m0, m1], Some r)"
    using example_ping_monitors by blast
  let ?s = "\<lambda>ms. (monitor_run_start ms (Some r))\<lparr>mr_cancelled := True\<rparr>"
  have p: "PingMonitor_Run id [m0, m1] (Some r) [RCancel] (?s [m0, m1])" and u: "URLMonitor_Run [] (Some r) [RCancel] (?s [])"
    by (simp_all add: PingMonitor_Run_def URLMonitor_Run_def start_cancelled)
  have "NewURLMonitor [] (Some r) = Some ([], Some r)" by (simp add: NewURLMonitor_def)
  from monitors_return_after_cancel [OF NewRegistry_inv n this _ _ p _ u] n show ?thesis
    by (auto simp: example_ping_target_def)
qed

end
