(* ===== verification/Healthd.thy ===== *)
theory Healthd
  imports Config Channels TCPListener Roles
begin

text \<open>
  \<^verbatim>\<open>cmd/healthd/main.go\<close>: the channels and roles built from a configuration, and the life of the
  daemon: roles run concurrently until a signal arrives or one of them fails, which brings the
  others down. The environment variables and the order in which the loop over the channels visits
  them are arguments. The life cycle is a step relation on the states of the roles.
\<close>

subsection \<open>buildChannels\<close>

text \<open>The implementations of \<open>INotificationService\<close>.\<close>

datatype Service = S_Console Console | S_Webhook Webhook | S_Email Email | S_SMSGate SMSGate

definition newService :: "(string \<Rightarrow> string) \<Rightarrow> string \<Rightarrow> Channel \<Rightarrow> ConfigError + Service" where
  "newService getenv name ch = (
     if ch_Type ch = ChannelConsole then Inr (S_Console (NewConsole (Some JSONLogger)))
     else if ch_Type ch = ChannelWebhook then
       Inr (S_Webhook (NewWebhook (ch_URL ch) (go_mul (ch_TimeoutMS ch) Millisecond)))
     else if ch_Type ch = ChannelEmail then
       Inr (S_Email (NewEmail (ch_SMTPHost ch) (ch_Port ch) (ch_From ch) (ch_To ch) (ch_Username ch)
         (getenv (ch_PasswordEnv ch))))
     else if ch_Type ch = ChannelSMSGate then
       Inr (S_SMSGate (NewSMSGate (ch_BaseURL ch) (ch_Username ch) (getenv (ch_PasswordEnv ch)) (ch_Recipients ch)
         (go_mul (ch_TimeoutMS ch) Millisecond)))
     else Inl (ChannelFault name '''' (UnknownValue ''type'' (ch_Type ch))))"

primrec buildChannels_loop ::
  "(string \<Rightarrow> string) \<Rightarrow> (string \<rightharpoonup> Channel) \<Rightarrow> string list \<Rightarrow> (string \<rightharpoonup> Service) \<Rightarrow> ConfigError + (string \<rightharpoonup> Service)" where
  "buildChannels_loop getenv chs [] out = Inr out"
| "buildChannels_loop getenv chs (name # ns) out = (case chs name of
     None \<Rightarrow> buildChannels_loop getenv chs ns out
   | Some ch \<Rightarrow> or_fail (newService getenv name ch) (\<lambda>svc. buildChannels_loop getenv chs ns (out(name \<mapsto> svc))))"

definition buildChannels :: "(string \<Rightarrow> string) \<Rightarrow> string list \<Rightarrow> Config \<Rightarrow> ConfigError + (string \<rightharpoonup> Service)" where
  "buildChannels getenv ord cfg = buildChannels_loop getenv (c_Channels cfg) ord Map.empty"

definition buildDispatcher :: "Config \<Rightarrow> (string \<rightharpoonup> Service) \<Rightarrow> Service Dispatcher" where
  "buildDispatcher cfg channels = NewDispatcher channels (rt_MaxAttempts (c_Retry cfg))
     (go_mul (rt_BaseDelayMS (c_Retry cfg)) Millisecond)"

subsection \<open>buildRoles\<close>

definition monitorConfig :: "string \<Rightarrow> goint \<Rightarrow> goint \<Rightarrow> float64 \<Rightarrow> MonConfig" where
  "monitorConfig trigger windowSize failureThreshold minAvailability = (
     let t = (if trigger = cfgTriggerAvailability then TriggerAvailability else TriggerConsecutive)
     in \<lparr>mc_FailureThreshold = failureThreshold, mc_WindowSize = windowSize, mc_Trigger = t,
         mc_MinAvailability = minAvailability\<rparr>)"

text \<open>The map of active roles: one field for each name it can hold.\<close>

record active =
  ac_pong_server :: "TCPListener option"
  ac_ping_monitor :: "pingTargetMonitor list option"
  ac_url_monitor :: "urlTargetMonitor list option"
  ac_internet_check :: "roleInternetCheck option"
  ac_speed_check :: "roleSpeedCheck option"
  ac_summary_reporter :: "SummaryReporter option"

definition active_names :: "active \<Rightarrow> string list" where
  "active_names a =
     (if ac_pong_server a = None then [] else [''pong_server''])
   @ (if ac_ping_monitor a = None then [] else [''ping_monitor''])
   @ (if ac_url_monitor a = None then [] else [''url_monitor''])
   @ (if ac_internet_check a = None then [] else [''internet_check''])
   @ (if ac_speed_check a = None then [] else [''speed_check''])
   @ (if ac_summary_reporter a = None then [] else [''summary_reporter''])"

definition is_monitoring :: "Config \<Rightarrow> bool" where
  "is_monitoring cfg \<longleftrightarrow> pm_Enabled (ro_PingMonitor (c_Roles cfg)) \<or> um_Enabled (ro_URLMonitor (c_Roles cfg))
     \<or> ic_Enabled (ro_InternetCheck (c_Roles cfg)) \<or> sc_Enabled (ro_SpeedCheck (c_Roles cfg))"

definition buildPong :: "Config \<Rightarrow> TCPListener option" where
  "buildPong cfg = (let r = ro_PongServer (c_Roles cfg) in
     if ps_Enabled r then
       (let handlers = [PingHandler] @ (if is_monitoring cfg then [SummaryHandler] else [])
        in Some (NewTCPListener (ps_Listen r) (go_mul (ps_ReadTimeoutMS r) Millisecond) (NewMessageDispatcher handlers)))
     else None)"

definition pingTarget :: "PingTarget \<Rightarrow> rolePingTarget" where
  "pingTarget t = (let p = pt_MonitorParams t in
     \<lparr>rp_Target = pt_Target t, rp_Interval = go_mul (mp_IntervalS p) Second, rp_Timeout = go_mul (mp_TimeoutMS p) Millisecond,
      rp_Channels = mp_Notify p,
      rp_Mon = monitorConfig (mp_Trigger p) (mp_WindowSize p) (mp_FailureThreshold p) (mp_MinAvailability p)\<rparr>)"

definition urlTarget :: "URLTarget \<Rightarrow> roleURLTarget" where
  "urlTarget t = (let p = ut_MonitorParams t in
     \<lparr>ru_URL = ut_URL t, ru_Interval = go_mul (mp_IntervalS p) Second, ru_Timeout = go_mul (mp_TimeoutMS p) Millisecond,
      ru_Channels = mp_Notify p,
      ru_Mon = monitorConfig (mp_Trigger p) (mp_WindowSize p) (mp_FailureThreshold p) (mp_MinAvailability p),
      ru_InsecureSkipVerify = mp_InsecureSkipVerify p\<rparr>)"

definition buildPing :: "PingMonitor \<Rightarrow> Registry option \<Rightarrow> (pingTargetMonitor list option \<times> Registry option) option" where
  "buildPing r reg = (if pm_Enabled r
     then map_option (\<lambda>(ms, reg). (Some ms, reg)) (NewPingMonitor (map pingTarget (pm_Targets r)) reg)
     else Some (None, reg))"

definition buildURL :: "URLMonitor \<Rightarrow> Registry option \<Rightarrow> (urlTargetMonitor list option \<times> Registry option) option" where
  "buildURL r reg = (if um_Enabled r
     then map_option (\<lambda>(ms, reg). (Some ms, reg)) (NewURLMonitor (map urlTarget (um_Targets r)) reg)
     else Some (None, reg))"

definition buildInternet :: "InternetCheck \<Rightarrow> Registry option \<Rightarrow> (roleInternetCheck option \<times> Registry option) option" where
  "buildInternet r reg = (if ic_Enabled r
     then (let timeout = go_mul (ic_TimeoutMS r) Millisecond in
       map_option (\<lambda>(c, reg). (Some c, reg)) (NewInternetCheck (ic_Sites r) (go_mul (ic_IntervalS r) Second) timeout
         (monitorConfig (ic_Trigger r) (ic_WindowSize r) (ic_FailureThreshold r) (ic_MinAvailability r))
         (ic_Notify r) (Some (NewHTTPClient timeout (ic_InsecureSkipVerify r))) reg))
     else Some (None, reg))"

definition buildSpeed :: "SpeedCheck \<Rightarrow> Registry option \<Rightarrow> (roleSpeedCheck option \<times> Registry option) option" where
  "buildSpeed r reg = (if sc_Enabled r
     then map_option (\<lambda>(c, reg). (Some c, reg)) (NewSpeedCheck (sc_Binary r) (go_mul (sc_IntervalS r) Second)
       (sc_ThresholdMbps r) (monitorConfig (sc_Trigger r) (sc_WindowSize r) (sc_FailureThreshold r) (sc_MinAvailability r))
       (sc_Notify r) reg)
     else Some (None, reg))"

definition buildRoles :: "Config \<Rightarrow> Registry option \<Rightarrow> (active \<times> Registry option) option" where
  "buildRoles cfg reg = do {
     let ro = c_Roles cfg;
     (ping, reg) \<leftarrow> buildPing (ro_PingMonitor ro) reg;
     (url, reg) \<leftarrow> buildURL (ro_URLMonitor ro) reg;
     (internet, reg) \<leftarrow> buildInternet (ro_InternetCheck ro) reg;
     (speed, reg) \<leftarrow> buildSpeed (ro_SpeedCheck ro) reg;
     Some (\<lparr>ac_pong_server = buildPong cfg, ac_ping_monitor = ping, ac_url_monitor = url,
       ac_internet_check = internet, ac_speed_check = speed,
       ac_summary_reporter = (if is_monitoring cfg
         then Some (NewSummaryReporter (go_mul (c_SummaryIntervalS cfg) Second)) else None)\<rparr>, reg)
   }"

subsection \<open>run\<close>

datatype run_error = ConfigFailed ConfigError | NoRolesEnabled | RoleFailed string string

text \<open>
  Everything \<open>run\<close> does before it starts the roles: \<open>loaded\<close> is the outcome of \<open>Load\<close>; the
  result is an error, or the dispatcher and the active roles. \<^term>\<open>None\<close> is a panic.
\<close>

definition startup ::
  "(string \<Rightarrow> string) \<Rightarrow> string list \<Rightarrow> ConfigError + Config \<Rightarrow>
    (run_error + Service Dispatcher \<times> active \<times> Registry option) option" where
  "startup getenv ord loaded = (case loaded of
      Inl err \<Rightarrow> Some (Inl (ConfigFailed err))
    | Inr cfg \<Rightarrow> (case buildChannels getenv ord cfg of
        Inl err \<Rightarrow> Some (Inl (ConfigFailed err))
      | Inr channels \<Rightarrow> do {
          (act, reg) \<leftarrow> buildRoles cfg (Some NewRegistry);
          Some (if active_names act = [] then Inl NoRolesEnabled
                else Inr (buildDispatcher cfg channels, act, reg))
        }))"

text \<open>
  The goroutine of a role: its \<open>Run\<close> is in progress; it has failed and logged its error; it has
  recorded the error under the mutex; it has finished. The main goroutine starts the others, waits
  for the context, waits for the others, and returns.
\<close>

datatype role_state = Running | Failed string | Recorded | Stopped

datatype main_state = Starting "string list" | Waiting | Joining | Returned

record daemon =
  dm_main :: main_state
  dm_roles :: "string \<rightharpoonup> role_state"
  dm_cancelled :: bool
  dm_fatal :: "(string \<times> string) option"
  dm_logs :: "LogLine list"

text \<open>\<open>names\<close> are the keys of the map of active roles in the order the loop over it visits them.\<close>

definition daemon_start :: "string list \<Rightarrow> daemon" where
  "daemon_start names = \<lparr>dm_main = Starting names, dm_roles = Map.empty, dm_cancelled = False,
     dm_fatal = None, dm_logs = []\<rparr>"

definition log_role_failed :: "string \<Rightarrow> string \<Rightarrow> LogLine" where
  "log_role_failed name err = log_line LevelError ''role failed'' [Attr_String ''role'' name, Attr_Error ''error'' err]"

definition log_role_stopped :: "string \<Rightarrow> LogLine" where
  "log_role_stopped name = log_line LevelInfo ''role stopped'' [Attr_String ''role'' name]"

definition log_started :: "goint \<Rightarrow> LogLine" where
  "log_started n = log_line LevelInfo ''healthd started'' [Attr_Int ''roles'' n]"

definition log_stopping :: LogLine where
  "log_stopping = log_line LevelInfo ''stopping roles'' []"

definition log_stopped :: LogLine where
  "log_stopped = log_line LevelInfo ''healthd stopped'' []"

datatype daemon_label =
    DSpawn string | DStarted | DSignal
  | DFail string string | DRecord string string | DCancel string | DStop string
  | DStopping | DReturn

text \<open>
  The atomic steps of the goroutines of \<open>run\<close> of \<open>nroles\<close> roles. A role's \<open>Run\<close> returns nil, or
  the cancellation error, only once the context is done; any other return is a failure.
\<close>

inductive daemon_step :: "nat \<Rightarrow> daemon \<Rightarrow> daemon_label \<Rightarrow> daemon \<Rightarrow> bool" for nroles where
  spawn: "dm_main s = Starting (name # names) \<Longrightarrow>
    daemon_step nroles s (DSpawn name) (s\<lparr>dm_main := Starting names, dm_roles := (dm_roles s)(name \<mapsto> Running)\<rparr>)"
| started: "dm_main s = Starting [] \<Longrightarrow>
    daemon_step nroles s DStarted (s\<lparr>dm_main := Waiting, dm_logs := dm_logs s @ [log_started (int nroles)]\<rparr>)"
| signal: "\<not> dm_cancelled s \<Longrightarrow> daemon_step nroles s DSignal (s\<lparr>dm_cancelled := True\<rparr>)"
| fails: "dm_roles s name = Some Running \<Longrightarrow>
    daemon_step nroles s (DFail name err) (s\<lparr>dm_roles := (dm_roles s)(name \<mapsto> Failed err),
      dm_logs := dm_logs s @ [log_role_failed name err]\<rparr>)"
| records: "dm_roles s name = Some (Failed err) \<Longrightarrow>
    daemon_step nroles s (DRecord name err) (s\<lparr>dm_roles := (dm_roles s)(name \<mapsto> Recorded),
      dm_fatal := (if dm_fatal s = None then Some (name, err) else dm_fatal s)\<rparr>)"
| cancels: "dm_roles s name = Some Recorded \<Longrightarrow>
    daemon_step nroles s (DCancel name) (s\<lparr>dm_roles := (dm_roles s)(name \<mapsto> Stopped), dm_cancelled := True\<rparr>)"
| stops: "dm_roles s name = Some Running \<Longrightarrow> dm_cancelled s \<Longrightarrow>
    daemon_step nroles s (DStop name) (s\<lparr>dm_roles := (dm_roles s)(name \<mapsto> Stopped),
      dm_logs := dm_logs s @ [log_role_stopped name]\<rparr>)"
| stopping: "dm_main s = Waiting \<Longrightarrow> dm_cancelled s \<Longrightarrow>
    daemon_step nroles s DStopping (s\<lparr>dm_main := Joining, dm_logs := dm_logs s @ [log_stopping]\<rparr>)"
| returns: "dm_main s = Joining \<Longrightarrow> \<forall>st \<in> ran (dm_roles s). st = Stopped \<Longrightarrow>
    daemon_step nroles s DReturn (s\<lparr>dm_main := Returned, dm_logs := dm_logs s @ [log_stopped]\<rparr>)"

inductive_cases daemon_stepE: "daemon_step nroles s l s'"

inductive daemon_run :: "nat \<Rightarrow> daemon \<Rightarrow> daemon_label list \<Rightarrow> daemon \<Rightarrow> bool" for nroles where
  start: "daemon_run nroles s [] s"
| step: "daemon_run nroles s ls t \<Longrightarrow> daemon_step nroles t l u \<Longrightarrow> daemon_run nroles s (ls @ [l]) u"

text \<open>What \<open>run\<close> returns: the recorded error, read under the mutex.\<close>

definition run_result :: "daemon \<Rightarrow> run_error option" where
  "run_result s = map_option (\<lambda>(name, err). RoleFailed name err) (dm_fatal s)"

subsection \<open>main\<close>

text \<open>
  The text of an error of \<open>run\<close>; \<open>message\<close> is the text of an error of the configuration. How \<open>main\<close>
  ends once \<open>run\<close> has returned: an error is logged and the process exits with status 1.
\<close>

definition run_error_text :: "(ConfigError \<Rightarrow> string) \<Rightarrow> run_error \<Rightarrow> string" where
  "run_error_text message e = (case e of
      ConfigFailed err \<Rightarrow> message err
    | NoRolesEnabled \<Rightarrow> ''no roles enabled; nothing to do''
    | RoleFailed name err \<Rightarrow> ''role '' @ name @ '': '' @ err)"

definition log_healthd_failed :: "string \<Rightarrow> LogLine" where
  "log_healthd_failed err = log_line LevelError ''healthd failed'' [Attr_Error ''error'' err]"

definition main_exit :: "(ConfigError \<Rightarrow> string) \<Rightarrow> run_error option \<Rightarrow> LogLine list \<times> goint" where
  "main_exit message err = (case err of
      None \<Rightarrow> ([], 0)
    | Some e \<Rightarrow> ([log_healthd_failed (run_error_text message e)], 1))"

end
