(* ===== verification/ExchangeSpec.thy ===== *)
theory ExchangeSpec
  imports ServerSpec RolesSpec
begin

text \<open>
  Both ends of the wire: a ping monitor and a request server that speak through the bytes of a
  connection understand each other.
\<close>

subsection \<open>The ping request on the wire\<close>

lemma digits_safe: "list_all is_digit s \<Longrightarrow> list_all safe_char s"
  by (auto simp: list_all_iff is_digit_def safe_char_def byte_def str_consts)

lemma wire_words_safe: "list_all safe_char ''version''" "list_all safe_char ''0.1''" "list_all safe_char ''id''"
  "list_all safe_char ''type''" "list_all safe_char ''ping''" "list_all safe_char ''payload''" "list_all safe_char ''timestamp''"
  by (simp_all add: safe_char_def byte_def str_consts)

lemma quote_safe: "list_all safe_char s \<Longrightarrow> length (quote_string s) = length s + 2"
  by (simp add: quote_string_def escape_safe(1))

lemma itoa_length: "in_int64 i \<Longrightarrow> length (itoa i) \<le> 20"
  using nat_text_length [of "nat (- i)" 19] nat_text_length [of "nat i" 19]
  by (auto simp: itoa_def in_int64_def nat_less_iff)

lemma UnixMilli_int64: "in_int64 (UnixMilli t)"
  by (simp add: UnixMilli_def)

lemma ping_id_length: "length (nat_text (unat (w :: 64 word))) \<le> 20"
  using nat_text_length [of "unat w" 20] unsigned_less [of w, where 'a = nat] by simp

lemma ping_request_length:
  "length (json_text (marshal_request (ping_request (nat_text (unat (w :: 64 word))) now))) < 200"
proof -
  have ident: "list_all safe_char (nat_text (unat w))" by (rule digits_safe) (rule nat_text_all_digits)
  show ?thesis
    using ping_id_length [of w] itoa_length [OF UnixMilli_int64, of now]
    by (simp add: marshal_request_def ping_request_def marshal_payload_def omitempty_def marshal_int_def protocol_consts
        wire_words_safe [THEN quote_safe] ident [THEN quote_safe])
qed

lemma ping_request_wire_ok: "request_wire_ok (ping_request (nat_text (unat (w :: 64 word))) now)"
proof -
  have "valid_utf8 (nat_text (unat w))" by (rule escape_safe) (rule digits_safe, rule nat_text_all_digits)
  then show ?thesis using wire_words_safe UnixMilli_int64
    by (simp add: request_wire_ok_def ping_request_def protocol_consts escape_safe(2))
qed

subsection \<open>Through the server\<close>

text \<open>What is read back from a server that is sent the bytes \<open>s\<close>: the first line of its answers.\<close>

definition read_from :: "TCPListener \<Rightarrow> (nat \<Rightarrow> Registry option \<times> time) \<Rightarrow> string \<Rightarrow> string + string" where
  "read_from l world s = (case sv_written (handle l world (\<lambda>_ _. None) s) of [] \<Rightarrow> Inl ''EOF'' | out # _ \<Rightarrow> Inr out)"

lemma plain_no_nl: "plain s \<Longrightarrow> nl \<notin> set s"
  by (auto simp: plain_def nl_def byte_def)

lemma read_from_answer:
  assumes "plain line" and "go_len line < tl_maxRequest l" and "answer l world 0 (line @ [nl]) = Some out"
  shows "read_from l world (line @ [nl]) = Inr out"
proof -
  have "ReadSlice (tl_maxRequest l) (line @ [nl]) = Line (line @ [nl]) []"
    using ReadSlice_line [OF plain_no_nl [OF assms(1)] assms(2), of "[]"] by simp
  from handle_loop_step [OF this assms(3), of "\<lambda>_ _. None"] show ?thesis
    by (simp add: read_from_def handle_def Let_def)
qed

lemma pong_wire_ok: "request_wire_ok r \<Longrightarrow> response_wire_ok (NewPong r)"
  using escape_safe(2) [OF wire_words_safe(2)]
  by (simp add: request_wire_ok_def response_wire_ok_def NewPong_def zeroPayload_def protocol_consts)
    (rule valid_key, simp)

subsection \<open>Properties\<close>

text \<open>
  C21. A ping monitor that reaches a request server which handles pings always gets its pong: the
  request it encodes is decoded by the server, and the answer of the server passes the checks of
  the monitor, so the probe succeeds, whatever the counter, the clocks and the other handlers are.
\<close>

theorem ping_reaches_server:
  assumes "pe_dial env = None" and "pe_write env = None" and "pe_read env = read_from l world"
    and "tl_dispatcher l TypePing = Some PingHandler" and "tl_maxRequest l = defaultMaxRequestBytes"
  shows "fst (ping_probe quote env m) = None"
proof -
  define ident where "ident = nat_text (unat (pg_idCounter m + 1))"
  define req where "req = ping_request ident (pe_now env)"
  have ok: "request_wire_ok req" unfolding req_def ident_def by (rule ping_request_wire_ok)
  have sp: "list_all is_space [nl]" by (simp add: is_space_def nl_def)
  have len: "go_len (json_text (marshal_request req)) < tl_maxRequest l"
    using ping_request_length [of "pg_idCounter m + 1" "pe_now env"] assms(5)
    by (simp add: req_def ident_def go_len_def defaultMaxRequestBytes_def)
  have req: "req_Version req = Version" "req_Type req = TypePing" "req_ID req = ident"
    by (simp_all add: req_def ping_request_def)
  obtain line where line: "EncodeRequest req = Inr line" "line = json_text (marshal_request req)" "plain line"
    "DecodeRequest (line @ [nl]) = (req, None)"
    using wire_plain [OF wire_request [OF ok]] unmarshal_wire [OF wire_request [OF ok] _ sp] dec_request_marshal [of req] ok req
    by (simp add: EncodeRequest_def DecodeRequest_def request_wire_ok_def)
  obtain v where v: "marshal_response (NewPong req) = Inr v" "dec_response v zeroResponse = Some (NewPong req)" "wire_json 6 v"
    using dec_response_marshal [OF pong_wire_ok [OF ok]] by blast
  have "answer l world 0 (line @ [nl]) = Some (json_text v @ [nl])"
    unfolding answer_def MessageDispatcher_Dispatch_def line(4)
    using assms(4) req v(1) by (simp add: handler_Handle_def EncodeResponse_def)
  then have rd: "read_from l world (line @ [nl]) = Inr (json_text v @ [nl])"
    using read_from_answer [OF line(3)] len line(2) by blast
  have "DecodeResponse (json_text v @ [nl]) = Inr (NewPong req)"
    using unmarshal_wire [OF v(3) _ sp] v(2) by (simp add: DecodeResponse_def)
  with assms(1,2,3) rd line(1) req show ?thesis
    by (simp add: ping_probe_def Let_def check_pong_def NewPong_def nl_def [symmetric] flip: ident_def req_def)
qed

definition example_server :: TCPListener where
  "example_server = NewTCPListener '':9000'' 1 (NewMessageDispatcher [PingHandler])"

lemma example_server_fields: "tl_dispatcher example_server = [TypePing \<mapsto> PingHandler]"
  "tl_maxRequest example_server = defaultMaxRequestBytes"
  by (simp_all add: example_server_def NewTCPListener_def NewMessageDispatcher_def handler_Type_def)

theorem ping_reaches_server_witness:
  "fst (ping_probe id \<lparr>pe_dial = None, pe_now = 0, pe_write = None, pe_read = read_from example_server (\<lambda>_. (None, 0))\<rparr>
     \<lparr>pg_target = ''a'', pg_interval = 1, pg_timeout = 1, pg_channels = [], pg_sm = example_unit, pg_handle = None, pg_idCounter = 41\<rparr>) = None"
  by (rule ping_reaches_server [of _ example_server "\<lambda>_. (None, 0)"]) (simp_all add: example_server_fields)

end
