(* ===== verification/HealthdSpec.thy ===== *)
theory HealthdSpec
  imports Healthd ConfigJsonSpec ExchangeSpec DispatcherSpec
begin

text \<open>
  Properties of the whole daemon: what a loaded configuration is built into, the fail-fast life
  cycle of its goroutines, and the exchange between a ping monitor and a request server.
\<close>

subsection \<open>The life cycle: invariant and potential\<close>

lemmas daemon_defs = daemon_start_def run_result_def

text \<open>The roles that have been started are a prefix of the roles.\<close>

definition daemon_inv :: "string list \<Rightarrow> daemon \<Rightarrow> bool" where
  "daemon_inv names s \<longleftrightarrow>
     (\<exists>spawned. dom (dm_roles s) = set spawned
        \<and> names = spawned @ (case dm_main s of Starting ns \<Rightarrow> ns | _ \<Rightarrow> []))
   \<and> (dm_main s \<in> {Joining, Returned} \<longrightarrow> dm_cancelled s)
   \<and> (dm_main s = Returned \<longrightarrow> (\<forall>st \<in> ran (dm_roles s). st = Stopped))"

text \<open>Failures, and the errors recorded under the mutex, along a run.\<close>

definition failures :: "daemon_label list \<Rightarrow> (string \<times> string) list" where
  "failures ls = concat (map (\<lambda>l. case l of DFail n e \<Rightarrow> [(n, e)] | _ \<Rightarrow> []) ls)"

definition recorded :: "daemon_label list \<Rightarrow> (string \<times> string) list" where
  "recorded ls = concat (map (\<lambda>l. case l of DRecord n e \<Rightarrow> [(n, e)] | _ \<Rightarrow> []) ls)"

lemma daemon_trace_simps [simp]:
  "failures [] = []" "failures (ls @ ls') = failures ls @ failures ls'"
  "failures [l] = (case l of DFail n e \<Rightarrow> [(n, e)] | _ \<Rightarrow> [])"
  "recorded [] = []" "recorded (ls @ ls') = recorded ls @ recorded ls'"
  "recorded [l] = (case l of DRecord n e \<Rightarrow> [(n, e)] | _ \<Rightarrow> [])"
  by (simp_all add: failures_def recorded_def)

definition first :: "'a list \<Rightarrow> 'a option" where
  "first xs = (case xs of [] \<Rightarrow> None | x # _ \<Rightarrow> Some x)"

lemma first_simps [simp]:
  "first [] = None" "first (xs @ [y]) = (if first xs = None then Some y else first xs)"
  "first xs = None \<longleftrightarrow> xs = []"
  by (simp_all add: first_def split: list.splits)

lemma daemon_step_inv:
  assumes "daemon_step nroles s l s'" and "daemon_inv names s"
  shows "daemon_inv names s'"
  using assms
proof cases
  case (spawn name ns)
  with assms(2) obtain spawned where "dom (dm_roles s) = set spawned" "names = (spawned @ [name]) @ ns"
    by (auto simp: daemon_inv_def)
  with spawn show ?thesis by (auto simp: daemon_inv_def intro!: exI [of _ "spawned @ [name]"])
qed (use assms(2) in \<open>auto simp: daemon_inv_def insert_absorb domI ran_def split: main_state.splits\<close>)

lemma spawn_fresh:
  assumes "daemon_inv names s" and "distinct names" and "dm_main s = Starting (name # ns)"
  shows "dm_roles s name = None" and "name \<in> set names"
proof -
  from assms(1,3) obtain spawned where sp: "dom (dm_roles s) = set spawned" "names = spawned @ name # ns"
    by (auto simp: daemon_inv_def)
  with assms(2) have "name \<notin> dom (dm_roles s)" by auto
  with sp(2) show "dm_roles s name = None" "name \<in> set names" by auto
qed

definition failed_roles :: "(string \<rightharpoonup> role_state) \<Rightarrow> (string \<times> string) set" where
  "failed_roles m = {(n, e). m n = Some (Failed e)}"

lemma failed_roles_upd:
  "\<forall>e. m n \<noteq> Some (Failed e) \<Longrightarrow> \<forall>e. st \<noteq> Failed e \<Longrightarrow> failed_roles (m(n \<mapsto> st)) = failed_roles m"
  "\<forall>e. m n \<noteq> Some (Failed e) \<Longrightarrow> failed_roles (m(n \<mapsto> Failed err)) = insert (n, err) (failed_roles m)"
  "m n = Some (Failed err) \<Longrightarrow> insert (n, err) (failed_roles (m(n \<mapsto> Recorded))) = failed_roles m"
  by (auto simp: failed_roles_def split: if_splits)

definition trace_inv :: "daemon_label list \<Rightarrow> daemon \<Rightarrow> bool" where
  "trace_inv ls s \<longleftrightarrow> dm_fatal s = first (recorded ls)
     \<and> set (failures ls) = set (recorded ls) \<union> failed_roles (dm_roles s)"

lemma daemon_step_trace:
  assumes "daemon_step nroles s l s'" and "trace_inv ls s" and "daemon_inv names s" and "distinct names"
  shows "trace_inv (ls @ [l]) s'"
  using assms(1)
proof cases
  case (spawn name ns)
  with spawn_fresh(1) [OF assms(3,4) spawn(3)] assms(2) show ?thesis by (simp add: trace_inv_def failed_roles_upd)
next
  case (records name err)
  with assms(2) failed_roles_upd(3) [of "dm_roles s" name err] show ?thesis by (auto simp: trace_inv_def)
qed (use assms(2) in \<open>simp_all add: trace_inv_def failed_roles_upd\<close>)

fun role_weight :: "role_state option \<Rightarrow> nat" where
  "role_weight None = 4"
| "role_weight (Some Running) = 3"
| "role_weight (Some (Failed _)) = 2"
| "role_weight (Some Recorded) = 1"
| "role_weight (Some Stopped) = 0"

fun main_weight :: "main_state \<Rightarrow> nat" where
  "main_weight (Starting _) = 3"
| "main_weight Waiting = 2"
| "main_weight Joining = 1"
| "main_weight Returned = 0"

definition potential :: "string list \<Rightarrow> daemon \<Rightarrow> nat" where
  "potential names s = main_weight (dm_main s) + (\<Sum>n \<in> set names. role_weight (dm_roles s n))
     + (if dm_cancelled s then 0 else 1)"

lemma sum_role_weight_less:
  assumes "n \<in> set names" and "role_weight (Some st) < role_weight (m n)"
  shows "(\<Sum>k \<in> set names. role_weight ((m(n \<mapsto> st)) k)) < (\<Sum>k \<in> set names. role_weight (m k))"
  by (rule sum_strict_mono_ex1) (use assms in auto)

lemma daemon_step_potential:
  assumes "daemon_step nroles s l s'" and "daemon_inv names s" and "distinct names"
  shows "potential names s' < potential names s"
proof -
  have mem: "n \<in> set names" if "dm_roles s n = Some st" for n st
    using that assms(2) by (auto simp: daemon_inv_def)
  show ?thesis
    using assms(1)
  proof cases
    case (spawn name ns)
    with spawn_fresh [OF assms(2,3) spawn(3)] sum_role_weight_less [of name names Running "dm_roles s"] show ?thesis
      by (simp add: potential_def)
  next
    case (fails name err)
    with mem sum_role_weight_less [of name names "Failed err" "dm_roles s"] show ?thesis by (simp add: potential_def)
  next
    case (records name err)
    with mem sum_role_weight_less [of name names Recorded "dm_roles s"] show ?thesis by (simp add: potential_def)
  next
    case (cancels name)
    with mem sum_role_weight_less [of name names Stopped "dm_roles s"] show ?thesis by (simp add: potential_def)
  next
    case (stops name)
    with mem sum_role_weight_less [of name names Stopped "dm_roles s"] show ?thesis by (simp add: potential_def)
  qed (simp_all add: potential_def)
qed

lemma daemon_run_facts:
  assumes "daemon_run nroles (daemon_start names) ls s" and "distinct names"
  shows "daemon_inv names s \<and> trace_inv ls s \<and> length ls + potential names s \<le> 4 * length names + 4"
  using assms(1)
proof (induction "daemon_start names" ls s rule: daemon_run.induct)
  case start
  have "potential names (daemon_start names) = 4 * length names + 4"
    using distinct_card [OF assms(2)] by (simp add: potential_def daemon_start_def)
  then show ?case by (simp add: daemon_inv_def trace_inv_def failed_roles_def daemon_start_def)
next
  case (step ls t l u)
  with daemon_step_inv [of nroles t l u names] daemon_step_trace [of nroles t l u ls names]
    daemon_step_potential [of nroles t l u names] assms(2)
  show ?case by fastforce
qed

subsection \<open>The life cycle: fail fast\<close>

text \<open>The daemon is on its way down: the context is cancelled, or a failed role is about to do so.\<close>

definition going_down :: "daemon \<Rightarrow> bool" where
  "going_down s \<longleftrightarrow> dm_cancelled s \<or> (\<exists>n st. dm_roles s n = Some st \<and> st \<noteq> Running \<and> st \<noteq> Stopped)"

definition internal :: "daemon_label \<Rightarrow> bool" where
  "internal l \<longleftrightarrow> (case l of DSignal \<Rightarrow> False | DFail _ _ \<Rightarrow> False | _ \<Rightarrow> True)"

lemma failing_step:
  assumes "dm_roles s n = Some st" and "st \<noteq> Running" and "st \<noteq> Stopped"
  shows "\<exists>l s'. daemon_step nroles s l s' \<and> internal l \<and> going_down s'"
proof (cases st)
  case (Failed err)
  with assms daemon_step.records [of s n err nroles] show ?thesis
    by (fastforce simp: internal_def going_down_def)
next
  case Recorded
  with assms daemon_step.cancels [of s n nroles] show ?thesis
    by (fastforce simp: internal_def going_down_def)
qed (use assms in auto)

lemma going_down_step:
  assumes "daemon_inv names s" and "going_down s" and "dm_main s \<noteq> Returned"
  shows "\<exists>l s'. daemon_step nroles s l s' \<and> internal l \<and> going_down s'"
proof (cases "\<exists>n st. dm_roles s n = Some st \<and> st \<noteq> Running \<and> st \<noteq> Stopped")
  case True
  then show ?thesis using failing_step by blast
next
  case False
  with assms(2) have c: "dm_cancelled s" by (auto simp: going_down_def)
  show ?thesis
  proof (cases "dm_main s")
    case (Starting ns)
    with c daemon_step.spawn [of s "hd ns" "tl ns" nroles] daemon_step.started [of s nroles] show ?thesis
      by (cases ns) (fastforce simp: internal_def going_down_def)+
  next
    case Waiting
    with c daemon_step.stopping [of s nroles] show ?thesis by (fastforce simp: internal_def going_down_def)
  next
    case Joining
    show ?thesis
    proof (cases "\<forall>st \<in> ran (dm_roles s). st = Stopped")
      case True
      with Joining c daemon_step.returns [of s nroles] show ?thesis by (fastforce simp: internal_def going_down_def)
    next
      case nr: False
      with False obtain n where "dm_roles s n = Some Running" by (auto simp: ran_def)
      with c daemon_step.stops [of s n nroles] show ?thesis by (fastforce simp: internal_def going_down_def)
    qed
  qed (use assms in auto)
qed

lemma daemon_step_going_down:
  assumes "daemon_step nroles s l s'" and "daemon_inv names s" and "distinct names" and "going_down s \<or> \<not> internal l"
  shows "going_down s'"
  using assms(1)
proof cases
  case (spawn name ns)
  then have "dm_roles s name = None" using spawn_fresh(1) [OF assms(2,3)] by blast
  then have kept: "dm_roles s' n = Some st" if "dm_roles s n = Some st" for n st using that spawn by auto
  have "dm_cancelled s' = dm_cancelled s" "going_down s" using spawn assms(4) by (simp_all add: internal_def)
  with kept show ?thesis unfolding going_down_def by blast
qed (use assms(4) in \<open>auto simp: going_down_def internal_def\<close>)

lemma going_down_trace:
  assumes "daemon_run nroles (daemon_start names) ls s" and "distinct names" and "\<not> list_all internal ls"
  shows "going_down s"
  using assms(1,3)
proof (induction "daemon_start names" ls s rule: daemon_run.induct)
  case (step ls t l u)
  from daemon_run_facts [OF step.hyps(1) assms(2)] have "daemon_inv names t" by blast
  with step assms(2) show ?case by (intro daemon_step_going_down [of nroles t l u names]) auto
qed simp

lemma internal_trace: "list_all internal ls \<longleftrightarrow> DSignal \<notin> set ls \<and> failures ls = []"
  by (induction ls) (auto simp: failures_def internal_def split: daemon_label.splits)

lemma daemon_goes_down:
  assumes "daemon_run nroles (daemon_start names) ls s" and "distinct names" and "going_down s"
  shows "\<exists>ls' s'. daemon_run nroles (daemon_start names) (ls @ ls') s' \<and> dm_main s' = Returned \<and> list_all internal ls'"
  using assms(1,3)
proof (induction "potential names s" arbitrary: ls s rule: less_induct)
  case less
  show ?case
  proof (cases "dm_main s = Returned")
    case True
    with less.prems show ?thesis by (intro exI [of _ "[]"] exI [of _ s]) simp
  next
    case False
    from daemon_run_facts [OF less.prems(1) assms(2)] have inv: "daemon_inv names s" by blast
    from going_down_step [OF this less.prems(2) False] obtain l t
      where t: "daemon_step nroles s l t" "internal l" "going_down t" by blast
    from less.hyps [OF daemon_step_potential [OF t(1) inv assms(2)] daemon_run.step [OF less.prems(1) t(1)] t(3)]
    obtain ls' s' where "daemon_run nroles (daemon_start names) ((ls @ [l]) @ ls') s'" "dm_main s' = Returned" "list_all internal ls'"
      by blast
    with t(2) show ?thesis by (intro exI [of _ "l # ls'"] exI [of _ s']) simp
  qed
qed

subsection \<open>What a configuration is built into\<close>

lemma newService_ok: "channel_ok ch \<Longrightarrow> \<exists>svc. newService getenv name ch = Inr svc"
  by (auto simp: channel_ok_def newService_def cfg_consts)

lemma buildChannels_loop_ok:
  assumes "\<forall>ch \<in> ran chs. channel_ok ch"
  shows "\<exists>out'. buildChannels_loop getenv chs ord out = Inr out' \<and> dom out' = dom out \<union> (set ord \<inter> dom chs)"
proof (induction ord arbitrary: out)
  case (Cons name ord)
  show ?case
  proof (cases "chs name")
    case None
    with Cons.IH [of out] show ?thesis by (auto simp: domIff)
  next
    case (Some ch)
    with assms newService_ok obtain svc where svc: "newService getenv name ch = Inr svc" by (blast intro: ranI)
    from Cons.IH [of "out(name \<mapsto> svc)"] obtain out' where
      "buildChannels_loop getenv chs ord (out(name \<mapsto> svc)) = Inr out'" "dom out' = dom (out(name \<mapsto> svc)) \<union> (set ord \<inter> dom chs)"
      by blast
    with Some svc show ?thesis by auto
  qed
qed simp

lemma buildChannels_ok:
  assumes "\<forall>ch \<in> ran (c_Channels cfg). channel_ok ch" and "iterates ord (c_Channels cfg)"
  shows "\<exists>channels. buildChannels getenv ord cfg = Inr channels \<and> dom channels = dom (c_Channels cfg)"
  using buildChannels_loop_ok [OF assms(1), of getenv ord Map.empty] assms(2)
  by (auto simp: buildChannels_def iterates_def)

text \<open>
  A unit that can start: its machine is in its initial health, its ticker does not panic, and it
  notifies only channels that exist.
\<close>

definition can_start :: "(string \<rightharpoonup> 'c) \<Rightarrow> StateMachine \<Rightarrow> duration \<Rightarrow> string list \<Rightarrow> bool" where
  "can_start chs sm interval names \<longleftrightarrow>
     sm_inv sm \<and> SM_State sm = Healthy \<and> 0 < interval \<and> set names \<subseteq> dom chs"

text \<open>The largest number of seconds that is a \<^verbatim>\<open>time.Duration\<close>, and windows that are Go integers.\<close>

definition in_range :: "goint \<Rightarrow> goint \<Rightarrow> bool" where
  "in_range interval_s window_size \<longleftrightarrow> interval_s \<le> 9223372036 \<and> window_size < 2 ^ 63"

definition config_in_range :: "Config \<Rightarrow> bool" where
  "config_in_range c \<longleftrightarrow> (let ro = c_Roles c in
     (\<forall>t \<in> set (pm_Targets (ro_PingMonitor ro)). in_range (mp_IntervalS (pt_MonitorParams t)) (mp_WindowSize (pt_MonitorParams t)))
   \<and> (\<forall>t \<in> set (um_Targets (ro_URLMonitor ro)). in_range (mp_IntervalS (ut_MonitorParams t)) (mp_WindowSize (ut_MonitorParams t)))
   \<and> in_range (ic_IntervalS (ro_InternetCheck ro)) (ic_WindowSize (ro_InternetCheck ro))
   \<and> in_range (sc_IntervalS (ro_SpeedCheck ro)) (sc_WindowSize (ro_SpeedCheck ro))
   \<and> in_range (c_SummaryIntervalS c) 0)"

text \<open>The sizes are in range in every decoded configuration; the intervals have to be.\<close>

definition max_seconds :: goint where
  "max_seconds = 9223372036"

definition intervals_ok :: "Config \<Rightarrow> bool" where
  "intervals_ok c \<longleftrightarrow> (let ro = c_Roles c in
     (\<forall>t \<in> set (pm_Targets (ro_PingMonitor ro)). mp_IntervalS (pt_MonitorParams t) \<le> max_seconds)
   \<and> (\<forall>t \<in> set (um_Targets (ro_URLMonitor ro)). mp_IntervalS (ut_MonitorParams t) \<le> max_seconds)
   \<and> ic_IntervalS (ro_InternetCheck ro) \<le> max_seconds \<and> sc_IntervalS (ro_SpeedCheck ro) \<le> max_seconds
   \<and> c_SummaryIntervalS c \<le> max_seconds)"

lemma typed_in_range: "config_typed c \<Longrightarrow> intervals_ok c \<Longrightarrow> config_in_range c"
  by (auto simp: config_in_range_def intervals_ok_def in_range_def max_seconds_def config_typed_def roles_typed_def
      ping_typed_def url_typed_def internet_typed_def speed_typed_def params_typed_def in_int64_def list_all_iff Let_def)

lemma seconds_pos:
  assumes "0 < n" and "in_range n w"
  shows "0 < go_mul n Second"
proof -
  have "in_int64 (n * Second)" using assms by (simp add: in_int64_def Second_def in_range_def)
  with assms(1) show ?thesis by (simp add: go_simps Second_def)
qed

lemma monitorConfig_window [simp]: "mc_WindowSize (monitorConfig tr w f a) = w"
  by (simp add: monitorConfig_def Let_def)

text \<open>What each role must be for a configuration: absent if disabled, else one unit for each target.\<close>

definition ping_ready :: "(string \<rightharpoonup> 'c) \<Rightarrow> PingMonitor \<Rightarrow> pingTargetMonitor list option \<Rightarrow> bool" where
  "ping_ready chs r res \<longleftrightarrow> (case res of None \<Rightarrow> \<not> pm_Enabled r
    | Some ms \<Rightarrow> pm_Enabled r \<and> map pg_target ms = map pt_Target (pm_Targets r)
        \<and> (\<forall>m \<in> set ms. can_start chs (pg_sm m) (pg_interval m) (pg_channels m)))"

definition url_ready :: "(string \<rightharpoonup> 'c) \<Rightarrow> URLMonitor \<Rightarrow> urlTargetMonitor list option \<Rightarrow> bool" where
  "url_ready chs r res \<longleftrightarrow> (case res of None \<Rightarrow> \<not> um_Enabled r
    | Some ms \<Rightarrow> um_Enabled r \<and> map ul_url ms = map ut_URL (um_Targets r)
        \<and> (\<forall>m \<in> set ms. can_start chs (ul_sm m) (ul_interval m) (ul_channels m)))"

definition internet_ready :: "(string \<rightharpoonup> 'c) \<Rightarrow> InternetCheck \<Rightarrow> roleInternetCheck option \<Rightarrow> bool" where
  "internet_ready chs r res \<longleftrightarrow> (case res of None \<Rightarrow> \<not> ic_Enabled r
    | Some c \<Rightarrow> ic_Enabled r \<and> in_sites c = ic_Sites r \<and> in_sites c \<noteq> [] \<and> in_next c = 0
        \<and> can_start chs (in_sm c) (in_interval c) (in_channels c))"

definition speed_ready :: "(string \<rightharpoonup> 'c) \<Rightarrow> SpeedCheck \<Rightarrow> roleSpeedCheck option \<Rightarrow> bool" where
  "speed_ready chs r res \<longleftrightarrow> (case res of None \<Rightarrow> \<not> sc_Enabled r
    | Some c \<Rightarrow> sc_Enabled r \<and> sp_threshold c = sc_ThresholdMbps r
        \<and> can_start chs (sp_sm c) (sp_interval c) (sp_channels c))"

definition roles_ready :: "(string \<rightharpoonup> 'c) \<Rightarrow> Config \<Rightarrow> active \<Rightarrow> bool" where
  "roles_ready chs cfg act \<longleftrightarrow> (let ro = c_Roles cfg in
     (ac_pong_server act = None \<longleftrightarrow> \<not> ps_Enabled (ro_PongServer ro))
   \<and> ping_ready chs (ro_PingMonitor ro) (ac_ping_monitor act)
   \<and> url_ready chs (ro_URLMonitor ro) (ac_url_monitor act)
   \<and> internet_ready chs (ro_InternetCheck ro) (ac_internet_check act)
   \<and> speed_ready chs (ro_SpeedCheck ro) (ac_speed_check act)
   \<and> (case ac_summary_reporter act of None \<Rightarrow> \<not> is_monitoring cfg
      | Some r \<Rightarrow> is_monitoring cfg \<and> 0 < sr_interval r))"

lemma list_all2_right: "list_all2 P xs ys \<Longrightarrow> y \<in> set ys \<Longrightarrow> \<exists>x \<in> set xs. P x y"
  by (induction rule: list_all2_induct) auto

lemma buildPing_ok:
  assumes "ping_ok chs r" and "registry_ok reg"
    and "\<forall>t \<in> set (pm_Targets r). in_range (mp_IntervalS (pt_MonitorParams t)) (mp_WindowSize (pt_MonitorParams t))"
  shows "\<exists>res reg'. buildPing r reg = Some (res, reg') \<and> registry_ok reg' \<and> ping_ready chs r res"
proof (cases "pm_Enabled r")
  case True
  have "mc_WindowSize (rp_Mon t) < 2 ^ 63" if "t \<in> set (map pingTarget (pm_Targets r))" for t
    using assms(3) that by (auto simp: pingTarget_def Let_def in_range_def)
  from NewPingMonitor_ok [of reg "map pingTarget (pm_Targets r)", OF assms(2) this] obtain ms reg' where
    ms: "NewPingMonitor (map pingTarget (pm_Targets r)) reg = Some (ms, reg')" "registry_ok reg'"
      "list_all2 (\<lambda>t m. ping_unit (pingTarget t) m) (pm_Targets r) ms"
    by (auto simp: list_all2_map1)
  have "map pg_target ms = map pt_Target (pm_Targets r)"
    using ms(3) by (induction rule: list_all2_induct) (simp_all add: ping_unit_def pingTarget_def Let_def)
  moreover have "can_start chs (pg_sm m) (pg_interval m) (pg_channels m)" if m: "m \<in> set ms" for m
  proof -
    from list_all2_right [OF ms(3) m] obtain t where "t \<in> set (pm_Targets r)" "ping_unit (pingTarget t) m" by blast
    with assms(1,3) True seconds_pos show ?thesis
      by (fastforce simp: ping_unit_def pingTarget_def Let_def can_start_def ping_ok_def params_ok_def)
  qed
  ultimately show ?thesis using True ms by (simp add: buildPing_def ping_ready_def)
qed (use assms in \<open>simp add: buildPing_def ping_ready_def\<close>)

lemma buildURL_ok:
  assumes "url_ok chs r" and "registry_ok reg"
    and "\<forall>t \<in> set (um_Targets r). in_range (mp_IntervalS (ut_MonitorParams t)) (mp_WindowSize (ut_MonitorParams t))"
  shows "\<exists>res reg'. buildURL r reg = Some (res, reg') \<and> registry_ok reg' \<and> url_ready chs r res"
proof (cases "um_Enabled r")
  case True
  have "mc_WindowSize (ru_Mon t) < 2 ^ 63" if "t \<in> set (map urlTarget (um_Targets r))" for t
    using assms(3) that by (auto simp: urlTarget_def Let_def in_range_def)
  from NewURLMonitor_ok [of reg "map urlTarget (um_Targets r)", OF assms(2) this] obtain ms reg' where
    ms: "NewURLMonitor (map urlTarget (um_Targets r)) reg = Some (ms, reg')" "registry_ok reg'"
      "list_all2 (\<lambda>t m. url_unit (urlTarget t) m) (um_Targets r) ms"
    by (auto simp: list_all2_map1)
  have "map ul_url ms = map ut_URL (um_Targets r)"
    using ms(3) by (induction rule: list_all2_induct) (simp_all add: url_unit_def urlTarget_def Let_def)
  moreover have "can_start chs (ul_sm m) (ul_interval m) (ul_channels m)" if m: "m \<in> set ms" for m
  proof -
    from list_all2_right [OF ms(3) m] obtain t where "t \<in> set (um_Targets r)" "url_unit (urlTarget t) m" by blast
    with assms(1,3) True seconds_pos show ?thesis
      by (fastforce simp: url_unit_def urlTarget_def Let_def can_start_def url_ok_def params_ok_def)
  qed
  ultimately show ?thesis using True ms by (simp add: buildURL_def url_ready_def)
qed (use assms in \<open>simp add: buildURL_def url_ready_def\<close>)

lemma buildInternet_ok:
  assumes "internet_ok chs r" and "registry_ok reg" and "in_range (ic_IntervalS r) (ic_WindowSize r)"
  shows "\<exists>res reg'. buildInternet r reg = Some (res, reg') \<and> registry_ok reg' \<and> internet_ready chs r res"
proof (cases "ic_Enabled r")
  case True
  let ?mon = "monitorConfig (ic_Trigger r) (ic_WindowSize r) (ic_FailureThreshold r) (ic_MinAvailability r)"
  let ?timeout = "go_mul (ic_TimeoutMS r) Millisecond"
  have "mc_WindowSize ?mon < 2 ^ 63" using assms(3) by (simp add: in_range_def)
  from NewInternetCheck_ok [OF assms(2) this, of "ic_Sites r" "go_mul (ic_IntervalS r) Second" ?timeout "ic_Notify r"
      "Some (NewHTTPClient ?timeout (ic_InsecureSkipVerify r))"]
  show ?thesis using True assms(1) seconds_pos [OF _ assms(3)]
    by (auto simp: buildInternet_def internet_ready_def Let_def can_start_def internet_ok_def)
qed (use assms in \<open>simp add: buildInternet_def internet_ready_def\<close>)

lemma buildSpeed_ok:
  assumes "speed_ok chs r" and "registry_ok reg" and "in_range (sc_IntervalS r) (sc_WindowSize r)"
  shows "\<exists>res reg'. buildSpeed r reg = Some (res, reg') \<and> registry_ok reg' \<and> speed_ready chs r res"
proof (cases "sc_Enabled r")
  case True
  let ?mon = "monitorConfig (sc_Trigger r) (sc_WindowSize r) (sc_FailureThreshold r) (sc_MinAvailability r)"
  have "mc_WindowSize ?mon < 2 ^ 63" using assms(3) by (simp add: in_range_def)
  from NewSpeedCheck_ok [OF assms(2) this, of "sc_Binary r" "go_mul (sc_IntervalS r) Second" "sc_ThresholdMbps r" "sc_Notify r"]
  show ?thesis using True assms(1) seconds_pos [OF _ assms(3)]
    by (auto simp: buildSpeed_def speed_ready_def can_start_def speed_ok_def)
qed (use assms in \<open>simp add: buildSpeed_def speed_ready_def\<close>)

lemma buildRoles_ok:
  assumes v: "valid_config cfg" and rng: "config_in_range cfg"
  shows "\<exists>act reg. buildRoles cfg (Some NewRegistry) = Some (act, reg) \<and> registry_ok reg
    \<and> roles_ready (c_Channels cfg) cfg act"
proof -
  let ?ro = "c_Roles cfg" and ?chs = "c_Channels cfg"
  note facts = v [unfolded valid_config_def] rng [unfolded config_in_range_def Let_def]
  obtain p r1 where p: "buildPing (ro_PingMonitor ?ro) (Some NewRegistry) = Some (p, r1)" "registry_ok r1"
    "ping_ready ?chs (ro_PingMonitor ?ro) p"
    using buildPing_ok [of ?chs "ro_PingMonitor ?ro" "Some NewRegistry"] facts NewRegistry_inv by (auto simp: registry_ok_def)
  obtain u r2 where u: "buildURL (ro_URLMonitor ?ro) r1 = Some (u, r2)" "registry_ok r2"
    "url_ready ?chs (ro_URLMonitor ?ro) u"
    using buildURL_ok [OF _ p(2), of ?chs "ro_URLMonitor ?ro"] facts by auto
  obtain i r3 where i: "buildInternet (ro_InternetCheck ?ro) r2 = Some (i, r3)" "registry_ok r3"
    "internet_ready ?chs (ro_InternetCheck ?ro) i"
    using buildInternet_ok [OF _ u(2), of ?chs "ro_InternetCheck ?ro"] facts by auto
  obtain sp r4 where sp: "buildSpeed (ro_SpeedCheck ?ro) r3 = Some (sp, r4)" "registry_ok r4"
    "speed_ready ?chs (ro_SpeedCheck ?ro) sp"
    using buildSpeed_ok [OF _ i(2), of ?chs "ro_SpeedCheck ?ro"] facts by auto
  have "0 < go_mul (c_SummaryIntervalS cfg) Second" using seconds_pos facts by blast
  with p u i sp show ?thesis
    by (simp add: buildRoles_def roles_ready_def Let_def buildPong_def NewSummaryReporter_def)
qed

lemma roles_ready_names:
  assumes "roles_ready chs cfg act"
  shows "active_names act = [] \<longleftrightarrow> \<not> (ps_Enabled (ro_PongServer (c_Roles cfg)) \<or> is_monitoring cfg)"
  using assms
  by (auto simp: roles_ready_def active_names_def ping_ready_def url_ready_def internet_ready_def speed_ready_def
      is_monitoring_def Let_def split: option.splits)

lemma roles_ready_dom:
  assumes "dom chs' = dom chs"
  shows "roles_ready chs' cfg act = roles_ready chs cfg act"
proof -
  have "can_start chs' = can_start chs" using assms by (simp add: can_start_def fun_eq_iff)
  then show ?thesis by (simp only: roles_ready_def ping_ready_def url_ready_def internet_ready_def speed_ready_def)
qed

subsection \<open>Properties\<close>

lemma example_run:
  "\<exists>s. daemon_run 1 (daemon_start [''pong_server''])
     [DSpawn ''pong_server'', DFail ''pong_server'' ''in use'', DRecord ''pong_server'' ''in use''] s"
proof -
  let ?s0 = "daemon_start [''pong_server'']"
  have "daemon_step 1 ?s0 (DSpawn ''pong_server'') (?s0\<lparr>dm_main := Starting [], dm_roles := [''pong_server'' \<mapsto> Running]\<rparr>)"
    using daemon_step.spawn [of ?s0 "''pong_server''" "[]" 1] by (simp add: daemon_start_def)
  from daemon_run.step [OF daemon_run.start this]
  obtain t1 where t1: "daemon_run 1 ?s0 [DSpawn ''pong_server''] t1" "dm_roles t1 ''pong_server'' = Some Running" by simp
  from daemon_run.step [OF t1(1) daemon_step.fails [OF t1(2), of 1 "''in use''"]]
  obtain t2 where t2: "daemon_run 1 ?s0 [DSpawn ''pong_server'', DFail ''pong_server'' ''in use''] t2"
    "dm_roles t2 ''pong_server'' = Some (Failed ''in use'')" by simp
  from daemon_run.step [OF t2(1) daemon_step.records [OF t2(2), of 1]] show ?thesis by auto
qed

text \<open>
  C30. Fail fast, safety: whatever the schedule, the error \<open>run\<close> returns is the first one a role
  recorded; once it returns every role has stopped, it returns nil exactly when no role failed, and
  the process exits with status 0 then and with 1 otherwise.
\<close>

theorem daemon_first_failure_wins:
  assumes "distinct names" and "daemon_run nroles (daemon_start names) ls s"
  shows "run_result s = map_option (\<lambda>(name, err). RoleFailed name err) (first (recorded ls))
    \<and> set (recorded ls) \<subseteq> set (failures ls)
    \<and> (dm_main s = Returned \<longrightarrow> dm_roles s = (\<lambda>n. if n \<in> set names then Some Stopped else None)
         \<and> (run_result s = None \<longleftrightarrow> failures ls = [])
         \<and> snd (main_exit message (run_result s)) = (if failures ls = [] then 0 else 1))"
proof -
  have inv: "daemon_inv names s" "trace_inv ls s" using daemon_run_facts [OF assms(2,1)] by blast+
  have fin: "dm_roles s n = (if n \<in> set names then Some Stopped else None)" if "dm_main s = Returned" for n
    using that inv(1) by (cases "dm_roles s n") (auto simp: daemon_inv_def ran_def)
  moreover have "run_result s = None \<longleftrightarrow> failures ls = []" if "dm_main s = Returned"
  proof -
    have "failed_roles (dm_roles s) = {}" using fin [OF that] by (auto simp: failed_roles_def split: if_splits)
    then have "set (failures ls) = set (recorded ls)" using inv(2) by (simp add: trace_inv_def)
    then have "failures ls = [] \<longleftrightarrow> recorded ls = []" by (metis set_empty2)
    with inv(2) show ?thesis by (simp add: trace_inv_def run_result_def)
  qed
  moreover from this have "snd (main_exit message (run_result s)) = (if failures ls = [] then 0 else 1)" if "dm_main s = Returned"
    using that by (cases "run_result s") (auto simp: main_exit_def)
  ultimately show ?thesis using inv(2) by (auto simp: trace_inv_def run_result_def)
qed

theorem daemon_first_failure_wins_witness:
  "\<exists>ls s. daemon_run 1 (daemon_start [''pong_server'']) ls s
    \<and> run_result s = Some (RoleFailed ''pong_server'' ''in use'')"
proof -
  obtain s where run: "daemon_run 1 (daemon_start [''pong_server''])
     [DSpawn ''pong_server'', DFail ''pong_server'' ''in use'', DRecord ''pong_server'' ''in use''] s"
    using example_run by blast
  from daemon_first_failure_wins [OF _ run] have "run_result s = Some (RoleFailed ''pong_server'' ''in use'')"
    by (simp add: recorded_def first_def)
  with run show ?thesis by blast
qed

text \<open>
  C32. Fail fast, liveness: no schedule takes more than four steps for each role and four more, so
  none runs forever; and as soon as a role has failed, or a signal was received, the daemon stops
  all roles and returns by its own steps, without any further failure or signal.
\<close>

theorem daemon_shuts_down:
  assumes "distinct names" and "daemon_run nroles (daemon_start names) ls s"
  shows "length ls \<le> 4 * length names + 4
    \<and> (DSignal \<in> set ls \<or> failures ls \<noteq> [] \<longrightarrow>
        (\<exists>ls' s'. daemon_run nroles (daemon_start names) (ls @ ls') s' \<and> dm_main s' = Returned \<and> list_all internal ls'))"
proof -
  have "going_down s" if "DSignal \<in> set ls \<or> failures ls \<noteq> []"
    using going_down_trace [OF assms(2,1)] that by (auto simp: internal_trace)
  with daemon_goes_down [OF assms(2,1)] daemon_run_facts [OF assms(2,1)] show ?thesis by auto
qed

theorem daemon_shuts_down_witness:
  "\<exists>ls s. daemon_run 1 (daemon_start [''pong_server'']) ls s \<and> dm_main s = Returned"
proof -
  obtain s where run: "daemon_run 1 (daemon_start [''pong_server''])
     [DSpawn ''pong_server'', DFail ''pong_server'' ''in use'', DRecord ''pong_server'' ''in use''] s"
    using example_run by blast
  from daemon_shuts_down [OF _ run] show ?thesis by (auto simp: failures_def)
qed

lemma loaded_config_ready:
  assumes "decode_config data = Inr c" and "iterates ord (c_Channels c)" and "iterates ord' (c_Channels c)"
    and "Load ord ord' (Inr data) = Inr cfg" and "iterates ord'' (c_Channels cfg)" and "intervals_ok cfg"
  shows "\<exists>d act reg. startup getenv ord'' (Inr cfg) =
      Some (if ps_Enabled (ro_PongServer (c_Roles cfg)) \<or> is_monitoring cfg then Inr (d, act, reg) else Inl NoRolesEnabled)
    \<and> registry_ok reg \<and> dom (d_channels d) = dom (c_Channels cfg) \<and> 1 \<le> d_maxAttempts d \<and> 0 \<le> d_baseDelay d
    \<and> roles_ready (d_channels d) cfg act"
proof -
  have v: "valid_config cfg" "cfg = effective_config c" using Load_Inr [OF assms(1-3), of cfg] assms(4) by auto
  with decode_config_typed [OF assms(1)] have rng: "config_in_range cfg"
    using effective_config_typed typed_in_range assms(6) by blast
  from v(1) obtain channels where ch: "buildChannels getenv ord'' cfg = Inr channels" "dom channels = dom (c_Channels cfg)"
    using buildChannels_ok [OF _ assms(5), of getenv] by (auto simp: valid_config_def)
  from buildRoles_ok [OF v(1) rng] obtain act reg where
    r: "buildRoles cfg (Some NewRegistry) = Some (act, reg)" "registry_ok reg" "roles_ready (c_Channels cfg) cfg act" by blast
  have d: "d_channels (buildDispatcher cfg channels) = channels" "1 \<le> d_maxAttempts (buildDispatcher cfg channels)"
    "0 \<le> d_baseDelay (buildDispatcher cfg channels)"
    by (simp_all add: buildDispatcher_def NewDispatcher_def Let_def)
  show ?thesis
    using r ch d roles_ready_names [OF r(3)] roles_ready_dom [OF ch(2), of cfg act]
    by (intro exI [of _ "buildDispatcher cfg channels"] exI [of _ act] exI [of _ reg]) (auto simp: startup_def)
qed


lemma example_loaded:
  "Load [''ops''] [''ops''] (Inr example_file) = Inr (effective_config example_config)"
  using Load_Inr [OF example_decode example_iterates example_iterates]
    example_defined example_valid by blast

lemma example_intervals: "intervals_ok (effective_config example_config)"
  by (simp add: intervals_ok_def max_seconds_def effective_config_def effective_ping_def effective_url_def effective_def
      ping_source_def profile_params_def example_config_def zeroParams_def Let_def)


definition long_config :: Config where
  "long_config = example_config\<lparr>c_Roles := (c_Roles example_config)\<lparr>ro_PingMonitor := \<lparr>pm_Enabled = True, pm_DefaultProfile = ''std'',
     pm_Targets = [\<lparr>pt_Target = ''a:1'', pt_Profile = '''', pt_MonitorParams = zeroParams\<lparr>mp_IntervalS := 9223372037\<rparr>\<rparr>]\<rparr>\<rparr>\<rparr>"

definition long_file :: string where
  "long_file = json_text (example_json example_profiles [(''interval_s'', marshal_int 9223372037)])"

lemma long_decode: "decode_config long_file = Inr long_config"
  unfolding long_file_def
proof (rule decode_config_text)
  let ?v = "example_json example_profiles [(''interval_s'', marshal_int 9223372037)]"
  have "valid_utf8 ''interval_s''" by (rule valid_key) simp
  then have "good_json ?v \<and> depth ?v \<le> maxNestingDepth" by (intro example_good) (simp_all add: example_profiles_good)
  then show "good_json ?v" "depth ?v \<le> maxNestingDepth" by simp_all
  show "dec_config ?v zeroConfig = Some long_config"
    by (simp add: example_json_def example_profiles_def dec_config_simps long_config_def example_config_def in_int64_def)
qed

lemma long_loaded:
  "Load [''ops''] [''ops''] (Inr long_file) = Inr (effective_config long_config)"
proof -
  have it: "iterates [''ops''] (c_Channels long_config)" using example_iterates by (simp add: long_config_def)
  have def: "profiles_defined long_config"
    by (simp add: profiles_defined_def profile_known_def long_config_def example_config_def Let_def)
  have val: "valid_config (effective_config long_config)"
    unfolding valid_config_def effective_config_fields
    by (simp add: long_config_def example_config_def effective_config_def effective_ping_def effective_url_def Let_def
        zeroParams_def ping_source_def profile_params_def effective_def ran_def with_timeout_def channel_ok_def
        pong_ok_def ping_ok_def url_ok_def internet_ok_def speed_ok_def params_ok_def trigger_ok_def)
  from Load_Inr [OF long_decode it it] def val show ?thesis by blast
qed

lemma long_ping_role:
  "effective_ping long_config = \<lparr>pm_Enabled = True, pm_DefaultProfile = ''std'', pm_Targets =
     [\<lparr>pt_Target = ''a:1'', pt_Profile = '''', pt_MonitorParams = \<lparr>mp_IntervalS = 9223372037, mp_TimeoutMS = 2000,
        mp_FailureThreshold = 1, mp_Trigger = ''consecutive'', mp_WindowSize = 20, mp_MinAvailability = Fin 0,
        mp_Notify = [''ops''], mp_InsecureSkipVerify = False\<rparr>\<rparr>]\<rparr>"
  by (simp add: long_config_def example_config_def effective_config_def effective_ping_def Let_def
      zeroParams_def ping_source_def profile_params_def effective_def)

lemma long_other_roles:
  "\<not> ps_Enabled (ro_PongServer (c_Roles (effective_config long_config)))"
  "\<not> um_Enabled (ro_URLMonitor (c_Roles long_config))"
  "\<not> ic_Enabled (ro_InternetCheck (c_Roles (effective_config long_config)))"
  "\<not> sc_Enabled (ro_SpeedCheck (c_Roles (effective_config long_config)))"
  by (simp_all add: long_config_def example_config_def effective_config_def effective_url_def Let_def)

text \<open>
  C35. An interval of 9223372037 seconds is accepted by the loader, but the product with a second
  wraps to a negative duration and the ping monitor panics in its ticker: the whole process stops.
\<close>

theorem interval_overflow_panics:
  "\<exists>cfg d act reg m. Load [''ops''] [''ops''] (Inr long_file) = Inr cfg
    \<and> startup getenv [''ops''] (Inr cfg) = Some (Inr (d, act, reg)) \<and> ac_ping_monitor act = Some [m]
    \<and> ping_run quote (m, reg) ticks = None"
proof -
  let ?cfg = "effective_config long_config"
  let ?t = "pingTarget (hd (pm_Targets (ro_PingMonitor (c_Roles ?cfg))))"
  have "\<forall>ch \<in> ran (c_Channels ?cfg). channel_ok ch"
    by (simp add: long_config_def example_config_def effective_config_def Let_def ran_def with_timeout_def channel_ok_def)
  moreover have "iterates [''ops''] (c_Channels ?cfg)"
    using example_iterates by (auto simp: iterates_def effective_config_def long_config_def Let_def domIff)
  ultimately obtain channels where ch: "buildChannels getenv [''ops''] ?cfg = Inr channels"
    using buildChannels_ok by blast
  have "mc_WindowSize (rp_Mon t) < 2 ^ 63" if "t \<in> set [?t]" for t
    using that by (simp add: pingTarget_def long_ping_role Let_def)
  from NewPingMonitor_ok [of "Some NewRegistry" "[?t]", OF _ this] NewRegistry_inv obtain ms reg where
    ms: "NewPingMonitor [?t] (Some NewRegistry) = Some (ms, reg)" "list_all2 ping_unit [?t] ms"
    by (auto simp: registry_ok_def)
  then obtain m where m: "ms = [m]" "ping_unit ?t m" by (auto simp: list_all2_Cons1)
  have "pg_interval m \<le> 0"
    using m(2) by (simp add: ping_unit_def pingTarget_def long_ping_role Let_def go_mul_def Second_def wrap64_def)
  moreover obtain act where "buildRoles ?cfg (Some NewRegistry) = Some (act, reg)" "ac_ping_monitor act = Some [m]"
    using ms(1) m(1)
    by (simp add: buildRoles_def buildPing_def buildURL_def buildInternet_def buildSpeed_def long_other_roles long_ping_role)
  ultimately show ?thesis
    using long_loaded ch by (fastforce simp: startup_def ping_run_def run_ticker_def active_names_def)
qed

lemma buildPong_dispatcher:
  assumes "buildPong cfg = Some l"
  shows "tl_dispatcher l TypePing = Some PingHandler"
    and "tl_dispatcher l TypeGetSummary = (if is_monitoring cfg then Some SummaryHandler else None)"
    and "tl_maxRequest l = defaultMaxRequestBytes"
  using assms
  by (auto simp: buildPong_def NewTCPListener_def NewMessageDispatcher_def handler_Type_def protocol_consts Let_def split: if_splits)

lemma decode_encoded:
  assumes "request_wire_ok req" and "req_Version req = Version" and "EncodeRequest req = Inr line"
  shows "DecodeRequest (line @ [nl]) = (req, None)" and "plain line"
proof -
  have line: "line = json_text (marshal_request req)" using assms(3) by (simp add: EncodeRequest_def)
  have "json_unmarshal (json_text (marshal_request req) @ [nl]) = Inr (marshal_request req)"
    by (rule unmarshal_wire [OF wire_request [OF assms(1)]]) (simp_all add: is_space_def nl_def)
  then show "DecodeRequest (line @ [nl]) = (req, None)"
    using dec_request_marshal [of req] assms(1,2) by (simp add: line DecodeRequest_def request_wire_ok_def)
  show "plain line" unfolding line by (rule wire_plain [OF wire_request [OF assms(1)]])
qed

text \<open>
  The server a configuration is built into answers a get-summary request exactly when the instance
  monitors something, and a response that can be encoded is the one the client reads.
\<close>

lemma get_summary_answer:
  assumes "buildPong cfg = Some l" and "reg_inv r" and "request_wire_ok req" and "req_Version req = Version"
    and "req_Type req = TypeGetSummary" and "EncodeRequest req = Inr line" and "go_len line < defaultMaxRequestBytes"
    and "resp = (if is_monitoring cfg
      then NewSummary (req_ID req) \<lparr>ws_GeneratedAtMS = UnixMilli now, ws_Units = map (toWireUnit \<circ> unit_summary r) (reg_order r)\<rparr>
      else NewError (req_ID req) ''unsupported request type'')"
  shows "MessageDispatcher_Dispatch (tl_dispatcher l) (Some r) now (line @ [nl]) = Some resp
    \<and> (response_wire_ok resp \<longrightarrow>
        (\<exists>out. read_from l (\<lambda>_. (Some r, now)) (line @ [nl]) = Inr out \<and> DecodeResponse out = Inr resp))"
proof -
  note bp = buildPong_dispatcher [OF assms(1)]
  have d: "MessageDispatcher_Dispatch (tl_dispatcher l) (Some r) now (line @ [nl]) = Some resp"
    unfolding MessageDispatcher_Dispatch_def decode_encoded(1) [OF assms(3,4,6)]
    using assms(5,8) bp Summary_eq [OF assms(2), of now] by (simp add: handler_Handle_def toWireSummary_def)
  have "\<exists>out. read_from l (\<lambda>_. (Some r, now)) (line @ [nl]) = Inr out \<and> DecodeResponse out = Inr resp" if wok: "response_wire_ok resp"
  proof -
    obtain v where v: "marshal_response resp = Inr v" "dec_response v zeroResponse = Some resp" "wire_json 6 v"
      using dec_response_marshal [OF wok] by blast
    have "answer l (\<lambda>_. (Some r, now)) 0 (line @ [nl]) = Some (json_text v @ [nl])"
      using d v(1) by (simp add: answer_def EncodeResponse_def)
    moreover have "json_unmarshal (json_text v @ [nl]) = Inr v"
      by (rule unmarshal_wire [OF v(3)]) (simp_all add: is_space_def nl_def)
    ultimately show ?thesis
      using read_from_answer [OF decode_encoded(2) [OF assms(3,4,6)]] assms(7) bp(3) v(2) by (simp add: DecodeResponse_def)
  qed
  with d show ?thesis by blast
qed

end
