(* ===== verification/FloatRange.thy ===== *)
theory FloatRange
  imports FloatText
begin

text \<open>
  The range of floating-point results: rounding is idempotent, it keeps a magnitude bound that
  is itself a double, and so every finite result is a double, which the JSON encoder can write. The
  bounds on sums and means of samples follow.
\<close>

section \<open>Rounding is idempotent\<close>

lemma rnd_form: "\<exists>m e. rnd x = of_int m * 2 powi e \<and> \<bar>m\<bar> \<le> 2 ^ 53 \<and> - 1074 \<le> e"
proof (cases "x = 0")
  case False
  define q where "q = x / 2 powi ulp_exp x"
  have "\<bar>x\<bar> < 2 powi (ilog2 \<bar>x\<bar> + 1)" using ilog2_bounds [of "\<bar>x\<bar>"] False by simp
  also have "\<dots> \<le> 2 powi (ulp_exp x + 53)" by (simp add: powi2_le ulp_exp_def)
  also have "\<dots> = of_int (2 ^ 53) * 2 powi ulp_exp x" by (simp add: power_int_add)
  finally have "\<bar>q\<bar> \<le> of_int (2 ^ 53)" by (simp add: q_def abs_divide divide_le_eq)
  then have "q \<le> of_int (2 ^ 53)" "of_int (- (2 ^ 53)) \<le> q" by simp_all
  then have "\<bar>rnd_int q\<bar> \<le> 2 ^ 53" using rnd_int_le rnd_int_ge by (metis abs_le_iff minus_le_iff)
  moreover have "rnd x = of_int (rnd_int q) * 2 powi ulp_exp x" using False by (simp add: rnd_def q_def)
  ultimately show ?thesis by (metis max.cobounded2 ulp_exp_def)
qed (auto intro!: exI [of _ 0])

lemma rnd_idem [simp]: "rnd (rnd x) = rnd x"
  using rnd_form [of x] rnd_exact by blast

lemma rnd_abs_le:
  assumes "\<bar>x\<bar> \<le> b" and "rnd b = b"
  shows "\<bar>rnd x\<bar> \<le> b"
proof (cases "0 \<le> x")
  case True
  with assms rnd_mono [of x b] rnd_nonneg [of x] show ?thesis by simp
next
  case False
  with assms rnd_mono [of "- x" b] rnd_nonneg [of "- x"] show ?thesis by (simp add: rnd_minus)
qed

section \<open>Finite results\<close>

lemma fl_Fin_double: "fl x = Fin y \<Longrightarrow> is_double (Fin y)"
  by (auto simp: is_double_def fl_def Let_def split: if_splits)

lemma rnd_double: "\<bar>rnd x\<bar> < 2 ^ 1024 \<Longrightarrow> is_double (Fin (rnd x))"
  by (auto simp: is_double_def fl_def Let_def abs_if split: if_splits)

lemma is_double_FinD: "is_double (Fin x) \<Longrightarrow> rnd x = x"
  by (auto simp: is_double_def fl_def Let_def split: if_splits)

text \<open>A double of magnitude at most \<open>b\<close>.\<close>

definition in_bound :: "rat \<Rightarrow> float64 \<Rightarrow> bool" where
  "in_bound b f \<longleftrightarrow> is_double f \<and> (case f of Fin x \<Rightarrow> \<bar>x\<bar> \<le> b | _ \<Rightarrow> False)"

lemma in_boundE:
  assumes "in_bound b f"
  obtains x where "f = Fin x" and "\<bar>x\<bar> \<le> b" and "is_double (Fin x)"
  using assms by (cases f) (auto simp: in_bound_def)

lemma in_bound_double: "in_bound b f \<Longrightarrow> is_double f"
  by (simp add: in_bound_def)

lemma in_bound_mono: "in_bound b f \<Longrightarrow> b \<le> b' \<Longrightarrow> in_bound b' f"
  by (auto simp: in_bound_def split: float64.splits)

lemma fl_in_bound:
  assumes "\<bar>x\<bar> \<le> b" and "rnd b = b" and "b < 2 ^ 1024"
  shows "in_bound b (fl x)"
proof -
  have "\<bar>rnd x\<bar> \<le> b" by (rule rnd_abs_le [OF assms(1,2)])
  with assms(3) have "fl x = Fin (rnd x)" by (auto simp: fl_def Let_def)
  with fl_Fin_double [OF this] \<open>\<bar>rnd x\<bar> \<le> b\<close> show ?thesis by (simp add: in_bound_def)
qed

text \<open>Multiples of a power of two with few significant bits are bounds rounding keeps.\<close>

lemma abs_int_le: "n \<le> 2 ^ 53 \<Longrightarrow> \<bar>int n\<bar> \<le> 2 ^ 53"
  using zle_int [of n "2 ^ 53"] by simp

lemma rnd_nat_powi: "n \<le> 2 ^ 53 \<Longrightarrow> - 1074 \<le> e \<Longrightarrow> rnd (of_nat n * 2 powi e) = of_nat n * 2 powi e"
  by (rule rnd_exact [where m = "int n" and e = e, OF _ abs_int_le]) simp_all

lemma fl_add_in_bound:
  assumes "in_bound a x" and "in_bound b y" and "rnd (a + b) = a + b" and "a + b < 2 ^ 1024"
  shows "in_bound (a + b) (fl_add x y)"
  using assms(1,2) by (elim in_boundE) (auto intro!: fl_in_bound [OF _ assms(3,4)])

lemma fl_sum_in_bound:
  assumes "\<forall>x \<in> set xs. in_bound (2 powi e) x" and "in_bound (of_nat n * 2 powi e) a"
    and "n + length xs \<le> 2 ^ 53" and "- 1074 \<le> e" and "of_nat (n + length xs) * 2 powi e < (2 ^ 1024 :: rat)"
  shows "in_bound (of_nat (n + length xs) * 2 powi e) (foldl fl_add a xs)"
  using assms
proof (induction xs arbitrary: n a)
  case (Cons x xs)
  have s: "of_nat n * 2 powi e + 2 powi e = of_nat (Suc n) * (2 powi e :: rat)" by (simp add: algebra_simps)
  have "of_nat (Suc n) * (2 powi e :: rat) \<le> of_nat (n + length (x # xs)) * 2 powi e" by (intro mult_right_mono) simp_all
  with Cons.prems(5) have lt: "of_nat (Suc n) * (2 powi e :: rat) < 2 ^ 1024" by linarith
  have "in_bound (of_nat (Suc n) * 2 powi e) (fl_add a x)"
    using fl_add_in_bound [OF Cons.prems(2), of "2 powi e" x] Cons.prems(1,3,4) rnd_nat_powi [of "Suc n" e] lt unfolding s by simp
  from Cons.IH [OF _ this] Cons.prems show ?case by simp
qed simp

text \<open>The mean the program computes lies in the range of the samples' magnitude.\<close>

lemma fl_mean_in_bound:
  assumes "\<forall>x \<in> set xs. in_bound (2 powi e) x" and "xs \<noteq> []" and "length xs \<le> 2 ^ 53" and "- 1074 \<le> e"
    and "of_nat (length xs) * 2 powi e < (2 ^ 1024 :: rat)"
  shows "in_bound (2 powi e) (fl_div (foldl fl_add (Fin 0) xs) (fl_of_int (go_len xs)))"
proof -
  have "in_bound (of_nat 0 * 2 powi e) (Fin 0)" by (simp add: in_bound_def is_double_def fl_def)
  from fl_sum_in_bound [OF assms(1) this] assms(3-5) obtain s where s: "foldl fl_add (Fin 0) xs = Fin s" "\<bar>s\<bar> \<le> of_nat (length xs) * 2 powi e"
    by (auto elim: in_boundE)
  have n: "0 < length xs" using assms(2) by simp
  have "rnd (of_int (int (length xs))) = of_int (int (length xs))"
    by (rule rnd_of_int [OF abs_int_le [OF assms(3)]])
  moreover have "of_nat (length xs) \<le> (of_nat (2 ^ 53) :: rat)" using assms(3) by (simp only: of_nat_le_iff)
  then have "of_nat (length xs) < (2 ^ 1024 :: rat)" by simp
  ultimately have len: "fl_of_int (go_len xs) = Fin (of_nat (length xs))"
    by (simp add: fl_of_int_def go_len_def fl_def Let_def)
  have "(2 powi e :: rat) \<le> of_nat (length xs) * 2 powi e" using n mult_right_mono [of 1 "of_nat (length xs)" "2 powi e :: rat"] by (simp add: Suc_le_eq)
  then have "(2 powi e :: rat) < 2 ^ 1024" using assms(5) by linarith
  moreover have "\<bar>s / of_nat (length xs)\<bar> \<le> 2 powi e" using s(2) n by (simp add: abs_divide divide_le_eq mult.commute)
  moreover have "rnd (2 powi e) = 2 powi e" using rnd_nat_powi [of 1 e] assms(4) by simp
  ultimately show ?thesis using n by (simp add: s(1) len fl_in_bound)
qed

lemma foldl_choice:
  assumes "\<And>m x. f m x = m \<or> f m x = x"
  shows "foldl f m xs \<in> set (m # xs)"
  using assms by (induction xs arbitrary: m) (auto, metis)

end
