(* ===== verification/SummarySpec.thy ===== *)
theory SummarySpec
  imports HealthdSpec FloatRange
begin

text \<open>
  The get-summary request served while the roles run: the registry holds only values the JSON encoder
  can write as long as the speedtest reports a bandwidth whose sum stays in the range of \<open>float64\<close>,
  so a client then reads exactly the state of every unit; a larger report makes every later summary
  fail until the sample has left the history.
\<close>

subsection \<open>Values a role puts into the registry\<close>

text \<open>The bound on recorded speeds; the sum of a full history stays finite below it.\<close>

definition speed_bound :: rat where
  "speed_bound = 2 powi 1004"

fun wire_op :: "RegOp \<Rightarrow> bool" where
  "wire_op (OpRegister n) = valid_utf8 n"
| "wire_op (OpSet u) = (is_double (us_Availability u) \<and> in_int64 (us_Consecutive u))"
| "wire_op (OpCheck n t b) = True"
| "wire_op (OpSpeed n t v) = in_bound speed_bound v"

definition machine_ok :: "StateMachine \<Rightarrow> bool" where
  "machine_ok sm \<longleftrightarrow> sm_inv sm \<and> in_int64 (m_consecutive sm)"

lemma Fin_100_double: "is_double (Fin 100)" "is_double (Fin 0)"
  using rnd_of_int [of 100] by (simp_all add: is_double_def fl_def Let_def)

lemma availability_of_double:
  assumes "length bs < 2 ^ 63"
  shows "is_double (availability_of bs)"
proof (cases "bs = []")
  case False
  have len: "int (length bs) < 2 ^ 63" using assms of_nat_less_iff [of "length bs" "2 ^ 63", where 'a = int] by simp
  have "pct (int (successes bs)) (int (length bs)) = Fin (pct_rat (int (successes bs)) (int (length bs)))"
    using False len successes_le [of bs] by (intro pct_Fin) (simp_all add: Suc_le_eq)
  moreover have "\<bar>pct_rat (int (successes bs)) (int (length bs))\<bar> \<le> 100"
    using False len successes_le [of bs] pct_rat_bounds [of "int (successes bs)" "int (length bs)"] by (simp add: Suc_le_eq)
  then have "\<bar>pct_rat (int (successes bs)) (int (length bs))\<bar> < 2 ^ 1024" by (rule le_less_trans) simp
  then have "is_double (Fin (pct_rat (int (successes bs)) (int (length bs))))"
    unfolding pct_rat_def by (rule rnd_double)
  ultimately show ?thesis using False by (simp add: availability_of_def)
qed (simp add: availability_of_def Fin_100_double)

lemma Availability_double:
  assumes "sm_inv sm"
  shows "is_double (Availability sm)"
proof (cases "m_window sm")
  case (Some w)
  then have w: "window_inv w" using assms by (simp add: sm_inv_def)
  have "length (window_list w) < 2 ^ 63" using w length_window_list [OF w] by (auto simp: window_inv_def)
  then show ?thesis using Some Window_Availability_eq [OF w] availability_of_double by (simp add: Availability_def)
qed (simp add: Availability_def Fin_100_double)

lemma in_int64_0: "in_int64 0"
  by (simp add: in_int64_def)

lemma Observe_machine_ok:
  assumes "machine_ok sm" and "Observe sm t b = Some (ev, sm')"
  shows "machine_ok sm'"
  using assms Observe_step [of sm t b] in_int64_0
  by (auto simp: machine_ok_def Observe_def transitionAvailability_def transitionConsecutive_def Let_def
      split: bind_splits option.splits if_splits)

lemma cycle_ops_wire:
  assumes "machine_ok sm" and "\<And>v. mbps = Some v \<Longrightarrow> in_bound speed_bound v" and "op \<in> set (cycle_ops n tms b mbps sm)"
  shows "wire_op op"
  using assms Availability_double [of sm]
  by (auto simp: cycle_ops_def machine_ok_def ConsecutiveFailures_def split: option.splits)

subsection \<open>The registry holds encodable values\<close>

definition reg_wire_ok :: "Registry \<Rightarrow> bool" where
  "reg_wire_ok r \<longleftrightarrow> reg_inv r \<and> (\<forall>n \<in> unit_names r. valid_utf8 n
     \<and> is_double (us_Availability (the (reg_units r n))) \<and> in_int64 (us_Consecutive (the (reg_units r n)))
     \<and> (\<forall>s \<in> set (unit_speeds r n). in_bound speed_bound (ss_Mbps s)))"

lemma NewRegistry_wire: "reg_wire_ok NewRegistry"
  using NewRegistry_inv by (simp add: reg_wire_ok_def unit_names_def NewRegistry_def)

lemma reg_step_wire:
  assumes "reg_wire_ok r" and "wire_op op"
  shows "\<exists>r'. reg_step r op = Some r' \<and> reg_wire_ok r'"
proof -
  have inv: "reg_inv r" using assms(1) by (simp add: reg_wire_ok_def)
  show ?thesis
  proof (cases op)
    case (OpRegister n)
    show ?thesis
    proof (cases "n \<in> unit_names r")
      case True
      with Register_again [OF inv] OpRegister assms(1) show ?thesis by (simp add: reg_step_def)
    next
      case False
      from Register_new [OF inv False] OpRegister assms show ?thesis
        by (auto simp: reg_step_def reg_wire_ok_def unit_names_def zeroUnitStatus_def Fin_100_double in_int64_def)
    qed
  next
    case (OpSet u)
    with Registry_set_ok [OF inv, of u] assms show ?thesis
      by (auto simp: reg_step_def reg_wire_ok_def unit_names_def)
  next
    case (OpCheck n t b)
    with recordCheck_ok [OF inv, of n t b] assms show ?thesis
      by (auto simp: reg_step_def reg_wire_ok_def unit_names_def)
  next
    case (OpSpeed n t v)
    with recordSpeed_ok [OF inv, of n t v] assms show ?thesis
      by (auto simp: reg_step_def reg_wire_ok_def unit_names_def dest!: subsetD [OF set_lastn])
  qed
qed

lemma reg_steps_wire:
  "reg_wire_ok r \<Longrightarrow> \<forall>op \<in> set ops. wire_op op \<Longrightarrow> \<exists>r'. go_range reg_step r ops = Some r' \<and> reg_wire_ok r'"
proof (induction ops arbitrary: r)
  case (Cons op ops)
  then obtain r1 where "reg_step r op = Some r1" "reg_wire_ok r1" using reg_step_wire by (meson list.set_intros(1))
  with Cons show ?case by simp
qed simp

text \<open>The summary of such a registry can be encoded.\<close>

lemma speedStats_wire:
  assumes "\<forall>s \<in> set samples. in_bound speed_bound (ss_Mbps s)" and "length samples \<le> nat historyCap" and "speedStats samples = Some st"
  shows "in_int64 (st_Count st) \<and> is_double (st_Min st) \<and> is_double (st_Avg st) \<and> is_double (st_Max st) \<and> is_double (st_Latest st)"
proof -
  let ?ms = "map ss_Mbps samples"
  have ne: "samples \<noteq> []" using assms(3) by (auto simp: speedStats_def)
  have all: "\<forall>x \<in> set ?ms. in_bound (2 powi 1004) x" using assms(1) by (simp add: speed_bound_def)
  then have dbl: "x \<in> set ?ms \<Longrightarrow> is_double x" for x using in_bound_double by blast
  have len: "length samples \<le> 100" using assms(2) by (simp add: historyCap_def)
  then have "of_nat (length ?ms) * 2 powi 1004 \<le> (128 * 2 powi 1004 :: rat)" by (intro mult_right_mono) simp_all
  also have "\<dots> = 2 powi 1011" using powi2_add [of 7 1004] by simp
  also have "\<dots> < 2 powi 1024" by (simp only: powi2_less)
  also have "(2 powi 1024 :: rat) = 2 ^ 1024" by (simp add: power_int_def)
  finally have "in_bound (2 powi 1004) (fl_div (foldl fl_add (Fin 0) ?ms) (fl_of_int (go_len ?ms)))"
    using ne len by (intro fl_mean_in_bound [OF all]) simp_all
  moreover have "hd ?ms \<in> set ?ms" "last ?ms \<in> set ?ms" using ne by (intro hd_in_set last_in_set; simp)+
  moreover have "foldl fl_min (hd ?ms) ?ms \<in> set (hd ?ms # ?ms)" "foldl fl_max (hd ?ms) ?ms \<in> set (hd ?ms # ?ms)"
    by (intro foldl_choice; simp add: fl_min_def fl_max_def)+
  ultimately show ?thesis
    using assms(3) speedStats_eq [OF ne] len dbl by (auto simp: go_len_def in_int64_def dest: in_bound_double)
qed

lemma unit_summary_wire:
  assumes "reg_wire_ok r" and "n \<in> unit_names r"
  shows "unit_wire_ok (toWireUnit (unit_summary r n))"
proof -
  have inv: "reg_inv r" using assms(1) by (simp add: reg_wire_ok_def)
  obtain u where u: "reg_units r n = Some u" "us_Name u = n" using reg_invD(4,6) [OF inv] assms(2) by blast
  have ok: "valid_utf8 n" "is_double (us_Availability u)" "in_int64 (us_Consecutive u)"
    "\<forall>s \<in> set (unit_speeds r n). in_bound speed_bound (ss_Mbps s)"
    using assms u(1) by (auto simp: reg_wire_ok_def)
  note bound = unit_history_bound [OF inv, of n]
  have "length (unit_checks r n) < 2 ^ 63" using bound(1) by (simp add: historyCap_def)
  then have ha: "is_double (historyAvailability (unit_checks r n))"
    by (simp add: historyAvailability_eq availability_of_double)
  have "valid_utf8 (State_String (us_State u))" by (cases "us_State u") (simp_all add: State_String_def, (rule valid_key; simp)+)
  moreover have "case speedStats (unit_speeds r n) of None \<Rightarrow> True | Some st \<Rightarrow>
      in_int64 (st_Count st) \<and> is_double (st_Min st) \<and> is_double (st_Avg st) \<and> is_double (st_Max st) \<and> is_double (st_Latest st)"
    using speedStats_wire [OF ok(4) bound(2)] by (simp split: option.split)
  ultimately show ?thesis
    using u ok ha UnixMilli_int64 in_bound_double
    by (auto simp: unit_wire_ok_def toWireUnit_def unit_summary_def speed_wire_ok_def in_int64_def split: option.splits)
qed

subsection \<open>The measured speed\<close>

text \<open>The bandwidth a speedtest reports, in bytes per second, when its output can be read.\<close>

definition reported_bandwidth :: "string + string \<Rightarrow> float64 option" where
  "reported_bandwidth out = (case out of Inl _ \<Rightarrow> None
     | Inr bytes \<Rightarrow> (case json_unmarshal bytes of Inl _ \<Rightarrow> None | Inr v \<Rightarrow> dec_ookla v))"

lemma measure_speed_bandwidth:
  "measure_speed out = Inr v \<longleftrightarrow>
     (\<exists>b. reported_bandwidth out = Some b \<and> v = fl_div (fl_mul b (Fin 8)) (Fin 1000000))"
  by (auto simp: measure_speed_def reported_bandwidth_def split: sum.splits option.splits)

lemma dec_float_double: "is_double old \<Longrightarrow> dec_float v old = Some x \<Longrightarrow> is_double x"
proof -
  have "parse_float s = Some x \<Longrightarrow> is_double x" for s
    by (cases "fl (lit_value s)") (auto simp: parse_float_def dest: fl_Fin_double)
  then show "is_double old \<Longrightarrow> dec_float v old = Some x \<Longrightarrow> is_double x" by (cases v) (auto simp: dec_float_def)
qed

lemma dec_struct_keeps:
  assumes "\<And>f v r r'. P r \<Longrightarrow> put f v r = Some r' \<Longrightarrow> P r'" and "P r" and "dec_struct names put v r = Some r'"
  shows "P r'"
proof -
  have "P r \<Longrightarrow> dec_fields names put kvs r = Some r' \<Longrightarrow> P r'" for kvs
    by (induction kvs arbitrary: r) (auto simp: bind_eq_Some_conv dest: assms(1) split: option.splits)
  with assms(2,3) show ?thesis by (cases v) (auto simp: dec_object_def)
qed

lemma reported_double: "reported_bandwidth out = Some b \<Longrightarrow> is_double b"
proof -
  have "is_double r \<Longrightarrow> put_ookla f v r = Some r' \<Longrightarrow> is_double r'" for f v r r'
    unfolding put_ookla_def by (rule dec_struct_keeps [of is_double]) (auto dest: dec_float_double)
  then have "dec_ookla v = Some x \<Longrightarrow> is_double x" for v x
    unfolding dec_ookla_def by (rule dec_struct_keeps [of is_double]) (auto simp: Fin_100_double)
  then show "reported_bandwidth out = Some b \<Longrightarrow> is_double b" by (auto simp: reported_bandwidth_def split: sum.splits)
qed

lemma powi_steps: "(2 powi 1020 :: rat) * 8 = 2 powi 1023" "(2 powi 1023 :: rat) < 2 ^ 1024" "rnd (2 powi 1023) = 2 powi 1023"
  "(2 powi 1023 :: rat) / 1000000 \<le> speed_bound" "rnd speed_bound = speed_bound" "speed_bound < 2 ^ 1024"
proof -
  show "(2 powi 1020 :: rat) * 8 = 2 powi 1023" using powi2_add [of 1020 3] by simp
  have top: "(2 ^ 1024 :: rat) = 2 powi 1024" by (simp add: power_int_def)
  show "(2 powi 1023 :: rat) < 2 ^ 1024" "speed_bound < 2 ^ 1024" unfolding top speed_bound_def by (simp_all only: powi2_less)
  show "rnd (2 powi 1023) = 2 powi 1023" "rnd speed_bound = speed_bound"
    using rnd_nat_powi [of 1 1023] rnd_nat_powi [of 1 1004] unfolding speed_bound_def by simp_all
  have "(2 powi 1023 :: rat) = 2 powi 1004 * 2 ^ 19" using powi2_add [of 1004 19] by simp
  also have "\<dots> \<le> 2 powi 1004 * 1000000" by (intro mult_left_mono) simp_all
  finally show "(2 powi 1023 :: rat) / 1000000 \<le> speed_bound" unfolding speed_bound_def by (simp only: divide_le_eq zero_less_numeral if_True)
qed

text \<open>A report of at most \<open>2\<^sup>1\<^sup>0\<^sup>2\<^sup>0\<close> bytes per second gives a speed in the bound.\<close>

lemma measured_in_bound:
  assumes "reported_bandwidth out = Some (Fin b)" and "\<bar>b\<bar> \<le> 2 powi 1020" and "measure_speed out = Inr v"
  shows "in_bound speed_bound v"
proof -
  have "\<bar>b * 8\<bar> \<le> 2 powi 1023" using assms(2) powi_steps(1) by (simp only: abs_mult)
  from fl_in_bound [OF this powi_steps(3,2)] obtain x where x: "fl (b * 8) = Fin x" "\<bar>x\<bar> \<le> 2 powi 1023" by (auto elim: in_boundE)
  then have "\<bar>x / 1000000\<bar> \<le> speed_bound" using powi_steps(4) by (simp only: abs_divide abs_numeral)
  from fl_in_bound [OF this powi_steps(5,6)] show ?thesis
    using assms(1,3) x(1) by (auto simp: measure_speed_bandwidth)
qed

subsection \<open>Operations of the roles\<close>

text \<open>
  An operation some role performs: a registration, or one of the accesses of a check cycle of some
  unit, whose machine is in its invariant and whose speed, if any, was measured from a report in range.
\<close>

definition report_in_range :: "string + string \<Rightarrow> bool" where
  "report_in_range out \<longleftrightarrow> (case reported_bandwidth out of Some (Fin b) \<Rightarrow> \<bar>b\<bar> \<le> 2 powi 1020 | _ \<Rightarrow> True)"

inductive role_op :: "RegOp \<Rightarrow> bool" where
  registers: "valid_utf8 n \<Longrightarrow> role_op (OpRegister n)"
| checks: "machine_ok sm \<Longrightarrow> op \<in> set (cycle_ops n tms b None sm) \<Longrightarrow> role_op op"
| measures: "machine_ok sm \<Longrightarrow> measure_speed out = Inr v \<Longrightarrow> report_in_range out
    \<Longrightarrow> op \<in> set (cycle_ops n tms b (Some v) sm) \<Longrightarrow> role_op op"

lemma role_op_wire: "role_op op \<Longrightarrow> wire_op op"
proof (induction rule: role_op.induct)
  case (measures sm out v op n tms b)
  obtain w where w: "reported_bandwidth out = Some w" using measures(2) by (auto simp: measure_speed_bandwidth)
  then obtain q where "w = Fin q" using reported_double [OF w] by (cases w) (auto simp: is_double_def)
  with w measures(3) have "reported_bandwidth out = Some (Fin q)" "\<bar>q\<bar> \<le> 2 powi 1020" by (simp_all add: report_in_range_def)
  from measured_in_bound [OF this measures(2)] cycle_ops_wire [OF measures(1) _ measures(4)] show ?case by simp
qed (auto intro: cycle_ops_wire)

subsection \<open>Summaries that cannot be encoded\<close>

lemma encoded_speeds_finite:
  assumes "EncodeResponse (NewSummary i w) = Inr out" and "u \<in> set (ws_Units w)" and "x \<in> set (wu_Speeds u)"
  shows "\<exists>q. wv_Mbps x = Fin q"
proof -
  obtain us where "map_err marshal_unit (ws_Units w) = Inr us"
    using assms(1) by (auto simp: EncodeResponse_def marshal_response_def NewSummary_def marshal_summary_def or_fail_def split: sum.splits)
  then obtain v where "marshal_unit u = Inr v"
    using assms(2) by (auto simp: map_err_Inr list_all2_conv_all_nth in_set_conv_nth)
  then obtain vs where "map_err marshal_speed_sample (wu_Speeds u) = Inr vs"
    by (auto simp: marshal_unit_def or_fail_def split: sum.splits)
  then obtain v where "marshal_speed_sample x = Inr v"
    using assms(3) by (auto simp: map_err_Inr list_all2_conv_all_nth in_set_conv_nth)
  then show ?thesis
    by (auto simp: marshal_speed_sample_def or_fail_def marshal_float_def split: sum.splits float64.splits)
qed

lemma infinite_speed_unanswered:
  assumes "buildPong cfg = Some l" and "is_monitoring cfg" and "reg_inv r" and "n \<in> unit_names r"
    and "s \<in> set (unit_speeds r n)" and "ss_Mbps s = PInf"
    and "request_wire_ok req" and "req_Version req = Version" and "req_Type req = TypeGetSummary"
    and "EncodeRequest req = Inr line" and "go_len line < defaultMaxRequestBytes"
  shows "sv_written (handle l (\<lambda>_. (Some r, now)) wr (line @ [nl])) = []
    \<and> sv_end (handle l (\<lambda>_. (Some r, now)) wr (line @ [nl])) = WriteFailed"
proof -
  define w where "w = \<lparr>ws_GeneratedAtMS = UnixMilli now, ws_Units = map (toWireUnit \<circ> unit_summary r) (reg_order r)\<rparr>"
  have d: "MessageDispatcher_Dispatch (tl_dispatcher l) (Some r) now (line @ [nl]) = Some (NewSummary (req_ID req) w)"
    using get_summary_answer [OF assms(1,3,7-11) refl, of now] assms(2) by (simp add: w_def)
  let ?u = "toWireUnit (unit_summary r n)"
  have "?u \<in> set (ws_Units w)" "\<lparr>wv_TimeMS = UnixMilli (ss_Time s), wv_Mbps = PInf\<rparr> \<in> set (wu_Speeds ?u)"
    using assms(4-6) by (auto simp: w_def unit_names_def toWireUnit_def unit_summary_def image_iff)
  from encoded_speeds_finite [OF _ this] obtain e where e: "EncodeResponse (NewSummary (req_ID req) w) = Inl e"
    by (cases "EncodeResponse (NewSummary (req_ID req) w)") auto
  have "ReadSlice (tl_maxRequest l) (line @ [nl]) = Line (line @ [nl]) []"
    using ReadSlice_line [OF plain_no_nl [OF decode_encoded(2) [OF assms(7,8,10)]], of "tl_maxRequest l" "[]"]
      buildPong_dispatcher(3) [OF assms(1)] assms(11) by simp
  then show ?thesis
    using d e by (simp add: handle_def handle_loop.simps [of l] writeResponse_def)
qed

lemma huge_bandwidth_infinite:
  assumes "reported_bandwidth out = Some (Fin b)" and "2 powi 1021 \<le> b"
  shows "measure_speed out = Inr PInf"
proof -
  have "rnd (2 powi 1024) = 2 powi 1024" using rnd_nat_powi [of 1 1024] by simp
  moreover have "(2 powi 1024 :: rat) \<le> b * 8" using powi2_add [of 1021 3] assms(2) by simp
  ultimately have "2 powi 1024 \<le> rnd (b * 8)" using rnd_mono [of "2 powi 1024" "b * 8"] by simp
  then have "fl (b * 8) = PInf" by (simp add: fl_def Let_def power_int_def)
  then show ?thesis using assms(1) by (auto simp: measure_speed_bandwidth fl_inf_def)
qed

subsection \<open>Examples\<close>

definition summary_request :: Request where
  "summary_request = \<lparr>req_Version = Version, req_ID = ''s1'', req_Type = TypeGetSummary, req_Payload = zeroPayload\<rparr>"

definition serving_config :: Config where
  "serving_config = example_config\<lparr>c_Roles := (c_Roles example_config)\<lparr>ro_PongServer := \<lparr>ps_Enabled = True, ps_Listen = '':9000'', ps_ReadTimeoutMS = 1000\<rparr>\<rparr>\<rparr>"

lemma summary_request_text: "\<exists>line. EncodeRequest summary_request = Inr line \<and> go_len line < defaultMaxRequestBytes"
proof -
  have "list_all safe_char ''version''" "list_all safe_char ''0.1''" "list_all safe_char ''id''" "list_all safe_char ''s1''"
    "list_all safe_char ''type''" "list_all safe_char ''get-summary''" "list_all safe_char ''payload''"
    by (simp_all add: safe_char_def byte_def str_consts)
  note lengths = this [THEN quote_safe]
  show ?thesis
    by (simp add: EncodeRequest_def marshal_request_def summary_request_def marshal_payload_def omitempty_def zeroPayload_def
        protocol_consts lengths go_len_def defaultMaxRequestBytes_def)
qed

lemma summary_request_ok:
  "request_wire_ok summary_request" "req_Version summary_request = Version" "req_Type summary_request = TypeGetSummary"
proof -
  have "valid_utf8 ''0.1''" "valid_utf8 ''s1''" "valid_utf8 ''get-summary''" by (rule valid_key; simp)+
  then show "request_wire_ok summary_request"
    by (simp add: request_wire_ok_def summary_request_def zeroPayload_def protocol_consts in_int64_def)
qed (simp_all add: summary_request_def)

lemma serving: "\<exists>l. buildPong serving_config = Some l" "is_monitoring serving_config"
  by (simp_all add: buildPong_def serving_config_def is_monitoring_def example_config_def Let_def)

text \<open>What the speedtest prints for a bandwidth.\<close>

definition speedtest_report :: "rat \<Rightarrow> string" where
  "speedtest_report q = json_text (JObject [(''download'', JObject [(''bandwidth'', JNumber (format_float q))])]) @ [nl]"

lemma speedtest_report_bandwidth:
  assumes "is_double (Fin q)"
  shows "reported_bandwidth (Inr (speedtest_report q)) = Some (Fin q)"
proof -
  let ?v = "JObject [(''download'', JObject [(''bandwidth'', JNumber (format_float q))])]"
  have m: "marshal_float (Fin q) = Inr (JNumber (format_float q))" by (simp add: marshal_float_def)
  from wire_float [OF assms] m have n: "dec_float (JNumber (format_float q)) old = Some (Fin q)" "wire_json k (JNumber (format_float q))"
    for old k by (metis sum.inject(2))+
  have "valid_utf8 ''download''" "valid_utf8 ''bandwidth''" by (rule valid_key; simp)+
  then have "wire_json 2 ?v" using n(2) by (simp add: numeral_2_eq_2) (auto intro!: wire_json_object)
  then have "json_unmarshal (json_text ?v @ [nl]) = Inr ?v" by (rule unmarshal_wire) (simp_all add: is_space_def nl_def)
  moreover have "dec_ookla ?v = Some (Fin q)"
    by (simp add: dec_ookla_def put_ookla_def dec_object_def field_of_def n(1))
  ultimately show ?thesis by (simp add: reported_bandwidth_def speedtest_report_def)
qed

lemma powi_1021_double: "is_double (Fin (2 powi 1021))"
proof -
  have r: "rnd (2 powi 1021) = 2 powi 1021" using rnd_nat_powi [of 1 1021] by simp
  have "(2 powi 1021 :: rat) < 2 powi 1024" by (simp only: powi2_less)
  then have "\<bar>rnd (2 powi 1021)\<bar> < 2 ^ 1024" unfolding r by (simp add: power_int_def)
  from rnd_double [OF this] show ?thesis unfolding r .
qed

definition speed_ops :: "RegOp list" where
  "speed_ops = OpRegister ''speed_check'' # cycle_ops ''speed_check'' \<lparr>ct_observe = 1, ct_record = 2, ct_alert = 3\<rparr> True (Some (Fin 20)) example_unit"

lemma double_of_int: "\<bar>m\<bar> \<le> 2 ^ 53 \<Longrightarrow> fl (of_int m) = Fin (of_int m)"
proof -
  assume m: "\<bar>m\<bar> \<le> 2 ^ 53"
  then have "\<bar>of_int m :: rat\<bar> \<le> 2 ^ 53" by (metis of_int_abs of_int_le_iff of_int_numeral of_int_power)
  then have "\<bar>of_int m :: rat\<bar> < 2 ^ 1024" by (rule le_less_trans) simp
  then show ?thesis using rnd_of_int [OF m] by (auto simp: fl_def Let_def abs_if split: if_splits)
qed

lemma speed_ops_role: "\<forall>op \<in> set speed_ops. role_op op"
proof -
  have rep: "reported_bandwidth (Inr (speedtest_report 2500000)) = Some (Fin 2500000)"
    using double_of_int [of 2500000] by (intro speedtest_report_bandwidth) (simp add: is_double_def)
  then have "measure_speed (Inr (speedtest_report 2500000)) = Inr (Fin 20)"
    using double_of_int [of 20000000] double_of_int [of 20] by (auto simp: measure_speed_bandwidth)
  moreover have "(2 powi 22 :: rat) \<le> 2 powi 1020" by (simp only: powi2_le)
  then have "report_in_range (Inr (speedtest_report 2500000))" by (simp add: report_in_range_def rep)
  moreover have "machine_ok example_unit" by (simp add: machine_ok_def sm_inv_def in_int64_def example_unit_def)
  moreover have "valid_utf8 ''speed_check''" by (rule valid_key) simp
  ultimately show ?thesis unfolding speed_ops_def by (auto intro: role_op.intros)
qed

subsection \<open>Properties\<close>

text \<open>
  C22. While roles register units and run check cycles, interleaved in any order, a get-summary request
  is answered whenever the speedtest has reported bandwidths in range: the client reads exactly the
  current summary of every registered unit, in the order of registration, if the instance monitors
  something, and otherwise that the request type is not supported.
\<close>

theorem get_summary_when_monitoring:
  assumes "buildPong cfg = Some l" and "\<forall>op \<in> set ops. role_op op"
    and "request_wire_ok req" and "req_Version req = Version" and "req_Type req = TypeGetSummary"
    and "EncodeRequest req = Inr line" and "go_len line < defaultMaxRequestBytes"
  shows "\<exists>r out. go_range reg_step NewRegistry ops = Some r \<and> read_from l (\<lambda>_. (Some r, now)) (line @ [nl]) = Inr out
    \<and> DecodeResponse out = Inr (if is_monitoring cfg
      then NewSummary (req_ID req) \<lparr>ws_GeneratedAtMS = UnixMilli now, ws_Units = map (toWireUnit \<circ> unit_summary r) (reg_order r)\<rparr>
      else NewError (req_ID req) ''unsupported request type'')"
proof -
  obtain r where r: "go_range reg_step NewRegistry ops = Some r" "reg_wire_ok r"
    using reg_steps_wire [OF NewRegistry_wire] assms(2) role_op_wire by blast
  have inv: "reg_inv r" using r(2) by (simp add: reg_wire_ok_def)
  have words: "valid_utf8 ''0.1''" "valid_utf8 ''summary''" "valid_utf8 ''error''" "valid_utf8 ''unsupported request type''"
    by (rule valid_key; simp)+
  have "valid_utf8 (req_ID req)" using assms(3) by (simp add: request_wire_ok_def)
  with words unit_summary_wire [OF r(2)] UnixMilli_int64 in_int64_0
  have "response_wire_ok (if is_monitoring cfg
      then NewSummary (req_ID req) \<lparr>ws_GeneratedAtMS = UnixMilli now, ws_Units = map (toWireUnit \<circ> unit_summary r) (reg_order r)\<rparr>
      else NewError (req_ID req) ''unsupported request type'')"
    by (simp add: response_wire_ok_def NewSummary_def NewError_def zeroPayload_def protocol_consts unit_names_def)
  with get_summary_answer [OF assms(1) inv assms(3-7) refl, of now] r(1) show ?thesis by blast
qed

theorem get_summary_when_monitoring_witness:
  "\<exists>l line r out. buildPong serving_config = Some l \<and> EncodeRequest summary_request = Inr line
    \<and> go_range reg_step NewRegistry speed_ops = Some r \<and> read_from l (\<lambda>_. (Some r, 5)) (line @ [nl]) = Inr out
    \<and> DecodeResponse out = Inr (NewSummary ''s1''
        \<lparr>ws_GeneratedAtMS = UnixMilli 5, ws_Units = map (toWireUnit \<circ> unit_summary r) (reg_order r)\<rparr>)"
proof -
  obtain l where l: "buildPong serving_config = Some l" using serving(1) by blast
  obtain line where line: "EncodeRequest summary_request = Inr line" "go_len line < defaultMaxRequestBytes" using summary_request_text by blast
  have "req_ID summary_request = ''s1''" by (simp add: summary_request_def)
  with get_summary_when_monitoring [OF l speed_ops_role summary_request_ok line, of 5] l line serving(2) show ?thesis by auto
qed

text \<open>
  C28. A speedtest that reports \<open>2\<^sup>1\<^sup>0\<^sup>2\<^sup>1\<close> bytes per second or more counts as a measurement of infinite speed: the
  cycle records it, and the summary of the registry it leaves cannot be encoded, so a get-summary request
  is not answered at all and the server closes the connection.
\<close>

theorem huge_report_silences_summary:
  assumes "reported_bandwidth out = Some (Fin b)" and "2 powi 1021 \<le> b"
    and "reg_inv r" and "sp_handle s = Some h" and "hd_name h \<in> unit_names r" and "sm_inv (sp_sm s)"
    and "buildPong cfg = Some l" and "is_monitoring cfg"
    and "request_wire_ok req" and "req_Version req = Version" and "req_Type req = TypeGetSummary"
    and "EncodeRequest req = Inr line" and "go_len line < defaultMaxRequestBytes"
  shows "\<exists>s' r' es. speed_runCheck out tms s (Some r) = Some ((s', Some r'), es)
    \<and> sv_written (handle l (\<lambda>_. (Some r', now)) wr (line @ [nl])) = []
    \<and> sv_end (handle l (\<lambda>_. (Some r', now)) wr (line @ [nl])) = WriteFailed"
proof -
  note inf = huge_bandwidth_infinite [OF assms(1,2)]
  have top: "\<not> fl_less PInf (sp_threshold s)" by (cases "sp_threshold s") simp_all
  obtain success detail level attrs where run: "speed_runCheck out tms s (Some r) = do {
      (sm, reg, es) \<leftarrow> finishCheck (Some h) (sp_channels s) ''speed_check'' detail tms success (Some PInf) (sp_sm s) (Some r);
      Some ((s\<lparr>sp_sm := sm\<rparr>, reg), ELog (log_line level ''speed_check result'' attrs) # es) }"
    by (simp add: speed_runCheck_def inf assms(4) top Let_def)
  obtain sm' reg' es where f: "finishCheck (Some h) (sp_channels s) ''speed_check'' detail tms success (Some PInf) (sp_sm s) (Some r)
      = Some (sm', reg', es)"
    using finishCheck_ok [OF assms(6), of "Some r"] assms(3) by (force simp: registry_ok_def)
  define n where "n = hd_name h"
  define ops where "ops = cycle_ops n tms success (Some PInf) sm'"
  obtain r' where r': "go_range reg_step r ops = Some r'" "reg_inv r'" "unit_names r \<subseteq> unit_names r'"
    "unit_speeds r' n = lastn (nat historyCap) (unit_speeds r n @ selected speed_op n ops)"
    using speeds.steps_ok [OF assms(3), of ops] assms(5) by (auto simp: n_def)
  have "selected speed_op n ops = [\<lparr>ss_Time = ct_record tms, ss_Mbps = PInf\<rparr>]" by (simp add: ops_def cycle_ops_def speed_op_def)
  then have "\<lparr>ss_Time = ct_record tms, ss_Mbps = PInf\<rparr> \<in> set (unit_speeds r' n)"
    unfolding r'(4) by (simp add: lastn_def historyCap_def)
  moreover have "n \<in> unit_names r'" using r'(3) assms(5) by (auto simp: n_def)
  ultimately have "sv_written (handle l (\<lambda>_. (Some r', now)) wr (line @ [nl])) = []
      \<and> sv_end (handle l (\<lambda>_. (Some r', now)) wr (line @ [nl])) = WriteFailed"
    by (intro infinite_speed_unanswered [OF assms(7,8) r'(2) _ _ _ assms(9-13)]) auto
  moreover have "reg' = Some r'" using finishCheck_registry [OF f] r'(1) by (simp add: n_def ops_def)
  ultimately show ?thesis using run f by simp
qed

theorem huge_report_silences_summary_witness:
  "\<exists>r s' r' es l line. Register (Some NewRegistry) ''speed_check'' = Some (Some \<lparr>hd_name = ''speed_check''\<rparr>, Some r)
    \<and> buildPong serving_config = Some l \<and> EncodeRequest summary_request = Inr line
    \<and> speed_runCheck (Inr (speedtest_report (2 powi 1021))) \<lparr>ct_observe = 1, ct_record = 2, ct_alert = 3\<rparr>
        \<lparr>sp_binary = ''speedtest'', sp_interval = 1, sp_threshold = Fin 1, sp_channels = [], sp_sm = example_unit,
         sp_handle = Some \<lparr>hd_name = ''speed_check''\<rparr>\<rparr> (Some r) = Some ((s', Some r'), es)
    \<and> sv_written (handle l (\<lambda>_. (Some r', 5)) (\<lambda>_ _. None) (line @ [nl])) = []"
proof -
  have "''speed_check'' \<notin> unit_names NewRegistry" by (simp add: unit_names_def NewRegistry_def)
  from Register_new [OF NewRegistry_inv this] obtain r where
    r: "Register (Some NewRegistry) ''speed_check'' = Some (Some \<lparr>hd_name = ''speed_check''\<rparr>, Some r)" "reg_inv r"
      "''speed_check'' \<in> unit_names r" by (auto simp: unit_names_def)
  obtain l where l: "buildPong serving_config = Some l" using serving(1) by blast
  obtain line where line: "EncodeRequest summary_request = Inr line" "go_len line < defaultMaxRequestBytes" using summary_request_text by blast
  let ?s = "\<lparr>sp_binary = ''speedtest'', sp_interval = 1, sp_threshold = Fin 1, sp_channels = [], sp_sm = example_unit,
    sp_handle = Some \<lparr>hd_name = ''speed_check''\<rparr>\<rparr> :: roleSpeedCheck"
  have s: "sp_handle ?s = Some \<lparr>hd_name = ''speed_check''\<rparr>" "hd_name \<lparr>hd_name = ''speed_check''\<rparr> \<in> unit_names r" "sm_inv (sp_sm ?s)"
    using r(3) example_unit_ok(1) by (simp_all add: unit_ok_def)
  from huge_report_silences_summary [OF speedtest_report_bandwidth [OF powi_1021_double] order_refl r(2) s l serving(2) summary_request_ok line,
      of "\<lparr>ct_observe = 1, ct_record = 2, ct_alert = 3\<rparr>" 5 "\<lambda>_ _. None"]
  show ?thesis using r(1) l line(1) by blast
qed

end
