(* ===== verification/AlertsSpec.thy ===== *)
theory AlertsSpec
  imports MonitorRunSpec
begin

text \<open>
  What a role announces, in closed form: the alerts of a run are a function of the settings of its
  state machine and of the results of its checks. The four roles share the contract
  \<open>history_role\<close>: one cycle adds one result to the history its state stands for and announces the event
  that result causes.
\<close>

subsection \<open>The events of a result history\<close>

primrec events_from :: "MonConfig \<Rightarrow> bool list \<Rightarrow> bool list \<Rightarrow> Event list" where
  "events_from cfg past [] = []"
| "events_from cfg past (b # bs) = event_of (expected_state cfg past) (expected_state cfg (past @ [b])) # events_from cfg (past @ [b]) bs"

lemma expected_events_append: "expected_events cfg (past @ bs) = expected_events cfg past @ events_from cfg past bs"
proof (induction bs arbitrary: past)
  case (Cons b bs)
  from Cons [of "past @ [b]"] show ?case by (simp add: expected_events_snoc)
qed simp

definition announce :: "Event \<Rightarrow> string list" where
  "announce e = (case e of NoEvent \<Rightarrow> [] | AlertUnhealthy \<Rightarrow> [''UNHEALTHY''] | RecoveryHealthy \<Rightarrow> [''HEALTHY''])"

lemma announced_dispatchEvent [simp]: "announced (dispatchEvent channels role detail ev n now) = announce ev"
  by (cases ev) (simp_all add: announced_def alerts_of_dispatchEvent announce_def)

definition dispatched_to :: "effect list \<Rightarrow> string list set" where
  "dispatched_to es = snd ` set (dispatches es)"

lemma dispatched_to_simps [simp]:
  "dispatched_to [] = {}" "dispatched_to (xs @ ys) = dispatched_to xs \<union> dispatched_to ys"
  "dispatched_to (map ELog ls) = {}" "dispatched_to (ELog l # es) = dispatched_to es"
  by (auto simp: dispatched_to_def)

lemma dispatched_to_dispatchEvent: "dispatched_to (dispatchEvent channels role detail ev n now) \<subseteq> {channels}"
  by (cases ev) (auto simp: dispatched_to_def dispatchEvent_def)

lemma finishCheck_closed_form:
  assumes "sm_rep cfg obs sm" and "length obs < 2 ^ 63 - 1" and "registry_ok reg"
  shows "\<exists>sm' reg' es. finishCheck h channels role detail tms b mbps sm reg = Some (sm', reg', es)
    \<and> sm_rep cfg (obs @ [(ct_observe tms, b)]) sm' \<and> registry_ok reg' \<and> dispatched_to es \<subseteq> {channels}
    \<and> announced es = announce (event_of (expected_state cfg (map snd obs)) (expected_state cfg (map snd obs @ [b])))"
proof -
  obtain sm' where ob: "Observe sm (ct_observe tms) b = Some (event_of (expected_state cfg (map snd obs))
      (expected_state cfg (map snd obs @ [b])), sm')" "sm_rep cfg (obs @ [(ct_observe tms, b)]) sm'"
    using Observe_rep [OF assms(1,2), of "ct_observe tms" b] by auto
  obtain r1 where r1: "RecordCheck h (Handle_Update h reg sm') (ct_record tms) b = Some r1" "registry_ok r1"
    using RecordCheck_ok Handle_Update_ok [OF assms(3)] by blast
  obtain r2 where "(case mbps of None \<Rightarrow> Some r1 | Some v \<Rightarrow> RecordSpeed h r1 (ct_record tms) v) = Some r2" "registry_ok r2"
    using RecordSpeed_ok [OF r1(2), of h "ct_record tms"] r1(2) by (cases mbps) (simp, force)
  with ob r1 dispatched_to_dispatchEvent show ?thesis by (auto simp: finishCheck_def Let_def)
qed

text \<open>A cycle that logs \<open>pre\<close> first and puts the machine back into its unit.\<close>

lemma finish_history:
  assumes "sm_rep cfg obs sm" and "length obs < 2 ^ 63 - 1" and "registry_ok reg"
    and "announced pre = []" and "dispatched_to pre = {}"
  shows "\<exists>sm' reg' es. Option.bind (finishCheck h channels role detail tms b mbps sm reg)
        (\<lambda>(sm, reg, es). Some ((upd sm, reg), pre @ es)) = Some ((upd sm', reg'), es)
    \<and> sm_rep cfg (obs @ [(ct_observe tms, b)]) sm' \<and> registry_ok reg' \<and> dispatched_to es \<subseteq> {channels}
    \<and> announced es = announce (event_of (expected_state cfg (map snd obs)) (expected_state cfg (map snd obs @ [b])))"
proof -
  obtain sm' reg' es where "finishCheck h channels role detail tms b mbps sm reg = Some (sm', reg', es)"
    "sm_rep cfg (obs @ [(ct_observe tms, b)]) sm'" "registry_ok reg'" "dispatched_to es \<subseteq> {channels}"
    "announced es = announce (event_of (expected_state cfg (map snd obs)) (expected_state cfg (map snd obs @ [b])))"
    using finishCheck_closed_form [OF assms(1-3)] by blast
  with assms(4,5) show ?thesis by (intro exI [of _ sm'] exI [of _ reg'] exI [of _ "pre @ es"]) simp
qed

definition warning :: "string option \<Rightarrow> (string \<Rightarrow> LogLine) \<Rightarrow> effect list" where
  "warning err line = (case err of None \<Rightarrow> [] | Some e \<Rightarrow> [ELog (line e)])"

lemma warning_silent [simp]: "announced (warning err line) = []" "dispatched_to (warning err line) = {}"
  unfolding warning_def by (rule announced_warn) (simp add: dispatched_to_def dispatches_warn)

subsection \<open>The contract\<close>

text \<open>\<open>rep cfg obs s\<close>: the role is in a state it reaches by the results \<open>obs\<close>; \<open>outcome\<close> is the result of the next check.\<close>

locale history_role =
  fixes cycle :: "'s \<Rightarrow> 'i \<Rightarrow> ('s \<times> effect list) option"
    and rep :: "MonConfig \<Rightarrow> (time \<times> bool) list \<Rightarrow> 's \<Rightarrow> bool"
    and outcome :: "'s \<Rightarrow> 'i \<Rightarrow> bool"
    and outcomes :: "'s \<Rightarrow> 'i list \<Rightarrow> bool list"
    and notified :: "'s \<Rightarrow> string list"
  assumes cycle_form: "rep cfg obs s \<Longrightarrow> length obs < 2 ^ 63 - 1 \<Longrightarrow>
      \<exists>s' es t. cycle s i = Some (s', es) \<and> rep cfg (obs @ [(t, outcome s i)]) s'
        \<and> notified s' = notified s \<and> dispatched_to es \<subseteq> {notified s}
        \<and> announced es = announce (event_of (expected_state cfg (map snd obs)) (expected_state cfg (map snd obs @ [outcome s i])))
        \<and> (\<forall>is. outcomes s (i # is) = outcome s i # outcomes s' is)"
    and outcomes_Nil: "outcomes s [] = []"
begin

lemma cycles_closed_form:
  assumes "rep cfg obs s" and "length obs + length ticks < 2 ^ 63"
  shows "\<exists>s' es. go_range (\<lambda>(s, es) i. map_option (\<lambda>(s', es'). (s', es @ es')) (cycle s i)) (s, es0) ticks = Some (s', es0 @ es)
    \<and> announced es = concat (map announce (events_from cfg (map snd obs) (outcomes s ticks)))
    \<and> dispatched_to es \<subseteq> {notified s}"
  using assms
proof (induction ticks arbitrary: s obs es0)
  case (Cons i ticks)
  have "length obs < 2 ^ 63 - 1" using Cons.prems(2) by simp
  from cycle_form [OF Cons.prems(1) this, of i] obtain s1 es1 t where
    c: "cycle s i = Some (s1, es1)" "rep cfg (obs @ [(t, outcome s i)]) s1" "notified s1 = notified s" "dispatched_to es1 \<subseteq> {notified s}"
      "announced es1 = announce (event_of (expected_state cfg (map snd obs)) (expected_state cfg (map snd obs @ [outcome s i])))"
      "\<And>is. outcomes s (i # is) = outcome s i # outcomes s1 is" by blast
  from Cons.IH [OF c(2), of "es0 @ es1"] Cons.prems(2) obtain s' es where
    "go_range (\<lambda>(s, es) i. map_option (\<lambda>(s', es'). (s', es @ es')) (cycle s i)) (s1, es0 @ es1) ticks = Some (s', (es0 @ es1) @ es)"
    "announced es = concat (map announce (events_from cfg (map snd obs @ [outcome s i]) (outcomes s1 ticks)))"
    "dispatched_to es \<subseteq> {notified s}" by (auto simp: c(3))
  with c show ?case by (intro exI [of _ s'] exI [of _ "es1 @ es"]) auto
qed (auto simp: dispatched_to_def outcomes_Nil)

lemma run_closed_form:
  assumes "rep cfg [] s" and "length ticks < 2 ^ 63" and "0 < interval"
  shows "\<exists>s' es. run_ticker interval cycle s ticks = Some (s', es)
    \<and> announced es = concat (map announce (expected_events cfg (outcomes s ticks))) \<and> dispatched_to es \<subseteq> {notified s}"
  using cycles_closed_form [OF assms(1), of ticks "[]"] assms(2,3) expected_events_append [of cfg "[]" "outcomes s ticks"]
  by (simp add: run_ticker_def)

end

subsection \<open>Ping targets\<close>

text \<open>The results of the probes a target makes; only the counter of request ids is carried along.\<close>

primrec ping_results :: "(string \<Rightarrow> string) \<Rightarrow> pingTargetMonitor \<Rightarrow> (ping_env \<times> check_times) list \<Rightarrow> bool list" where
  "ping_results quote m [] = []"
| "ping_results quote m (inp # inps) = (fst (ping_probe quote (fst inp) m) = None)
     # ping_results quote (snd (ping_probe quote (fst inp) m)) inps"

lemma ping_probe_sm:
  "ping_probe quote env (m\<lparr>pg_sm := x\<rparr>) = (fst (ping_probe quote env m), (snd (ping_probe quote env m))\<lparr>pg_sm := x\<rparr>)"
  by (simp add: ping_probe_def Let_def split: option.split cong: option.case_cong sum.case_cong)

lemma ping_results_sm: "ping_results quote (m\<lparr>pg_sm := x\<rparr>) inps = ping_results quote m inps"
  by (induction inps arbitrary: m) (simp_all add: ping_probe_sm)

interpretation ping_history: history_role "\<lambda>(m, reg) (env, tms). ping_runCheck quote env tms m reg"
  "\<lambda>cfg obs (m, reg). sm_rep cfg obs (pg_sm m) \<and> registry_ok reg" "\<lambda>(m, reg) inp. fst (ping_probe quote (fst inp) m) = None"
  "\<lambda>(m, reg) inps. ping_results quote m inps" "\<lambda>(m, reg). pg_channels m" for quote
proof (standard, goal_cases)
  case (1 cfg obs s inp)
  obtain m reg env tms err m1 where s: "s = (m, reg)" "inp = (env, tms)" and pr: "ping_probe quote env m = (err, m1)"
    by (metis surj_pair)
  have m1: "pg_sm m1 = pg_sm m" "pg_channels m1 = pg_channels m"
    using pr by (auto simp: ping_probe_def Let_def split: option.splits)
  have rep: "sm_rep cfg obs (pg_sm m1)" "registry_ok reg" using 1(1) s m1 by simp_all
  define line detail where "line = (\<lambda>e. log_line LevelWarn ''ping_monitor check failed'' [Attr_String ''target'' (pg_target m1), Attr_Error ''error'' e])"
    and "detail = (case err of None \<Rightarrow> ''ping to '' @ pg_target m1 @ '' succeeded'' | Some e \<Rightarrow> ''ping to '' @ pg_target m1 @ '' failed: '' @ e)"
  have cyc: "ping_runCheck quote env tms m reg = Option.bind
      (finishCheck (pg_handle m1) (pg_channels m1) ''ping_monitor'' detail tms (err = None) None (pg_sm m1) reg)
      (\<lambda>(sm, reg, es). Some ((m1\<lparr>pg_sm := sm\<rparr>, reg), warning err line @ es))"
    by (simp only: ping_runCheck_def pr Let_def prod.case warning_def line_def detail_def)
  from finish_history [OF rep(1) 1(2) rep(2) warning_silent, of "pg_handle m1" "pg_channels m1" "''ping_monitor''" detail tms "err = None" None
      "\<lambda>sm. m1\<lparr>pg_sm := sm\<rparr>" err line] obtain sm' reg' es where
    "ping_runCheck quote env tms m reg = Some ((m1\<lparr>pg_sm := sm'\<rparr>, reg'), es)"
    "sm_rep cfg (obs @ [(ct_observe tms, err = None)]) sm'" "registry_ok reg'" "dispatched_to es \<subseteq> {pg_channels m}"
    "announced es = announce (event_of (expected_state cfg (map snd obs)) (expected_state cfg (map snd obs @ [err = None])))"
    unfolding cyc m1(2) by blast
  then show ?case
    unfolding s by (intro exI [of _ "(m1\<lparr>pg_sm := sm'\<rparr>, reg')"] exI [of _ es] exI [of _ "ct_observe tms"]) (simp add: pr m1 ping_results_sm)
qed (simp split: prod.split)

subsection \<open>URL targets\<close>

interpretation url_history: history_role "\<lambda>(m, reg) (env, tms). url_runCheck env tms m reg"
  "\<lambda>cfg obs (m, reg). sm_rep cfg obs (ul_sm m) \<and> registry_ok reg" "\<lambda>(m, reg) inp. url_probe (fst inp) m = None"
  "\<lambda>(m, reg) inps. map (\<lambda>inp. url_probe (fst inp) m = None) inps" "\<lambda>(m, reg). ul_channels m"
proof (standard, goal_cases)
  case (1 cfg obs s inp)
  obtain m reg env tms where s: "s = (m, reg)" "inp = (env, tms)" by (metis surj_pair)
  have rep: "sm_rep cfg obs (ul_sm m)" "registry_ok reg" using 1(1) s by simp_all
  define err where "err = url_probe env m"
  define line detail where "line = (\<lambda>e. log_line LevelWarn ''url_monitor check failed'' [Attr_String ''url'' (ul_url m), Attr_Error ''error'' e])"
    and "detail = (case err of None \<Rightarrow> ul_url m @ '' healthy'' | Some e \<Rightarrow> ul_url m @ '' unhealthy: '' @ e)"
  have cyc: "url_runCheck env tms m reg = Option.bind
      (finishCheck (ul_handle m) (ul_channels m) ''url_monitor'' detail tms (err = None) None (ul_sm m) reg)
      (\<lambda>(sm, reg, es). Some ((m\<lparr>ul_sm := sm\<rparr>, reg), warning err line @ es))"
    by (simp only: url_runCheck_def Let_def warning_def line_def detail_def err_def)
  from finish_history [OF rep(1) 1(2) rep(2) warning_silent, of "ul_handle m" "ul_channels m" "''url_monitor''" detail tms "err = None" None
      "\<lambda>sm. m\<lparr>ul_sm := sm\<rparr>" err line] obtain sm' reg' es where
    "url_runCheck env tms m reg = Some ((m\<lparr>ul_sm := sm'\<rparr>, reg'), es)"
    "sm_rep cfg (obs @ [(ct_observe tms, err = None)]) sm'" "registry_ok reg'" "dispatched_to es \<subseteq> {ul_channels m}"
    "announced es = announce (event_of (expected_state cfg (map snd obs)) (expected_state cfg (map snd obs @ [err = None])))"
    unfolding cyc by blast
  moreover have "url_probe e (m\<lparr>ul_sm := sm'\<rparr>) = url_probe e m" for e by (simp add: url_probe_def)
  ultimately show ?case
    unfolding s by (intro exI [of _ "(m\<lparr>ul_sm := sm'\<rparr>, reg')"] exI [of _ es] exI [of _ "ct_observe tms"]) (simp add: err_def)
qed (simp split: prod.split)

subsection \<open>The speed check\<close>

definition fast_enough :: "roleSpeedCheck \<Rightarrow> string + string \<Rightarrow> bool" where
  "fast_enough s out = (case measure_speed out of Inl _ \<Rightarrow> False | Inr v \<Rightarrow> \<not> fl_less v (sp_threshold s))"

interpretation speed_history: history_role "\<lambda>(s, reg) (out, tms). speed_runCheck out tms s reg"
  "\<lambda>cfg obs (s, reg). sm_rep cfg obs (sp_sm s) \<and> registry_ok reg" "\<lambda>(s, reg) inp. fast_enough s (fst inp)"
  "\<lambda>(s, reg) inps. map (\<lambda>inp. fast_enough s (fst inp)) inps" "\<lambda>(s, reg). sp_channels s"
proof (standard, goal_cases)
  case (1 cfg obs s inp)
  obtain m reg out tms where s: "s = (m, reg)" "inp = (out, tms)" by (metis surj_pair)
  have rep: "sm_rep cfg obs (sp_sm m)" "registry_ok reg" using 1(1) s by simp_all
  obtain line detail mbps where cyc: "speed_runCheck out tms m reg = Option.bind
      (finishCheck (sp_handle m) (sp_channels m) ''speed_check'' detail tms (fast_enough m out) mbps (sp_sm m) reg)
      (\<lambda>(sm, reg, es). Some ((m\<lparr>sp_sm := sm\<rparr>, reg), warning (Some []) (\<lambda>_. line) @ es))"
    by (cases "measure_speed out"; cases "fl_less (projr (measure_speed out)) (sp_threshold m)")
      (auto simp: speed_runCheck_def fast_enough_def Let_def warning_def)
  from finish_history [OF rep(1) 1(2) rep(2) warning_silent, of "sp_handle m" "sp_channels m" "''speed_check''" detail tms "fast_enough m out" mbps
      "\<lambda>sm. m\<lparr>sp_sm := sm\<rparr>" "Some []" "\<lambda>_. line"] obtain sm' reg' es where
    "speed_runCheck out tms m reg = Some ((m\<lparr>sp_sm := sm'\<rparr>, reg'), es)"
    "sm_rep cfg (obs @ [(ct_observe tms, fast_enough m out)]) sm'" "registry_ok reg'" "dispatched_to es \<subseteq> {sp_channels m}"
    "announced es = announce (event_of (expected_state cfg (map snd obs)) (expected_state cfg (map snd obs @ [fast_enough m out])))"
    unfolding cyc by blast
  moreover have "fast_enough (m\<lparr>sp_sm := sm'\<rparr>) o' = fast_enough m o'" for o' by (simp add: fast_enough_def split: sum.split)
  ultimately show ?case
    unfolding s by (intro exI [of _ "(m\<lparr>sp_sm := sm'\<rparr>, reg')"] exI [of _ es] exI [of _ "ct_observe tms"]) simp
qed (simp split: prod.split)

subsection \<open>The internet check\<close>

text \<open>The \<open>k\<close>-th check probes the \<open>k\<close>-th site of the list, read in a circle.\<close>

primrec internet_results :: "roleInternetCheck \<Rightarrow> nat \<Rightarrow> (get_env \<times> check_times) list \<Rightarrow> bool list" where
  "internet_results c k [] = []"
| "internet_results c k (inp # inps) =
     (checkSite (fst inp) c (in_sites c ! (k mod length (in_sites c))) = None) # internet_results c (Suc k) inps"

lemma internet_results_sm: "internet_results (c\<lparr>in_next := n, in_sm := sm\<rparr>) k inps = internet_results c k inps"
  by (induction inps arbitrary: k) (simp_all add: checkSite_def)

lemma internet_results_eq:
  "internet_results c k inps =
    map (\<lambda>j. checkSite (fst (inps ! j)) c (in_sites c ! ((k + j) mod length (in_sites c))) = None) [0..<length inps]"
  by (induction inps arbitrary: k) (simp_all add: upt_rec [of 0] map_Suc_upt [symmetric] del: upt_Suc)

interpretation internet_history: history_role "\<lambda>(c, reg) (env, tms). internet_runCheck env tms c reg"
  "\<lambda>cfg obs (c, reg). sm_rep cfg obs (in_sm c) \<and> registry_ok reg \<and> in_next c = int (length obs)
     \<and> in_sites c \<noteq> [] \<and> length (in_sites c) < 2 ^ 63"
  "\<lambda>(c, reg) inp. checkSite (fst inp) c (in_sites c ! (nat (in_next c) mod length (in_sites c))) = None"
  "\<lambda>(c, reg) inps. internet_results c (nat (in_next c)) inps" "\<lambda>(c, reg). in_channels c"
proof (standard, goal_cases)
  case (1 cfg obs s inp)
  obtain c reg env tms where s: "s = (c, reg)" "inp = (env, tms)" by (metis surj_pair)
  have rep: "sm_rep cfg obs (in_sm c)" "registry_ok reg" and n: "in_next c = int (length obs)" and
    sites: "in_sites c \<noteq> []" "length (in_sites c) < 2 ^ 63" using 1(1) s by simp_all
  define site c1 where "site = in_sites c ! (length obs mod length (in_sites c))" and "c1 = c\<lparr>in_next := int (length obs) + 1\<rparr>"
  have "sites_ok (Suc 0) c" using sites n 1(2) by (simp add: sites_ok_def)
  from nextSite_ok(1) [OF this] have ns: "nextSite c = Some (site, c1)"
    by (simp add: n site_def c1_def zmod_int [symmetric])
  have chk: "checkSite env c1 site = checkSite env c site" by (simp add: c1_def checkSite_def)
  have rep1: "sm_rep cfg obs (in_sm c1)" using rep(1) by (simp add: c1_def)
  have fields: "in_channels c1 = in_channels c" "in_sites c1 = in_sites c" "in_next c1 = int (Suc (length obs))" by (simp_all add: c1_def)
  have res: "internet_results (c1\<lparr>in_sm := sm\<rparr>) k inps = internet_results c k inps" for sm k inps
    unfolding c1_def by (rule internet_results_sm)
  define err where "err = checkSite env c site"
  define line detail where "line = (\<lambda>e. log_line LevelWarn ''internet_check failed'' [Attr_String ''site'' site, Attr_Error ''error'' e])"
    and "detail = (case err of None \<Rightarrow> site @ '' reachable'' | Some e \<Rightarrow> site @ '' unreachable: '' @ e)"
  have cyc: "internet_runCheck env tms c reg = Option.bind
      (finishCheck (in_handle c1) (in_channels c1) ''internet_check'' detail tms (err = None) None (in_sm c1) reg)
      (\<lambda>(sm, reg, es). Some ((c1\<lparr>in_sm := sm\<rparr>, reg), warning err line @ es))"
    by (simp only: internet_runCheck_def ns Let_def warning_def line_def detail_def err_def chk bind.bind_lunit prod.case)
  from finish_history [OF rep1 1(2) rep(2) warning_silent, of "in_handle c1" "in_channels c1" "''internet_check''" detail tms "err = None" None
      "\<lambda>sm. c1\<lparr>in_sm := sm\<rparr>" err line] obtain sm' reg' es where
    "internet_runCheck env tms c reg = Some ((c1\<lparr>in_sm := sm'\<rparr>, reg'), es)"
    "sm_rep cfg (obs @ [(ct_observe tms, err = None)]) sm'" "registry_ok reg'" "dispatched_to es \<subseteq> {in_channels c}"
    "announced es = announce (event_of (expected_state cfg (map snd obs)) (expected_state cfg (map snd obs @ [err = None])))"
    unfolding cyc fields(1) by blast
  with sites(2) show ?case
    unfolding s by (intro exI [of _ "(c1\<lparr>in_sm := sm'\<rparr>, reg')"] exI [of _ es] exI [of _ "ct_observe tms"])
      (simp add: err_def fields res n site_def sites nat_add_distrib)
qed (simp split: prod.split)

subsection \<open>Properties\<close>

lemma ping_run_closed_form:
  assumes "NewWithConfig cfg = Some (pg_sm m)" and "mc_WindowSize cfg < 2 ^ 63" and "0 < pg_interval m"
    and "length ticks < 2 ^ 63" and "registry_ok reg"
  shows "\<exists>m' reg' es. ping_run quote (m, reg) ticks = Some ((m', reg'), es)
    \<and> announced es = concat (map announce (expected_events cfg (ping_results quote m ticks))) \<and> dispatched_to es \<subseteq> {pg_channels m}"
  using ping_history.run_closed_form [of cfg "(m, reg)" ticks "pg_interval m" quote] NewWithConfig_rep [OF assms(2)] assms
  by (auto simp: ping_run_def)

text \<open>
  C9. Whatever the network, the speedtest binary and the clock do, a ping target, a URL target, the
  speed check and the internet check run their cycles without a panic, and the alerts they send are
  exactly the closed form of the results of their checks under the settings of their state machine
  (the edges between the states the rule assigns to the histories so far); the internet check draws
  its \<open>k\<close>-th result from site \<open>k mod n\<close>. Every alert goes to the channels of its role.
\<close>

theorem roles_alerts_closed_form:
  assumes "registry_ok reg" and "mc_WindowSize cfg < 2 ^ 63"
    and "NewWithConfig cfg = Some (pg_sm m)" "0 < pg_interval m" "length pticks < 2 ^ 63"
    and "NewWithConfig cfg = Some (ul_sm u)" "0 < ul_interval u" "length uticks < 2 ^ 63"
    and "NewWithConfig cfg = Some (sp_sm s)" "0 < sp_interval s" "length sticks < 2 ^ 63"
    and "NewWithConfig cfg = Some (in_sm c)" "0 < in_interval c" "length iticks < 2 ^ 63"
    and "in_sites c \<noteq> []" "length (in_sites c) < 2 ^ 63" "in_next c = 0"
  shows "(\<exists>m' reg' es. ping_run quote (m, reg) pticks = Some ((m', reg'), es) \<and> dispatched_to es \<subseteq> {pg_channels m}
      \<and> announced es = concat (map announce (expected_events cfg (ping_results quote m pticks))))
    \<and> (\<exists>u' reg' es. url_run (u, reg) uticks = Some ((u', reg'), es) \<and> dispatched_to es \<subseteq> {ul_channels u}
      \<and> announced es = concat (map announce (expected_events cfg (map (\<lambda>inp. url_probe (fst inp) u = None) uticks))))
    \<and> (\<exists>s' reg' es. speed_run (s, reg) sticks = Some ((s', reg'), es) \<and> dispatched_to es \<subseteq> {sp_channels s}
      \<and> announced es = concat (map announce (expected_events cfg (map (\<lambda>inp. fast_enough s (fst inp)) sticks))))
    \<and> (\<exists>c' reg' es. internet_run (c, reg) iticks = Some ((c', reg'), es) \<and> dispatched_to es \<subseteq> {in_channels c}
      \<and> announced es = concat (map announce (expected_events cfg
          (map (\<lambda>k. checkSite (fst (iticks ! k)) c (in_sites c ! (k mod length (in_sites c))) = None) [0..<length iticks]))))"
proof -
  have rep: "sm_rep cfg [] sm" if "NewWithConfig cfg = Some sm" for sm using NewWithConfig_rep [OF assms(2)] that by auto
  show ?thesis
  proof (intro conjI)
    show "\<exists>m' reg' es. ping_run quote (m, reg) pticks = Some ((m', reg'), es) \<and> dispatched_to es \<subseteq> {pg_channels m}
        \<and> announced es = concat (map announce (expected_events cfg (ping_results quote m pticks)))"
      using ping_run_closed_form [OF assms(3,2,4,5,1), of quote] by blast
    show "\<exists>u' reg' es. url_run (u, reg) uticks = Some ((u', reg'), es) \<and> dispatched_to es \<subseteq> {ul_channels u}
        \<and> announced es = concat (map announce (expected_events cfg (map (\<lambda>inp. url_probe (fst inp) u = None) uticks)))"
      using url_history.run_closed_form [of cfg "(u, reg)" uticks "ul_interval u"] rep [OF assms(6)] assms(1,7,8)
      by (auto simp: url_run_def)
    show "\<exists>s' reg' es. speed_run (s, reg) sticks = Some ((s', reg'), es) \<and> dispatched_to es \<subseteq> {sp_channels s}
        \<and> announced es = concat (map announce (expected_events cfg (map (\<lambda>inp. fast_enough s (fst inp)) sticks)))"
      using speed_history.run_closed_form [of cfg "(s, reg)" sticks "sp_interval s"] rep [OF assms(9)] assms(1,10,11)
      by (auto simp: speed_run_def)
    show "\<exists>c' reg' es. internet_run (c, reg) iticks = Some ((c', reg'), es) \<and> dispatched_to es \<subseteq> {in_channels c}
        \<and> announced es = concat (map announce (expected_events cfg
          (map (\<lambda>k. checkSite (fst (iticks ! k)) c (in_sites c ! (k mod length (in_sites c))) = None) [0..<length iticks])))"
      using internet_history.run_closed_form [of cfg "(c, reg)" iticks "in_interval c"] rep [OF assms(12)] assms(1,13-17)
      by (auto simp: internet_run_def internet_results_eq)
  qed
qed

definition example_settings :: MonConfig where
  "example_settings = \<lparr>mc_FailureThreshold = 1, mc_WindowSize = 0, mc_Trigger = TriggerConsecutive, mc_MinAvailability = Fin 0\<rparr>"

lemma NewWithConfig_example: "NewWithConfig example_settings = Some example_unit"
  by (simp add: NewWithConfig_def example_settings_def example_unit_def)

theorem roles_alerts_closed_form_witness:
  "\<exists>m' reg' es. ping_run id (\<lparr>pg_target = ''a'', pg_interval = 1, pg_timeout = 1, pg_channels = [''ops''],
      pg_sm = example_unit, pg_handle = None, pg_idCounter = 0\<rparr>, None)
      [(\<lparr>pe_dial = Some ''refused'', pe_now = 1, pe_write = None, pe_read = Inl\<rparr>, \<lparr>ct_observe = 1, ct_record = 1, ct_alert = 1\<rparr>)]
      = Some ((m', reg'), es) \<and> announced es = [''UNHEALTHY''] \<and> dispatched_to es \<subseteq> {[''ops'']}"
  using roles_alerts_closed_form [of None example_settings
      "\<lparr>pg_target = ''a'', pg_interval = 1, pg_timeout = 1, pg_channels = [''ops''], pg_sm = example_unit, pg_handle = None, pg_idCounter = 0\<rparr>"
      "[(\<lparr>pe_dial = Some ''refused'', pe_now = 1, pe_write = None, pe_read = Inl\<rparr>, \<lparr>ct_observe = 1, ct_record = 1, ct_alert = 1\<rparr>)]"
      "\<lparr>ul_url = ''u'', ul_interval = 1, ul_timeout = 1, ul_channels = [], ul_sm = example_unit, ul_handle = None,
        ul_client = NewHTTPClient 1 False\<rparr>" "[]"
      "\<lparr>sp_binary = ''b'', sp_interval = 1, sp_threshold = Fin 1, sp_channels = [], sp_sm = example_unit, sp_handle = None\<rparr>" "[]"
      example_internet "[]" id]
    NewWithConfig_example
  by (auto simp: registry_ok_def example_internet_def example_settings_def ping_probe_def expected_events_def expected_state_def
      trailing_failures_def announce_def Let_def)

end
