(* ===== verification/EndToEndSpec.thy ===== *)
theory EndToEndSpec
  imports HealthdSpec AlertsSpec
begin

text \<open>
  From the configuration file to the alert: what a configured ping target announces is a function of
  its settings and of the results of its probes, whatever the other targets do meanwhile.
\<close>

subsection \<open>From the configuration\<close>

lemma startup_ping_units:
  assumes "startup getenv ord (Inr cfg) = Some (Inr (d, act, reg))" and "ac_ping_monitor act = Some ms" and "config_in_range cfg"
  shows "list_all2 (\<lambda>t m. ping_unit (pingTarget t) m) (pm_Targets (ro_PingMonitor (c_Roles cfg))) ms"
proof -
  let ?ts = "pm_Targets (ro_PingMonitor (c_Roles cfg))"
  obtain r1 where "NewPingMonitor (map pingTarget ?ts) (Some NewRegistry) = Some (ms, r1)"
    using assms(1,2) by (auto simp: startup_def buildRoles_def buildPing_def Let_def split: sum.splits bind_splits if_splits)
  moreover have "mc_WindowSize (rp_Mon t) < 2 ^ 63" if "t \<in> set (map pingTarget ?ts)" for t
    using that assms(3) by (auto simp: config_in_range_def in_range_def pingTarget_def monitorConfig_def Let_def)
  moreover have "registry_ok (Some NewRegistry)" using NewRegistry_inv by (simp add: registry_ok_def)
  ultimately show ?thesis using NewPingMonitor_ok [of "Some NewRegistry" "map pingTarget ?ts"] by (fastforce simp: list_all2_map1)
qed

text \<open>The settings of the state machine, read off the effective parameters of a target.\<close>

definition target_config :: "PingTarget \<Rightarrow> MonConfig" where
  "target_config t = (let p = pt_MonitorParams t in
     \<lparr>mc_FailureThreshold = mp_FailureThreshold p, mc_WindowSize = mp_WindowSize p,
      mc_Trigger = (if mp_Trigger p = ''availability'' then TriggerAvailability else TriggerConsecutive),
      mc_MinAvailability = mp_MinAvailability p\<rparr>)"

lemma target_config_Mon: "rp_Mon (pingTarget t) = target_config t"
  by (simp add: target_config_def pingTarget_def monitorConfig_def cfg_consts Let_def)

lemma startup_ping_monitors:
  assumes "decode_config data = Inr c" and "iterates ord (c_Channels c)" and "iterates ord' (c_Channels c)"
    and "Load ord ord' (Inr data) = Inr cfg" and "iterates ord'' (c_Channels cfg)" and "intervals_ok cfg"
    and st: "startup getenv ord'' (Inr cfg) = Some (Inr (d, act, reg))" and ms: "ac_ping_monitor act = Some ms"
  shows "registry_ok reg" and "\<forall>m \<in> set ms. sm_inv (pg_sm m) \<and> 0 < pg_interval m"
    and "i < length ms \<Longrightarrow> NewWithConfig (target_config (pm_Targets (ro_PingMonitor (c_Roles cfg)) ! i)) = Some (pg_sm (ms ! i))"
    and "i < length ms \<Longrightarrow> mc_WindowSize (target_config (pm_Targets (ro_PingMonitor (c_Roles cfg)) ! i)) < 2 ^ 63"
    and "i < length ms \<Longrightarrow> pg_channels (ms ! i) = mp_Notify (pt_MonitorParams (pm_Targets (ro_PingMonitor (c_Roles cfg)) ! i))"
    and "i < length ms \<Longrightarrow> set (pg_channels (ms ! i)) \<subseteq> dom (d_channels d)"
proof -
  from loaded_config_ready [OF assms(1-6), of getenv] st have reg: "registry_ok reg" "roles_ready (d_channels d) cfg act"
    by (auto split: if_splits)
  then show "registry_ok reg" by simp
  have cs: "\<forall>m \<in> set ms. can_start (d_channels d) (pg_sm m) (pg_interval m) (pg_channels m)"
    using reg(2) ms by (simp add: roles_ready_def ping_ready_def Let_def)
  then show "\<forall>m \<in> set ms. sm_inv (pg_sm m) \<and> 0 < pg_interval m" by (simp add: can_start_def)
  show "i < length ms \<Longrightarrow> set (pg_channels (ms ! i)) \<subseteq> dom (d_channels d)" using cs by (simp add: can_start_def)
  have rng: "config_in_range cfg"
    using Load_Inr [OF assms(1-3), of cfg] assms(4,6) decode_config_typed [OF assms(1)] effective_config_typed typed_in_range by blast
  note u = startup_ping_units [OF st ms this]
  show "NewWithConfig (target_config (pm_Targets (ro_PingMonitor (c_Roles cfg)) ! i)) = Some (pg_sm (ms ! i))"
    "pg_channels (ms ! i) = mp_Notify (pt_MonitorParams (pm_Targets (ro_PingMonitor (c_Roles cfg)) ! i))"
    "mc_WindowSize (target_config (pm_Targets (ro_PingMonitor (c_Roles cfg)) ! i)) < 2 ^ 63" if "i < length ms"
    using that u rng by (auto simp: list_all2_conv_all_nth ping_unit_def target_config_Mon)
      (auto simp: pingTarget_def target_config_def config_in_range_def in_range_def Let_def)
qed

subsection \<open>Properties\<close>

text \<open>
  C2. From the configuration file to the alert: in a daemon started from a loaded configuration,
  under every schedule of the goroutines of the ping monitor, what each target announces is exactly
  the closed form of its own probe results under its effective settings (trigger, threshold, window,
  minimum availability); every alert goes to the channels its settings name, and all of those exist
  in the dispatcher. No goroutine panics.
\<close>

theorem configured_target_alerts:
  assumes "decode_config data = Inr c" and "iterates ord (c_Channels c)" and "iterates ord' (c_Channels c)"
    and "Load ord ord' (Inr data) = Inr cfg" and "iterates ord'' (c_Channels cfg)" and "intervals_ok cfg"
    and "startup getenv ord'' (Inr cfg) = Some (Inr (d, act, reg))" and "ac_ping_monitor act = Some ms"
    and "PingMonitor_Run quote ms reg ls s" and "i < length ms" and "\<not> in_check (mr_gos s ! i)" and "length (ticks_of i ls) < 2 ^ 63"
  defines "t \<equiv> pm_Targets (ro_PingMonitor (c_Roles cfg)) ! i"
  shows "mr_main s \<noteq> Crashed
    \<and> announced (effects_of i ls) = concat (map announce (expected_events (target_config t) (ping_results quote (ms ! i) (ticks_of i ls))))
    \<and> dispatched_to (effects_of i ls) \<subseteq> {mp_Notify (pt_MonitorParams t)}
    \<and> known d (mp_Notify (pt_MonitorParams t)) = mp_Notify (pt_MonitorParams t)"
proof -
  note ok = startup_ping_monitors [OF assms(1-8)]
  have run: "monitor_steps pg_interval (ping_stages quote) (monitor_run_start ms reg) ls s"
    using assms(9) by (simp add: PingMonitor_Run_def)
  have "mr_main s \<noteq> Crashed" using ping_fan.run_inv_steps [OF run ok(2,1)] by (simp add: ping_fan.run_inv_def)
  moreover obtain m' reg' es where es: "ping_run quote (ms ! i, reg) (ticks_of i ls) = Some ((m', reg'), es)"
    "dispatches (effects_of i ls) = dispatches es"
    using ping_fan.isolates_dispatches [OF run ok(2,1) assms(10,11)] by (auto simp: ping_run_def)
  moreover have "0 < pg_interval (ms ! i)" using ok(2) assms(10) by simp
  from ping_run_closed_form [OF ok(3,4) [OF assms(10)] this assms(12) ok(1), of quote] es(1)
  have "announced es = concat (map announce (expected_events (target_config t) (ping_results quote (ms ! i) (ticks_of i ls))))"
    "dispatched_to es \<subseteq> {pg_channels (ms ! i)}" by (auto simp: t_def)
  moreover have "known d (pg_channels (ms ! i)) = pg_channels (ms ! i)"
    using ok(6) [OF assms(10)] by (auto simp: known_def filter_id_conv)
  ultimately show ?thesis
    using ok(5) [OF assms(10)] by (simp add: announced_def alerts_of_dispatches dispatched_to_def t_def)
qed

theorem configured_target_alerts_witness:
  "\<exists>d act reg ms ls s. startup (\<lambda>_. []) [''ops''] (Inr (effective_config example_config)) = Some (Inr (d, act, reg))
    \<and> ac_ping_monitor act = Some ms \<and> PingMonitor_Run id ms reg ls s \<and> ticks_of 0 ls = [example_ticks]
    \<and> announced (effects_of 0 ls) = [''UNHEALTHY''] \<and> dispatched_to (effects_of 0 ls) \<subseteq> {[''ops'']}"
proof -
  let ?c = "effective_config example_config"
  have it: "iterates [''ops''] (c_Channels ?c)"
    using example_iterates by (auto simp: iterates_def effective_config_def Let_def domIff)
  have rng: "intervals_ok ?c" by (rule example_intervals)
  have pm: "pm_Enabled (ro_PingMonitor (c_Roles ?c))" "map pt_Target (pm_Targets (ro_PingMonitor (c_Roles ?c))) = [''a:1'']"
    by (simp_all add: effective_config_def effective_ping_def example_config_def Let_def)
  note load = example_decode example_iterates example_iterates example_loaded it rng
  from loaded_config_ready [OF load, of "\<lambda>_. []"] pm obtain d act reg where
    st: "startup (\<lambda>_. []) [''ops''] (Inr ?c) = Some (Inr (d, act, reg))" "roles_ready (d_channels d) ?c act"
    by (auto simp: is_monitoring_def)
  then obtain m where ms: "ac_ping_monitor act = Some [m]"
    using pm by (auto simp: roles_ready_def ping_ready_def Let_def map_eq_Cons_conv split: option.splits)
  note ok = startup_ping_monitors [OF load st(1) ms]
  have m: "sm_inv (pg_sm m)" "0 < pg_interval m" using ok(2) by simp_all
  obtain m' warn ops post where "ping_stages id example_ticks m = Some (m', warn, ops, post)"
    using ping_fan.check_ok [OF m(1), of id example_ticks] by blast
  from first_check [where ms = "[]" and interval = pg_interval and check = "ping_stages id", OF m(2) this ok(1)] obtain ls s where
    run: "PingMonitor_Run id [m] reg ls s" "ticks_of 0 ls = [example_ticks]" "\<not> in_check (mr_gos s ! 0)" by (auto simp: PingMonitor_Run_def)
  from configured_target_alerts [OF load st(1) ms run(1) _ run(3)] run(2)
  have al: "announced (effects_of 0 ls) = concat (map announce (expected_events (target_config (pm_Targets (ro_PingMonitor (c_Roles ?c)) ! 0))
      (ping_results id m [example_ticks])))"
    "dispatched_to (effects_of 0 ls) \<subseteq> {mp_Notify (pt_MonitorParams (pm_Targets (ro_PingMonitor (c_Roles ?c)) ! 0))}" by simp_all
  have "pt_MonitorParams (pm_Targets (ro_PingMonitor (c_Roles ?c)) ! 0) = \<lparr>mp_IntervalS = 30, mp_TimeoutMS = 50, mp_FailureThreshold = 1,
      mp_Trigger = ''consecutive'', mp_WindowSize = 20, mp_MinAvailability = Fin 0, mp_Notify = [''ops''], mp_InsecureSkipVerify = False\<rparr>"
    by (simp add: effective_ping_def ping_source_def example_config_def zeroParams_def profile_params_def effective_def Let_def)
  with al have "announced (effects_of 0 ls) = [''UNHEALTHY'']" "dispatched_to (effects_of 0 ls) \<subseteq> {[''ops'']}"
    by (simp_all add: target_config_def example_ticks_def ping_probe_def
        expected_events_def expected_state_def trailing_failures_def announce_def Let_def)
  with st(1) ms run show ?thesis by blast
qed

end
