(* ===== verification/URLEndToEndSpec.thy ===== *)
theory URLEndToEndSpec
  imports EndToEndSpec URLSpec
begin

text \<open>
  From the configuration file to the alert, for the URL targets: what a configured URL announces is a
  function of its settings and of the answers its requests get.
\<close>

lemma url_run_closed_form:
  assumes "NewWithConfig cfg = Some (ul_sm m)" and "mc_WindowSize cfg < 2 ^ 63" and "0 < ul_interval m"
    and "length ticks < 2 ^ 63" and "registry_ok reg"
  shows "\<exists>m' reg' es. url_run (m, reg) ticks = Some ((m', reg'), es)
    \<and> announced es = concat (map announce (expected_events cfg (map (\<lambda>inp. url_probe (fst inp) m = None) ticks)))
    \<and> dispatched_to es \<subseteq> {ul_channels m}"
  using url_history.run_closed_form [of cfg "(m, reg)" ticks "ul_interval m"] NewWithConfig_rep [OF assms(2)] assms
  by (auto simp: url_run_def)

subsection \<open>From the configuration\<close>

lemma startup_url_units:
  assumes "startup getenv ord (Inr cfg) = Some (Inr (d, act, reg))" and "ac_url_monitor act = Some ms" and "config_in_range cfg"
  shows "list_all2 (\<lambda>t m. url_unit (urlTarget t) m) (um_Targets (ro_URLMonitor (c_Roles cfg))) ms"
proof -
  let ?ps = "pm_Targets (ro_PingMonitor (c_Roles cfg))" and ?us = "um_Targets (ro_URLMonitor (c_Roles cfg))"
  obtain ping r1 r2 where b: "buildPing (ro_PingMonitor (c_Roles cfg)) (Some NewRegistry) = Some (ping, r1)"
    "NewURLMonitor (map urlTarget ?us) r1 = Some (ms, r2)"
    using assms(1,2) by (auto simp: startup_def buildRoles_def buildURL_def Let_def split: sum.splits bind_splits if_splits)
  have ok: "registry_ok (Some NewRegistry)" using NewRegistry_inv by (simp add: registry_ok_def)
  have "mc_WindowSize (rp_Mon t) < 2 ^ 63" if "t \<in> set (map pingTarget ?ps)" for t
    using that assms(3) by (auto simp: config_in_range_def in_range_def pingTarget_def monitorConfig_def Let_def)
  with NewPingMonitor_ok [OF ok, of "map pingTarget ?ps"] b(1) ok have "registry_ok r1" by (auto simp: buildPing_def split: if_splits)
  moreover have "mc_WindowSize (ru_Mon t) < 2 ^ 63" if "t \<in> set (map urlTarget ?us)" for t
    using that assms(3) by (auto simp: config_in_range_def in_range_def urlTarget_def monitorConfig_def Let_def)
  ultimately show ?thesis using NewURLMonitor_ok [of r1 "map urlTarget ?us"] b(2) by (fastforce simp: list_all2_map1)
qed

text \<open>The settings of the state machine, and the probe, of a target.\<close>

definition url_config :: "URLTarget \<Rightarrow> MonConfig" where
  "url_config t = (let p = ut_MonitorParams t in
     \<lparr>mc_FailureThreshold = mp_FailureThreshold p, mc_WindowSize = mp_WindowSize p,
      mc_Trigger = (if mp_Trigger p = ''availability'' then TriggerAvailability else TriggerConsecutive),
      mc_MinAvailability = mp_MinAvailability p\<rparr>)"

definition url_healthy :: "URLTarget \<Rightarrow> get_env \<Rightarrow> bool" where
  "url_healthy t env = (let p = ut_MonitorParams t in
     httpProbe env (NewHTTPClient (go_mul (mp_TimeoutMS p) Millisecond) (mp_InsecureSkipVerify p)) (ut_URL t) = None)"

lemma url_config_Mon: "ru_Mon (urlTarget t) = url_config t"
  by (simp add: url_config_def urlTarget_def monitorConfig_def cfg_consts Let_def)

lemma url_unit_healthy: "url_unit (urlTarget t) m \<Longrightarrow> (url_probe env m = None) = url_healthy t env"
  by (simp add: url_unit_def urlTarget_def url_probe_def url_healthy_def Let_def)

lemma startup_url_monitors:
  assumes "decode_config data = Inr c" and "iterates ord (c_Channels c)" and "iterates ord' (c_Channels c)"
    and "Load ord ord' (Inr data) = Inr cfg" and "iterates ord'' (c_Channels cfg)" and "intervals_ok cfg"
    and st: "startup getenv ord'' (Inr cfg) = Some (Inr (d, act, reg))" and ms: "ac_url_monitor act = Some ms"
  defines "t \<equiv> \<lambda>i. um_Targets (ro_URLMonitor (c_Roles cfg)) ! i"
  shows "registry_ok reg" and "\<forall>m \<in> set ms. sm_inv (ul_sm m) \<and> 0 < ul_interval m"
    and "i < length ms \<Longrightarrow> NewWithConfig (url_config (t i)) = Some (ul_sm (ms ! i)) \<and> mc_WindowSize (url_config (t i)) < 2 ^ 63"
    and "i < length ms \<Longrightarrow> ul_channels (ms ! i) = mp_Notify (ut_MonitorParams (t i))"
    and "i < length ms \<Longrightarrow> set (ul_channels (ms ! i)) \<subseteq> dom (d_channels d)"
    and "i < length ms \<Longrightarrow> (url_probe env (ms ! i) = None) = url_healthy (t i) env"
proof -
  from loaded_config_ready [OF assms(1-6), of getenv] st have reg: "registry_ok reg" "roles_ready (d_channels d) cfg act"
    by (auto split: if_splits)
  then show "registry_ok reg" by simp
  have cs: "\<forall>m \<in> set ms. can_start (d_channels d) (ul_sm m) (ul_interval m) (ul_channels m)"
    using reg(2) ms by (simp add: roles_ready_def url_ready_def Let_def)
  then show "\<forall>m \<in> set ms. sm_inv (ul_sm m) \<and> 0 < ul_interval m" by (simp add: can_start_def)
  show "i < length ms \<Longrightarrow> set (ul_channels (ms ! i)) \<subseteq> dom (d_channels d)" using cs by (simp add: can_start_def)
  have rng: "config_in_range cfg"
    using Load_Inr [OF assms(1-3), of cfg] assms(4,6) decode_config_typed [OF assms(1)] effective_config_typed typed_in_range by blast
  note u = startup_url_units [OF st ms this]
  have unit: "url_unit (urlTarget (t i)) (ms ! i)" "t i \<in> set (um_Targets (ro_URLMonitor (c_Roles cfg)))" if "i < length ms"
    using that u by (simp_all add: list_all2_conv_all_nth t_def)
  show "NewWithConfig (url_config (t i)) = Some (ul_sm (ms ! i)) \<and> mc_WindowSize (url_config (t i)) < 2 ^ 63" if "i < length ms"
    using unit [OF that] rng by (auto simp: url_unit_def url_config_Mon) (auto simp: url_config_def config_in_range_def in_range_def Let_def)
  show "ul_channels (ms ! i) = mp_Notify (ut_MonitorParams (t i))" if "i < length ms"
    using unit(1) [OF that] by (simp add: url_unit_def urlTarget_def Let_def)
  show "i < length ms \<Longrightarrow> (url_probe env (ms ! i) = None) = url_healthy (t i) env" using unit(1) url_unit_healthy by blast
qed

subsection \<open>An example\<close>

definition url_example_config :: Config where
  "url_example_config = example_config\<lparr>c_Roles := (c_Roles example_config)\<lparr>
     ro_PingMonitor := \<lparr>pm_Enabled = False, pm_DefaultProfile = '''', pm_Targets = []\<rparr>,
     ro_URLMonitor := \<lparr>um_Enabled = True, um_DefaultProfile = ''std'', um_Targets =
       [\<lparr>ut_URL = ''http://u/'', ut_Profile = '''', ut_MonitorParams = zeroParams\<rparr>]\<rparr>\<rparr>\<rparr>"

definition url_example_json :: json where
  "url_example_json = JObject [
     (''profiles'', example_profiles),
     (''channels'', JObject [(''ops'', JObject [(''type'', JString ''webhook''), (''url'', JString ''http://h/'')])]),
     (''roles'', JObject [(''url_monitor'', JObject [(''enabled'', JBool True), (''default_profile'', JString ''std''),
       (''targets'', JArray [JObject [(''url'', JString ''http://u/'')]])])])]"

definition url_example_file :: string where
  "url_example_file = json_text url_example_json"

lemma url_example_decode: "decode_config url_example_file = Inr url_example_config"
  unfolding url_example_file_def
proof (rule decode_config_text)
  have "valid_utf8 k" if "k \<in> set [''profiles'', ''channels'', ''ops'', ''type'', ''webhook'', ''url'', ''http://h/'', ''http://u/'',
      ''roles'', ''url_monitor'', ''enabled'', ''default_profile'', ''std'', ''targets'']" for k
    using that by (intro valid_key) auto
  then show "good_json url_example_json" "depth url_example_json \<le> maxNestingDepth"
    using example_profiles_good by (simp_all add: url_example_json_def maxNestingDepth_def)
  show "dec_config url_example_json zeroConfig = Some url_example_config"
    by (simp add: url_example_json_def example_profiles_def dec_config_simps dec_url_monitor_def put_url_monitor_def
        dec_url_target_def put_url_target_def url_example_config_def example_config_def in_int64_def)
qed

lemma url_example_iterates: "iterates [''ops''] (c_Channels url_example_config)"
  "iterates [''ops''] (c_Channels (effective_config url_example_config))"
  using example_iterates by (auto simp: url_example_config_def iterates_def effective_config_def Let_def domIff)

lemma url_example_role:
  "effective_url url_example_config = \<lparr>um_Enabled = True, um_DefaultProfile = ''std'', um_Targets =
     [\<lparr>ut_URL = ''http://u/'', ut_Profile = '''', ut_MonitorParams = \<lparr>mp_IntervalS = 30, mp_TimeoutMS = 2000,
        mp_FailureThreshold = 1, mp_Trigger = ''consecutive'', mp_WindowSize = 20, mp_MinAvailability = Fin 0,
        mp_Notify = [''ops''], mp_InsecureSkipVerify = False\<rparr>\<rparr>]\<rparr>"
  by (simp add: url_example_config_def example_config_def effective_url_def Let_def
      zeroParams_def url_source_def profile_params_def effective_def)

lemma url_example_http: "http_url ''http://u/''"
proof -
  have "map ascii_lower ''http'' \<in> {''http'', ''https''}" by (simp add: ascii_lower_def byte_def)
  moreover have "list_all host_char ''u''" "list_all path_char ''/''"
    by (simp_all add: is_alpha_def host_char_def path_char_def is_control_def byte_def)
  ultimately show ?thesis
    unfolding validateHTTPURL_None [symmetric]
    using validateHTTPURL_plain [of "''http''" "''u''" "''/''" None] by (simp add: port_text_def)
qed

lemma url_example_loaded:
  "Load [''ops''] [''ops''] (Inr url_example_file) = Inr (effective_config url_example_config)"
proof -
  have "profiles_defined url_example_config"
    by (simp add: profiles_defined_def profile_known_def url_example_config_def example_config_def Let_def)
  moreover have "valid_config (effective_config url_example_config)"
    unfolding valid_config_def effective_config_fields url_example_role
    by (simp add: url_example_config_def example_config_def effective_config_def effective_ping_def Let_def url_example_http
        ran_def with_timeout_def channel_ok_def
        pong_ok_def ping_ok_def url_ok_def internet_ok_def speed_ok_def params_ok_def trigger_ok_def)
  ultimately show ?thesis
    using Load_Inr [OF url_example_decode url_example_iterates(1) url_example_iterates(1)] by blast
qed

lemma url_example_intervals: "intervals_ok (effective_config url_example_config)"
  unfolding intervals_ok_def effective_config_fields url_example_role Let_def
  by (simp add: max_seconds_def effective_config_def effective_ping_def url_example_config_def example_config_def Let_def)

definition example_get :: "get_env \<times> check_times" where
  "example_get = (\<lparr>ge_urlError = (\<lambda>_ _. []), ge_do = (\<lambda>_ _. Inl ''refused'')\<rparr>, \<lparr>ct_observe = 1, ct_record = 1, ct_alert = 1\<rparr>)"

lemma example_get_unhealthy: "\<not> url_healthy t (fst example_get)"
  by (simp add: url_healthy_def httpProbe_def example_get_def Let_def split: sum.split)

subsection \<open>Properties\<close>

text \<open>
  C3. From the configuration file to the alert, for URLs: in a daemon started from a loaded
  configuration, under every schedule of the goroutines of the URL monitor, what each target
  announces is exactly the closed form of the answers to its requests (made to its URL with its
  effective timeout and TLS verification) under its effective settings; every alert goes to the
  channels its settings name, and all of those exist in the dispatcher. No goroutine panics.
\<close>

theorem configured_url_alerts:
  assumes "decode_config data = Inr c" and "iterates ord (c_Channels c)" and "iterates ord' (c_Channels c)"
    and "Load ord ord' (Inr data) = Inr cfg" and "iterates ord'' (c_Channels cfg)" and "intervals_ok cfg"
    and "startup getenv ord'' (Inr cfg) = Some (Inr (d, act, reg))" and "ac_url_monitor act = Some ms"
    and "URLMonitor_Run ms reg ls s" and "i < length ms" and "\<not> in_check (mr_gos s ! i)" and "length (ticks_of i ls) < 2 ^ 63"
  defines "t \<equiv> um_Targets (ro_URLMonitor (c_Roles cfg)) ! i"
  shows "mr_main s \<noteq> Crashed
    \<and> announced (effects_of i ls) = concat (map announce (expected_events (url_config t) (map (url_healthy t \<circ> fst) (ticks_of i ls))))
    \<and> dispatched_to (effects_of i ls) \<subseteq> {mp_Notify (ut_MonitorParams t)}
    \<and> known d (mp_Notify (ut_MonitorParams t)) = mp_Notify (ut_MonitorParams t)"
proof -
  note ok = startup_url_monitors [OF assms(1-8)]
  have run: "monitor_steps ul_interval url_stages (monitor_run_start ms reg) ls s"
    using assms(9) by (simp add: URLMonitor_Run_def)
  have "mr_main s \<noteq> Crashed" using url_fan.run_inv_steps [OF run ok(2,1)] by (simp add: url_fan.run_inv_def)
  moreover obtain m' reg' es where es: "url_run (ms ! i, reg) (ticks_of i ls) = Some ((m', reg'), es)"
    "dispatches (effects_of i ls) = dispatches es"
    using url_fan.isolates_dispatches [OF run ok(2,1) assms(10,11)] by (auto simp: url_run_def)
  moreover have "0 < ul_interval (ms ! i)" using ok(2) assms(10) by simp
  from url_run_closed_form [OF conjunct1 [OF ok(3) [OF assms(10)]] conjunct2 [OF ok(3) [OF assms(10)]] this assms(12) ok(1)] es(1)
  have "announced es = concat (map announce (expected_events (url_config t) (map (url_healthy t \<circ> fst) (ticks_of i ls))))"
    "dispatched_to es \<subseteq> {ul_channels (ms ! i)}" by (auto simp: t_def ok(6) [OF assms(10)] comp_def)
  moreover have "known d (ul_channels (ms ! i)) = ul_channels (ms ! i)"
    using ok(5) [OF assms(10)] by (auto simp: known_def filter_id_conv)
  ultimately show ?thesis
    using ok(4) [OF assms(10)] by (simp add: announced_def alerts_of_dispatches dispatched_to_def t_def)
qed

theorem configured_url_alerts_witness:
  "\<exists>d act reg ms ls s. startup (\<lambda>_. []) [''ops''] (Inr (effective_config url_example_config)) = Some (Inr (d, act, reg))
    \<and> ac_url_monitor act = Some ms \<and> URLMonitor_Run ms reg ls s \<and> ticks_of 0 ls = [example_get]
    \<and> announced (effects_of 0 ls) = [''UNHEALTHY''] \<and> dispatched_to (effects_of 0 ls) \<subseteq> {[''ops'']}"
proof -
  let ?c = "effective_config url_example_config"
  note load = url_example_decode url_example_iterates(1) url_example_iterates(1) url_example_loaded url_example_iterates(2) url_example_intervals
  from loaded_config_ready [OF load, of "\<lambda>_. []"] obtain d act reg where
    st: "startup (\<lambda>_. []) [''ops''] (Inr ?c) = Some (Inr (d, act, reg))" "roles_ready (d_channels d) ?c act"
    by (auto simp: is_monitoring_def url_example_role)
  then obtain m where ms: "ac_url_monitor act = Some [m]"
    by (auto simp: roles_ready_def url_ready_def url_example_role Let_def map_eq_Cons_conv split: option.splits)
  note ok = startup_url_monitors [OF load st(1) ms]
  have m: "sm_inv (ul_sm m)" "0 < ul_interval m" using ok(2) by simp_all
  obtain m' warn ops post where "url_stages example_get m = Some (m', warn, ops, post)"
    using url_fan.check_ok [OF m(1), of example_get] by blast
  from first_check [where ms = "[]" and interval = ul_interval and check = url_stages, OF m(2) this ok(1)] obtain ls s where
    run: "URLMonitor_Run [m] reg ls s" "ticks_of 0 ls = [example_get]" "\<not> in_check (mr_gos s ! 0)" by (auto simp: URLMonitor_Run_def)
  from configured_url_alerts [OF load st(1) ms run(1) _ run(3)] run(2)
  have "announced (effects_of 0 ls) = [''UNHEALTHY'']" "dispatched_to (effects_of 0 ls) \<subseteq> {[''ops'']}"
    by (simp_all add: url_example_role example_get_unhealthy url_config_def
        expected_events_def expected_state_def trailing_failures_def announce_def Let_def)
  with st(1) ms run show ?thesis by blast
qed

end
