(* ===== verification/GoFlag.thy ===== *)
theory GoFlag
  imports GoPrelude
begin

text \<open>
  Go's \<^verbatim>\<open>flag\<close> package as far as a program with string flags uses it: \<open>parseOne\<close> and the loop of
  \<^verbatim>\<open>Parse\<close> under \<^verbatim>\<open>ExitOnError\<close>. The flags are a map from their names to their values, which starts
  with the defaults.
\<close>

datatype flag_error = BadSyntax string | NotDefined string | NeedsArgument string | ErrHelp

datatype flag_step = NoFlag "string list" | FlagError flag_error | SetFlag string string "string list"

text \<open>A flag begins with one or two minus signs; its value follows an equals sign or is the next argument.\<close>

definition flag_name :: "string \<Rightarrow> string" where
  "flag_name s = (if s ! 1 = CHR ''-'' then drop 2 s else drop 1 s)"

definition flag_split :: "string \<Rightarrow> string \<times> string option" where
  "flag_split name = (case dropWhile (\<lambda>c. c \<noteq> CHR ''='') name of
      [] \<Rightarrow> (name, None)
    | _ # value \<Rightarrow> (takeWhile (\<lambda>c. c \<noteq> CHR ''='') name, Some value))"

definition parseOne :: "(string \<rightharpoonup> string) \<Rightarrow> string list \<Rightarrow> flag_step" where
  "parseOne formal args = (case args of
      [] \<Rightarrow> NoFlag []
    | s # rest \<Rightarrow>
        if length s < 2 \<or> hd s \<noteq> CHR ''-'' then NoFlag args
        else if s = ''--'' then NoFlag rest
        else if flag_name s = [] \<or> hd (flag_name s) \<in> {CHR ''-'', CHR ''=''} then FlagError (BadSyntax s)
        else (let (name, value) = flag_split (flag_name s) in
          if formal name = None then FlagError (if name = ''help'' \<or> name = ''h'' then ErrHelp else NotDefined name)
          else (case value of
              Some v \<Rightarrow> SetFlag name v rest
            | None \<Rightarrow> (case rest of [] \<Rightarrow> FlagError (NeedsArgument name) | v # rest \<Rightarrow> SetFlag name v rest))))"

lemma parseOne_shorter: "parseOne formal args = SetFlag name v rest \<Longrightarrow> length rest < length args"
  by (auto simp: parseOne_def Let_def split: list.splits if_splits prod.splits option.splits)

function flag_Parse :: "(string \<rightharpoonup> string) \<Rightarrow> string list \<Rightarrow> flag_error + (string \<rightharpoonup> string) \<times> string list" where
  "flag_Parse formal args = (case parseOne formal args of
      NoFlag rest \<Rightarrow> Inr (formal, rest)
    | FlagError err \<Rightarrow> Inl err
    | SetFlag name v rest \<Rightarrow> flag_Parse (formal(name \<mapsto> v)) rest)"
  by pat_completeness auto
termination by (relation "measure (\<lambda>(_, args). length args)") (auto dest: parseOne_shorter)

declare flag_Parse.simps [simp del]

text \<open>The status a program exits with when its flags cannot be parsed.\<close>

definition flag_exit :: "flag_error \<Rightarrow> goint" where
  "flag_exit err = (if err = ErrHelp then 0 else 2)"

subsection \<open>What is parsed\<close>

lemma flag_Parse_none [simp]: "flag_Parse formal [] = Inr (formal, [])"
  by (simp add: flag_Parse.simps [of _ "[]"] parseOne_def)

text \<open>The parser changes only the values of flags that are defined.\<close>

lemma flag_Parse_dom: "flag_Parse formal args = Inr (vals, rest) \<Longrightarrow> dom vals = dom formal"
proof (induction formal args rule: flag_Parse.induct)
  case (1 formal args)
  have dom: "dom (formal(name \<mapsto> v)) = dom formal" if "parseOne formal args = SetFlag name v r" for name v r
    using that by (auto simp: parseOne_def Let_def split: list.splits if_splits prod.splits option.splits)
  show ?case
  proof (cases "parseOne formal args")
    case (SetFlag name v r)
    then have "flag_Parse (formal(name \<mapsto> v)) r = Inr (vals, rest)" using 1(2) by (simp add: flag_Parse.simps [of formal args])
    with 1(1) [OF SetFlag] dom [OF SetFlag] show ?thesis unfolding fun_upd_def by blast
  qed (use 1(2) in \<open>auto simp: flag_Parse.simps [of formal args]\<close>)
qed

lemma flag_Parse_positional:
  assumes "s = [] \<or> hd s \<noteq> CHR ''-''"
  shows "flag_Parse formal (s # args) = Inr (formal, s # args)"
  using assms by (cases s) (simp_all add: flag_Parse.simps [of _ "_ # _"] parseOne_def)

lemma flag_split_plain:
  assumes "CHR ''='' \<notin> set name"
  shows "flag_split name = (name, None)" and "flag_split (name @ CHR ''='' # v) = (name, Some v)"
proof -
  have "\<forall>c \<in> set name. c \<noteq> CHR ''=''" using assms by auto
  then have "dropWhile (\<lambda>c. c \<noteq> CHR ''='') name = []" "dropWhile (\<lambda>c. c \<noteq> CHR ''='') (name @ CHR ''='' # v) = CHR ''='' # v"
    "takeWhile (\<lambda>c. c \<noteq> CHR ''='') (name @ CHR ''='' # v) = name"
    by (simp_all add: dropWhile_append2 takeWhile_append2)
  then show "flag_split name = (name, None)" "flag_split (name @ CHR ''='' # v) = (name, Some v)"
    by (simp_all only: flag_split_def list.case)
qed

text \<open>A flag may be written with one or two minus signs and with its value in the same or in the next argument.\<close>

definition flag_word :: "string \<Rightarrow> bool" where
  "flag_word name \<longleftrightarrow> name \<noteq> [] \<and> hd name \<noteq> CHR ''-'' \<and> CHR ''='' \<notin> set name"

lemma flag_Parse_flag:
  assumes "flag_word name" and "formal name \<noteq> None" and "dash = ''-'' \<or> dash = ''--''"
  shows "flag_Parse formal ((dash @ name @ CHR ''='' # v) # args) = flag_Parse (formal(name \<mapsto> v)) args"
    and "flag_Parse formal ((dash @ name) # v # args) = flag_Parse (formal(name \<mapsto> v)) args"
    and "flag_Parse formal [dash @ name] = Inl (NeedsArgument name)"
proof -
  obtain c cs where name: "name = c # cs" "c \<noteq> CHR ''-''" "c \<noteq> CHR ''=''" "CHR ''='' \<notin> set name"
    using assms(1) by (cases name) (auto simp: flag_word_def)
  have n: "flag_name (dash @ name @ t) = name @ t" for t using assms(3) name by (auto simp: flag_name_def)
  have g: "\<not> length (dash @ name @ t) < 2" "hd (dash @ name @ t) = CHR ''-''" "dash @ name @ t \<noteq> ''--''" for t
    using assms(3) name by auto
  have p: "parseOne formal ((dash @ name @ t) # rest) = (case snd (flag_split (name @ t)) of
      Some v \<Rightarrow> SetFlag name v rest | None \<Rightarrow> (case rest of [] \<Rightarrow> FlagError (NeedsArgument name) | v # rest \<Rightarrow> SetFlag name v rest))"
    if "fst (flag_split (name @ t)) = name" for t rest
  proof -
    have "flag_name (dash @ name @ t) \<noteq> []" "hd (flag_name (dash @ name @ t)) \<notin> {CHR ''-'', CHR ''=''}"
      unfolding n using name(1-3) by simp_all
    with that assms(2) g [of t] show ?thesis by (simp only: parseOne_def list.case n case_prod_beta Let_def if_False) simp
  qed
  note sp = flag_split_plain [OF name(4)]
  from p [of "CHR ''='' # v" args] sp show "flag_Parse formal ((dash @ name @ CHR ''='' # v) # args) = flag_Parse (formal(name \<mapsto> v)) args"
    by (simp add: flag_Parse.simps [of _ "_ # _"])
  from p [of "[]"] sp(1) show "flag_Parse formal ((dash @ name) # v # args) = flag_Parse (formal(name \<mapsto> v)) args"
    "flag_Parse formal [dash @ name] = Inl (NeedsArgument name)"
    by (simp_all add: flag_Parse.simps [of _ "_ # _"])
qed

end
