(* ===== verification/HealthdMain.thy ===== *)
theory HealthdMain
  imports Healthd ConfigJson GoFlag
begin

text \<open>
  \<open>main\<close> and \<open>run\<close> of \<^verbatim>\<open>cmd/healthd/main.go\<close> from the command line to the exit status. Both are
  relations between what the process finds around it and how it ends, because the schedule of the
  roles is open; the steps of the roles are those of \<open>daemon_step\<close>.
\<close>

text \<open>
  The process's surroundings: its arguments, the files, the environment variables, and the orders in
  which the loops over the channels of the configuration visit them (defaults, validation, building).
\<close>

record process_env =
  en_args :: "string list"
  en_readFile :: "string \<Rightarrow> string + string"
  en_getenv :: "string \<Rightarrow> string"
  en_defaultOrder :: "string list"
  en_validateOrder :: "string list"
  en_buildOrder :: "string list"

definition main_flags :: "string \<rightharpoonup> string" where
  "main_flags = [''config'' \<mapsto> ''./config.json'']"

definition run_startup :: "process_env \<Rightarrow> string \<Rightarrow> (run_error + Service Dispatcher \<times> active \<times> Registry option) option" where
  "run_startup env configPath = startup (en_getenv env) (en_buildOrder env)
     (Load (en_defaultOrder env) (en_validateOrder env) (en_readFile env configPath))"

text \<open>
  \<open>run_ends env path ls logs err\<close>: \<open>run\<close> returns \<open>err\<close> after the steps \<open>ls\<close> of its goroutines, with \<open>logs\<close>
  written; the loop over the active roles visits them in the order \<open>names\<close>.
\<close>

inductive run_ends :: "process_env \<Rightarrow> string \<Rightarrow> daemon_label list \<Rightarrow> LogLine list \<Rightarrow> run_error option \<Rightarrow> bool" for env path where
  refused: "run_startup env path = Some (Inl err) \<Longrightarrow> run_ends env path [] [] (Some err)"
| ended: "run_startup env path = Some (Inr (d, act, reg)) \<Longrightarrow> distinct names \<Longrightarrow> set names = set (active_names act) \<Longrightarrow>
    daemon_run (length (active_names act)) (daemon_start names) ls s \<Longrightarrow> dm_main s = Returned \<Longrightarrow>
    run_ends env path ls (dm_logs s) (run_result s)"

inductive main_ends :: "(ConfigError \<Rightarrow> string) \<Rightarrow> process_env \<Rightarrow> daemon_label list \<Rightarrow> LogLine list \<Rightarrow> goint \<Rightarrow> bool"
  for message env where
  usage: "flag_Parse main_flags (en_args env) = Inl err \<Longrightarrow> main_ends message env [] [] (flag_exit err)"
| ran: "flag_Parse main_flags (en_args env) = Inr (vals, rest) \<Longrightarrow> vals ''config'' = Some configPath \<Longrightarrow>
    run_ends env configPath ls logs err \<Longrightarrow>
    main_ends message env ls (logs @ fst (main_exit message err)) (snd (main_exit message err))"

inductive_cases run_endsE: "run_ends env path ls logs err"
inductive_cases main_endsE: "main_ends message env ls logs code"

end
