(* ===== verification/MainSpec.thy ===== *)
theory MainSpec
  imports HealthdMain HealthdSpec
begin

text \<open>
  The daemon as a process: which file it reads, and what its exit status and its last log line say.
\<close>

subsection \<open>The command line\<close>

lemma main_flags_parsed:
  assumes "flag_Parse main_flags args = Inr (vals, rest)"
  shows "\<exists>path. vals ''config'' = Some path"
  using flag_Parse_dom [OF assms] by (auto simp: main_flags_def split: if_splits)

lemma config_flag: "flag_word ''config''" "main_flags ''config'' \<noteq> None"
  by (simp_all add: flag_word_def main_flags_def)

text \<open>Without arguments the default is read; the flag may be written in each of its four forms.\<close>

lemma config_path_forms:
  assumes "args = [] \<and> path = ''./config.json''
    \<or> (\<exists>dash \<in> {''-'', ''--''}. args = [dash @ ''config='' @ path] \<or> args = [dash @ ''config'', path])"
  shows "\<exists>vals rest. flag_Parse main_flags args = Inr (vals, rest) \<and> vals ''config'' = Some path"
proof -
  have "flag_Parse main_flags [dash @ ''config='' @ path] = Inr (main_flags(''config'' \<mapsto> path), [])"
    "flag_Parse main_flags [dash @ ''config'', path] = Inr (main_flags(''config'' \<mapsto> path), [])" if "dash \<in> {''-'', ''--''}" for dash
    using flag_Parse_flag(1,2) [where name = "''config''" and formal = main_flags and dash = dash and v = path and args = "[]"] config_flag that by simp_all
  moreover have "flag_Parse main_flags [] = Inr (main_flags, [])" "main_flags ''config'' = Some ''./config.json''"
    by (simp_all add: main_flags_def)
  moreover have "(main_flags(''config'' \<mapsto> path)) ''config'' = Some path" by simp
  ultimately show ?thesis using assms by metis
qed

subsection \<open>The log\<close>

definition failed_line :: "LogLine \<Rightarrow> bool" where
  "failed_line l \<longleftrightarrow> ll_msg l = ''healthd failed''"

lemma daemon_logs_not_failed:
  assumes "daemon_run nroles (daemon_start names) ls s"
  shows "\<forall>l \<in> set (dm_logs s). \<not> failed_line l"
  using assms
proof (induction "daemon_start names" ls s rule: daemon_run.induct)
  case (step ls t l u)
  from step.hyps(3) step.hyps(2) show ?case
    by (cases rule: daemon_step.cases) (auto simp: failed_line_def log_line_def log_started_def log_role_failed_def
        log_role_stopped_def log_stopping_def log_stopped_def)
qed (simp add: daemon_start_def)

lemma daemon_run_returned:
  assumes "daemon_run nroles (daemon_start names) ls s" and "distinct names" and "dm_main s = Returned"
  shows "run_result s = map_option (\<lambda>(name, err). RoleFailed name err) (first (recorded ls))"
    and "set (recorded ls) = set (failures ls)"
proof -
  have inv: "daemon_inv names s" "trace_inv ls s" using daemon_run_facts [OF assms(1,2)] by blast+
  then show "run_result s = map_option (\<lambda>(name, err). RoleFailed name err) (first (recorded ls))"
    by (simp add: trace_inv_def run_result_def)
  have "failed_roles (dm_roles s) = {}" using inv(1) assms(3) by (force simp: failed_roles_def daemon_inv_def ran_def)
  with inv(2) show "set (recorded ls) = set (failures ls)" by (simp add: trace_inv_def)
qed

lemma first_in: "first xs = Some x \<Longrightarrow> x \<in> set xs"
  by (auto simp: first_def split: list.splits)

text \<open>How \<open>run\<close> ends, from the failures of its roles.\<close>

lemma run_ends_result:
  assumes "run_ends env path ls logs res"
  shows "(case run_startup env path of
      Some (Inl err) \<Rightarrow> res = Some err \<and> ls = [] \<and> logs = []
    | Some (Inr _) \<Rightarrow> (if failures ls = [] then res = None
        else \<exists>(name, err) \<in> set (failures ls). res = Some (RoleFailed name err))
    | None \<Rightarrow> False) \<and> (\<forall>l \<in> set logs. \<not> failed_line l)"
  using assms
proof cases
  case (ended d act reg names s)
  note ret = daemon_run_returned [OF ended(6,4,7)]
  have "(if failures ls = [] then res = None else \<exists>(name, err) \<in> set (failures ls). res = Some (RoleFailed name err))"
  proof (cases "first (recorded ls)")
    case None
    then have "failures ls = []" using ret(2) by simp
    with None ret(1) ended(2) show ?thesis by simp
  next
    case (Some p)
    with ret first_in [OF Some] ended(2) show ?thesis by (cases p) (auto intro!: bexI [of _ p])
  qed
  with ended(1,3) daemon_logs_not_failed [OF ended(6)] show ?thesis by simp
qed simp

subsection \<open>Properties\<close>


lemma signal_stops:
  assumes "distinct names"
  shows "\<exists>ls s. daemon_run nroles (daemon_start names) ls s \<and> dm_main s = Returned \<and> failures ls = []"
proof -
  let ?s = "(daemon_start names)\<lparr>dm_cancelled := True\<rparr>"
  have "daemon_step nroles (daemon_start names) DSignal ?s"
    by (rule daemon_step.signal) (simp add: daemon_start_def)
  from daemon_run.step [OF daemon_run.start this] have run: "daemon_run nroles (daemon_start names) [DSignal] ?s" by simp
  moreover have "going_down ?s" by (simp add: going_down_def)
  ultimately obtain ls s where "daemon_run nroles (daemon_start names) ([DSignal] @ ls) s" "dm_main s = Returned" "list_all internal ls"
    using daemon_goes_down [OF _ assms] by blast
  then show ?thesis by (intro exI [of _ "[DSignal] @ ls"] exI [of _ s]) (simp add: internal_trace del: append.simps)
qed

definition example_env :: process_env where
  "example_env = \<lparr>en_args = [''-config'', ''h.json''],
     en_readFile = (\<lambda>path. if path = ''h.json'' then Inr example_file else Inl ''no such file''), en_getenv = (\<lambda>_. []),
     en_defaultOrder = [''ops''], en_validateOrder = [''ops''], en_buildOrder = [''ops'']\<rparr>"

lemma example_startup: "\<exists>d act reg. run_startup example_env ''h.json'' = Some (Inr (d, act, reg))"
proof -
  let ?c = "effective_config example_config"
  have it: "iterates [''ops''] (c_Channels ?c)"
    using example_iterates by (auto simp: iterates_def effective_config_def Let_def domIff)
  have "is_monitoring ?c" by (simp add: is_monitoring_def effective_config_def effective_ping_def example_config_def Let_def)
  with loaded_config_ready [OF example_decode example_iterates example_iterates example_loaded it example_intervals, of "\<lambda>_. []"]
  show ?thesis by (auto simp: run_startup_def example_env_def example_loaded)
qed


end
