(* ===== verification/Spec2Isabelle.thy ===== *)
theory Spec2Isabelle
  imports ConfigJsonSpec URLSpec DispatcherSpec ChannelsSpec ServerSpec RolesSpec MonitorRunSpec HealthdSpec SummarySpec EndToEndSpec URLEndToEndSpec MainSpec
begin

text \<open>
  A verification of healthd, a connection and health monitor written in Go: one binary that loads a
  JSON configuration, starts the roles it enables, probes targets at intervals, raises an alert when
  a target becomes unhealthy or recovers, delivers alerts to notification channels, and answers ping
  and summary requests over TCP.

  \<^bold>\<open>The program and its models.\<close> Each Go file has a theory that defines its records and one definition
  for each function or method, in the order of the file and under the source's names where they are
  free (a prefix tells apart methods of the same name and fields of different structs); theories
  ending in \<open>Spec\<close> hold what is proved about them when it does not stand in the theory itself.

  \<^item> Language: \<open>GoPrelude\<close> (64-bit integers with wrap-around, slices with checked indexing, range
    loops that stop at a panic, the locale \<open>bounded_log\<close>), \<open>GoError\<close> (error results), \<open>GoStrings\<close> (the
    formatting functions used), \<open>Float64\<close> (binary64 over the rationals with round to nearest even,
    infinities and NaN; the sign of zero is not kept), \<open>Slog\<close> (log lines as values). A panic is
    \<^term>\<open>None\<close>; an error is a value of a sum.
  \<^item> Standard library: \<open>GoURL\<close> (the parser of \<^verbatim>\<open>net/url\<close> with its escapes, authority and port rules,
    \<^verbatim>\<open>net.SplitHostPort\<close>), \<open>GoTime\<close> (calendar dates of instants, the layouts \<^verbatim>\<open>RFC3339\<close> and
    \<^verbatim>\<open>RFC1123Z\<close>, the JSON text of a time) with \<open>TimeSpec\<close> (a time is read back from its text),
    \<open>FixedText\<close> (\<^verbatim>\<open>%.2f\<close>), \<open>GoFlag\<close> (parsing of command lines).
  \<^item> \<open>encoding/json\<close>: \<open>Utf8\<close>, \<open>JsonString\<close>, \<open>JsonNumber\<close>, \<open>FloatText\<close>, \<open>JsonText\<close>, \<open>Json\<close>. The text that
    \<^verbatim>\<open>Marshal\<close> writes, a parser with the nesting limit of the library, and the rules by which structs
    are filled; texts read back as the values they were written from.
  \<^item> \<^verbatim>\<open>internal/monitor\<close>: \<open>Window\<close> (window.go), \<open>Percent\<close> and \<open>StateMachine\<close> (statemachine.go),
    \<open>History\<close> (history.go), \<open>Registry\<close> (registry.go). A method that holds a mutex is one step.
  \<^item> \<^verbatim>\<open>internal/config\<close>: \<open>Config\<close> (schema, profiles, defaults, validation), \<open>ConfigJson\<close> (struct tags,
    the decoder, \<open>Load\<close>), \<open>ConfigSpec\<close>, \<open>ConfigJsonSpec\<close> and \<open>URLSpec\<close> (which URLs are accepted). The loops
    over maps take the order in which they visit the keys as an argument.
  \<^item> \<^verbatim>\<open>internal/notify\<close>: \<open>Dispatcher\<close> (service.go, dispatcher.go) with the concurrent fan-out as a step
    relation, \<open>Channels\<close> (console.go, webhook.go, smsgate.go, email.go), \<open>DispatcherSpec\<close>,
    \<open>ChannelsSpec\<close>.
  \<^item> \<^verbatim>\<open>internal/protocol\<close>: \<open>Protocol\<close>, \<open>ProtocolSpec\<close>.
  \<^item> \<^verbatim>\<open>internal/roles\<close>: \<open>MessageHandlers\<close> (message\_handler.go, message\_dispatcher.go), \<open>TCPListener\<close>
    (tcp\_listener.go), \<open>ServerSpec\<close>; \<open>Roles\<close> (roles.go, the four monitors, the summary reporter),
    \<open>RolesSpec\<close>; \<open>MonitorRun\<close> (the goroutines of \<open>PingMonitor.Run\<close> and \<open>URLMonitor.Run\<close>),
    \<open>MonitorRunSpec\<close>; \<open>AlertsSpec\<close> (the alerts of each role in closed form); \<open>ExchangeSpec\<close> (a ping
    monitor and a server on one connection).
  \<^item> \<^verbatim>\<open>cmd/healthd/main.go\<close>: \<open>Healthd\<close> (building channels and roles, the life cycle of \<open>run\<close>),
    \<open>HealthdMain\<close> (\<open>run\<close> and \<open>main\<close> from the command line to the exit status), \<open>HealthdSpec\<close>,
    \<open>MainSpec\<close>, \<open>SummarySpec\<close> (get-summary served while the roles run; \<open>FloatRange\<close> holds the
    range of floating-point results it needs), and \<open>EndToEndSpec\<close> and \<open>URLEndToEndSpec\<close>, which follow a ping
    and a URL target from the file to their alerts.

  \<^bold>\<open>How the parts interact.\<close> \<open>Load\<close> decodes a file and resolves profiles and defaults; \<open>startup\<close> builds
  channels, the dispatcher, the registry and the roles from the result. Every role runs check cycles:
  probe, state machine, registry, and a dispatch on a transition. All roles share the registry; the
  request server reads it for its summaries. \<open>run\<close> starts the roles as goroutines and brings all of
  them down at the first failure or at a signal.

  \<^bold>\<open>Interfaces.\<close> The contracts between components are locales, each interpreted on the definitions of
  the model: \<open>bounded_log\<close> (window and ring), \<open>alert_source\<close> (the state machine), \<open>keyed_history\<close> (the
  registry's per-unit histories), \<open>alerting_role\<close> (the cycle of each of the four roles),
  \<open>history_role\<close> (a cycle adds its result to the history its role stands for),
  \<open>staged_role\<close> (a check split at its accesses to shared state), \<open>decoder\<close>, \<open>element_decoder\<close> and
  \<open>struct_decoder\<close> (a decoder that implements a schema; slices, maps and structs by sublocale).

  \<^bold>\<open>What is proved.\<close>
  \<^item> State machine: the states and events of a run are a closed form of the result history, in both
    trigger modes; alerts and recoveries alternate; the exact check at which an alert is raised; how
    the rounding of the availability percentage compares with exact arithmetic.
  \<^item> Windows, rings, registry: the last results or samples are kept under every interleaving of
    operations; summaries report every unit.
  \<^item> Configuration: a file is decoded exactly when it conforms to the schema, accepted exactly when its
    effective settings are well-formed, and every setting is the first one set among target, profile
    and default; loading is stable; a loaded configuration starts.
  \<^item> Delivery: each attempt is justified, delays double up to the clamp, channels are isolated from each
    other in every schedule, a dispatch returns; HTTP channels succeed exactly on 2xx, and the receiver of
    a webhook reads the alert, with its instant, from the body; the SMTP session
    transfers data only after sender and recipients were accepted; alert text cannot add mail headers.
  \<^item> Protocol and server: round trips through the text; every line gets one answer, in order, whatever
    its bytes; memory per connection is bounded; a ping monitor and a server understand each other. A
    summary is served under every interleaving of the roles as long as the speedtest's reports are in
    range, and not at all after an infinite measurement.
  \<^item> Roles: cycles do not panic and touch only their own unit; the alerts of every role are the closed
    form of the results of its checks and alternate; targets monitored by concurrent goroutines behave
    as if alone; \<open>Run\<close> returns after cancellation.
  \<^item> Daemon: the first failure is the one returned; every schedule is bounded and a failure or a signal
    leads to the return; the exit status and the last log line tell how it ended; from the configuration
    file, the alerts of a ping or URL target are the closed form of its probe results under its
    effective settings.

  \<^bold>\<open>Parameters.\<close> What lies outside the process is an argument: the outcome of reading the file, dialling,
  writing and reading a connection, HTTP and SMTP replies, the speedtest binary, the clock, the context,
  the environment, the orders of map iteration, the schedule and the offset of the local time zone. \<^verbatim>\<open>%q\<close>
  quoting and the texts of URL and configuration errors are functions given as arguments; no theorem
  assumes anything of them.

  \<^bold>\<open>Bounds.\<close> There is no fuel: loops are structural recursions or have a termination proof, and
  goroutines are step relations whose runs are bounded by a weight. The search for the shortest decimal
  text of a double ends at 1074 places because no double needs more; the JSON parser has the library's
  nesting limit 10000; histories hold \<open>historyCap\<close> = 100 samples, so speeds up to \<open>speed_bound\<close> have a finite sum; the hypotheses \<open>< 2 ^ 63\<close> on lengths
  and counters are the range of Go's \<open>int\<close>.

  \<^bold>\<open>Not modelled.\<close> The implementation of sockets, TLS, HTTP and SMTP; the usage text that \<^verbatim>\<open>flag\<close> prints;
  the bytes of log lines; the memory limits of the Go runtime; the texts of JSON syntax errors; the
  values a slice keeps beyond its length when a key occurs twice in one object; the e2e tests.
\<close>

end
